(* ===== verification/SyncPrelude.thy ===== *)
theory SyncPrelude
  imports Main "HOL-Library.Word" "HOL-Library.Multiset"
begin

text \<open>
  Shared vocabulary of the development: the machine types of the C++ sources, the
  conversions between signed block numbers and \<^verbatim>\<open>size_t\<close>, the collections of rewrite
  rules the component theories fill, and the general lemmas on lists and words that
  several components use.

  \<^item> \<^verbatim>\<open>BlockNumber\<close> is \<^verbatim>\<open>int64_t\<close>. It is an \<open>int\<close> here; every arithmetic result the
    code stores in one goes through \<open>i64\<close>, the two's complement reduction to 64 bits
    (signed overflow, which C++ leaves undefined, is written as the wrap-around the
    supported compilers produce).
  \<^item> \<^verbatim>\<open>size_t\<close> is a \<open>64 word\<close>. Mixed expressions follow C++: the signed operand is
    converted to \<^verbatim>\<open>size_t\<close> (\<open>to_size\<close>), the arithmetic wraps modulo \<open>2 ^ 64\<close>, and storing
    the result in a \<^verbatim>\<open>BlockNumber\<close> reads it as two's complement (\<open>to_number\<close>).
  \<^item> \<^verbatim>\<open>HashType\<close> is the 32-byte array behind \<^verbatim>\<open>FixedBytes<32>\<close>; the default-constructed
    value is all zero.
  \<^item> A node key (\<^verbatim>\<open>KeyInterface::data()\<close>) is a number, in the order \<^verbatim>\<open>KeyCompare\<close> puts the
    keys. A \<^verbatim>\<open>NodeIDPtr\<close> is a pointer to a key: the code compares some node identities by
    address and some by content, so both are kept.
\<close>

named_theorems sync_defs \<open>definitions of operations, for unfolding in proofs\<close>
named_theorems sync_frame \<open>what an operation leaves unchanged\<close>

type_synonym byte = "8 word"
type_synonym bytes = "byte list"
type_synonym size_t = "64 word"
type_synonym BlockNumber = int
type_synonym HashType = bytes
type_synonym NodeID = nat

definition HashType_size :: nat where
  "HashType_size = 32"

definition zeroHash :: HashType where
  "zeroHash = replicate HashType_size 0"

record NodeIDPtr =
  np_addr :: nat
  np_data :: NodeID

text \<open>Equality of two \<^verbatim>\<open>shared_ptr\<close>s compares the addresses.\<close>

definition same_ptr :: "NodeIDPtr \<Rightarrow> NodeIDPtr \<Rightarrow> bool" where
  "same_ptr a b \<longleftrightarrow> np_addr a = np_addr b"

section \<open>Signed and unsigned 64-bit numbers\<close>

definition i64 :: "int \<Rightarrow> int" where
  "i64 n = signed_take_bit 63 n"

definition in_i64 :: "int \<Rightarrow> bool" where
  "in_i64 n \<longleftrightarrow> - (2 ^ 63) \<le> n \<and> n < 2 ^ 63"

definition to_size :: "BlockNumber \<Rightarrow> size_t" where
  "to_size n = word_of_int n"

definition to_number :: "size_t \<Rightarrow> BlockNumber" where
  "to_number w = sint w"

lemma i64_id [simp]: "in_i64 n \<Longrightarrow> i64 n = n"
  unfolding in_i64_def i64_def by (rule signed_take_bit_int_eq_self) simp_all

lemma i64_le: "0 \<le> n \<Longrightarrow> i64 n \<le> n"
proof (cases "n < 2 ^ 63")
  case False
  then show ?thesis using signed_take_bit_int_less_exp [of 63 n] by (simp add: i64_def)
qed (simp add: in_i64_def)

lemma in_i64_i64 [simp]: "in_i64 (i64 n)"
  using signed_take_bit_int_greater_eq_minus_exp [of 63 n] signed_take_bit_int_less_exp [of 63 n]
  by (simp add: in_i64_def i64_def)

lemma in_i64_to_number [simp]: "in_i64 (to_number w)"
  using sint_ge [of w] sint_lt [of w] by (simp add: in_i64_def to_number_def)

lemma to_number_to_size [simp]: "in_i64 n \<Longrightarrow> to_number (to_size n) = n"
  by (simp add: to_number_def to_size_def sint_sbintrunc' flip: i64_def)

lemma to_size_to_number [simp]: "to_size (to_number w) = w"
  by (simp add: to_size_def to_number_def)

lemma uint_to_size: "0 \<le> n \<Longrightarrow> n < 2 ^ 64 \<Longrightarrow> uint (to_size n) = n"
  by (simp add: to_size_def uint_word_of_int)

lemma to_number_small: "uint w < 2 ^ 63 \<Longrightarrow> to_number w = uint w"
  unfolding to_number_def sint_uint
  by (simp add: signed_take_bit_int_eq_self order_trans [OF _ uint_ge_0])

end
