(* ===== verification/StdPriorityQueue.thy ===== *)
theory StdPriorityQueue
  imports SyncPrelude
begin

text \<open>
  \<^verbatim>\<open>std::priority_queue<T, std::vector<T>, Compare>\<close>: the container behind
  \<^verbatim>\<open>DownloadingQueue::BlockQueue\<close> and \<^verbatim>\<open>DownloadRequestQueue::RequestQueue\<close>. The state is the
  vector, laid out as a binary heap; \<^verbatim>\<open>push\<close> appends and moves the new element up, \<^verbatim>\<open>pop\<close>
  moves the last element to the front and down. \<open>cmp a b\<close> is the C++ comparator: \<open>a\<close> has a lower
  priority than \<open>b\<close>, and the top is an element no other one is ordered after.

  The contract a comparator has to satisfy (a strict weak ordering) is the locale
  \<open>strict_weak_order\<close>; the laws of the queue are proved once inside it, over the
  multiset of the queued elements, and the clients use them through its interpretations.
\<close>

section \<open>The heap operations\<close>

fun sift_up :: "('a \<Rightarrow> 'a \<Rightarrow> bool) \<Rightarrow> nat \<Rightarrow> 'a list \<Rightarrow> 'a list" where
  "sift_up cmp i xs =
     (if i = 0 then xs
      else let p = (i - 1) div 2 in
        if cmp (xs ! p) (xs ! i) then sift_up cmp p (xs[i := xs ! p, p := xs ! i])
        else xs)"

function sift_down :: "('a \<Rightarrow> 'a \<Rightarrow> bool) \<Rightarrow> nat \<Rightarrow> 'a list \<Rightarrow> 'a list" where
  "sift_down cmp i xs =
     (let l = 2 * i + 1; r = 2 * i + 2 in
      if l < length xs then
        let c = (if r < length xs \<and> cmp (xs ! l) (xs ! r) then r else l) in
        if cmp (xs ! i) (xs ! c) then sift_down cmp c (xs[i := xs ! c, c := xs ! i])
        else xs
      else xs)"
  by pat_completeness auto
termination
  by (relation "measure (\<lambda>(cmp, i, xs). length xs - i)") (auto simp: Let_def split: if_splits)

declare sift_up.simps [simp del] sift_down.simps [simp del]

definition pq_push :: "('a \<Rightarrow> 'a \<Rightarrow> bool) \<Rightarrow> 'a \<Rightarrow> 'a list \<Rightarrow> 'a list" where
  "pq_push cmp x q = sift_up cmp (length q) (q @ [x])"

definition pq_top :: "'a list \<Rightarrow> 'a option" where
  "pq_top q = (case q of [] \<Rightarrow> None | x # _ \<Rightarrow> Some x)"

definition pq_pop :: "('a \<Rightarrow> 'a \<Rightarrow> bool) \<Rightarrow> 'a list \<Rightarrow> 'a list" where
  "pq_pop cmp q = (if q = [] then [] else sift_down cmp 0 (butlast (q[0 := last q])))"

text \<open>The heap property: no element is ordered after its parent.\<close>

definition is_heap :: "('a \<Rightarrow> 'a \<Rightarrow> bool) \<Rightarrow> 'a list \<Rightarrow> bool" where
  "is_heap cmp xs \<longleftrightarrow> (\<forall>i < length xs. 0 < i \<longrightarrow> \<not> cmp (xs ! ((i - 1) div 2)) (xs ! i))"

section \<open>Contents and length, for any comparator\<close>

lemma mset_sift_up [simp]: "i < length xs \<Longrightarrow> mset (sift_up cmp i xs) = mset xs"
proof (induction cmp i xs rule: sift_up.induct)
  case (1 cmp i xs)
  then show ?case
    by (auto simp: sift_up.simps [of cmp i xs] Let_def mset_swap)
qed

lemma mset_sift_down [simp]: "mset (sift_down cmp i xs) = mset xs"
proof (induction cmp i xs rule: sift_down.induct)
  case (1 cmp i xs)
  then show ?case
    by (auto simp: sift_down.simps [of cmp i xs] Let_def mset_swap)
qed

lemma mset_pq_push [simp]: "mset (pq_push cmp x q) = add_mset x (mset q)"
  by (simp add: pq_push_def)

lemma mset_front_last: "q \<noteq> [] \<Longrightarrow> mset (butlast (q[0 := last q])) = mset q - {#q ! 0#}"
proof (cases q rule: rev_cases)
  case (snoc ys y)
  then show ?thesis by (cases ys) auto
qed simp

lemma mset_pq_pop: "q \<noteq> [] \<Longrightarrow> mset (pq_pop cmp q) = mset q - {#q ! 0#}"
  by (simp add: pq_pop_def mset_front_last)

lemma length_pq_push [simp]: "length (pq_push cmp x q) = Suc (length q)"
  by (metis mset_pq_push size_add_mset size_mset)

lemma length_pq_pop [simp]: "length (pq_pop cmp q) = length q - 1"
proof (cases "q = []")
  case False
  have "size (mset (pq_pop cmp q)) = size (mset q) - 1"
    using False by (simp add: mset_pq_pop size_Diff_singleton)
  then show ?thesis by simp
qed (simp add: pq_pop_def)

lemma set_pq_push [simp]: "set (pq_push cmp x q) = insert x (set q)"
  by (metis mset_pq_push set_mset_add_mset_insert set_mset_mset)

lemma set_pq_pop_subset: "set (pq_pop cmp q) \<subseteq> set q"
proof (cases "q = []")
  case False
  then have "set_mset (mset (pq_pop cmp q)) \<subseteq> set_mset (mset q)"
    unfolding mset_pq_pop [OF False] by (meson in_diffD subsetI)
  then show ?thesis by simp
qed (simp add: pq_pop_def)

lemma pq_push_neq_Nil [simp]: "pq_push cmp x q \<noteq> []"
  by (metis length_pq_push list.size(3) nat.distinct(1))

lemma is_heap_single [simp]: "is_heap cmp [x]"
  by (simp add: is_heap_def)

lemma pq_push_Nil [simp]: "pq_push cmp x [] = [x]"
  by (simp add: pq_push_def sift_up.simps)

lemma pq_pop_single [simp]: "pq_pop cmp [x] = []"
  by (metis length_0_conv length_pq_pop diff_self_eq_0 length_Cons One_nat_def list.size(3))

lemma pq_pop_Nil [simp]: "pq_pop cmp [] = []"
  by (simp add: pq_pop_def)

lemma pq_top_Nil [simp]: "pq_top [] = None"
  by (simp add: pq_top_def)

lemma pq_top_None [simp]: "pq_top q = None \<longleftrightarrow> q = []"
  by (cases q) (simp_all add: pq_top_def)

lemma pq_top_SomeD: "pq_top q = Some x \<Longrightarrow> q \<noteq> [] \<and> x = q ! 0 \<and> x \<in> set q"
  by (cases q) (auto simp: pq_top_def)

text \<open>The loop \<^verbatim>\<open>while (!q.empty() && P(q.top())) q.pop();\<close>.\<close>

function pop_while :: "('a \<Rightarrow> 'a \<Rightarrow> bool) \<Rightarrow> ('a \<Rightarrow> bool) \<Rightarrow> 'a list \<Rightarrow> 'a list" where
  "pop_while cmp P q =
     (case pq_top q of
        None \<Rightarrow> q
      | Some x \<Rightarrow> if P x then pop_while cmp P (pq_pop cmp q) else q)"
  by pat_completeness auto
termination
  by (relation "measure (\<lambda>(cmp, P, q). length q)") (auto dest: pq_top_SomeD)

declare pop_while.simps [simp del]

lemma pop_while_Nil [simp]: "pop_while cmp P [] = []"
  by (simp add: pop_while.simps)

lemma length_pop_while: "length (pop_while cmp P q) \<le> length q"
proof (induction cmp P q rule: pop_while.induct)
  case (1 cmp P q)
  then show ?case
    by (fastforce simp: pop_while.simps [of cmp P q] split: option.splits)
qed


section \<open>The comparator's contract and the laws of the queue\<close>

lemma parent_iff: "0 < j \<Longrightarrow> (j - 1) div 2 = i \<longleftrightarrow> j = 2 * i + 1 \<or> j = 2 * i + 2" for i j :: nat
  by auto

lemma parent_less: "0 < j \<Longrightarrow> (j - 1) div 2 < j" for j :: nat
  by auto

text \<open>
  \<open>heap_hole\<close>: the heap property holds everywhere but between \<open>i\<close> and its parent, and the
  children of \<open>i\<close> are in order with the parent of \<open>i\<close>. \<open>heap_below\<close>: it holds everywhere
  but between \<open>i\<close> and its children. The two are the loop invariants of the two moves.
\<close>

definition heap_hole :: "('a \<Rightarrow> 'a \<Rightarrow> bool) \<Rightarrow> nat \<Rightarrow> 'a list \<Rightarrow> bool" where
  "heap_hole cmp i xs \<longleftrightarrow>
     (\<forall>j < length xs. 0 < j \<longrightarrow> j \<noteq> i \<longrightarrow> \<not> cmp (xs ! ((j - 1) div 2)) (xs ! j)) \<and>
     (\<forall>j < length xs. 0 < j \<longrightarrow> (j - 1) div 2 = i \<longrightarrow> 0 < i \<longrightarrow>
        \<not> cmp (xs ! ((i - 1) div 2)) (xs ! j))"

definition heap_below :: "('a \<Rightarrow> 'a \<Rightarrow> bool) \<Rightarrow> nat \<Rightarrow> 'a list \<Rightarrow> bool" where
  "heap_below cmp i xs \<longleftrightarrow>
     (\<forall>j < length xs. 0 < j \<longrightarrow> (j - 1) div 2 \<noteq> i \<longrightarrow> \<not> cmp (xs ! ((j - 1) div 2)) (xs ! j)) \<and>
     (\<forall>j < length xs. 0 < j \<longrightarrow> (j - 1) div 2 = i \<longrightarrow> 0 < i \<longrightarrow>
        \<not> cmp (xs ! ((i - 1) div 2)) (xs ! j))"

locale strict_weak_order =
  fixes cmp :: "'a \<Rightarrow> 'a \<Rightarrow> bool"
  assumes irrefl: "\<not> cmp x x"
    and trans: "cmp x y \<Longrightarrow> cmp y z \<Longrightarrow> cmp x z"
    and incomparable_trans: "\<not> cmp x y \<Longrightarrow> \<not> cmp y x \<Longrightarrow> \<not> cmp y z \<Longrightarrow> \<not> cmp z y \<Longrightarrow> \<not> cmp x z"
begin

lemma asym: "cmp x y \<Longrightarrow> \<not> cmp y x"
  using irrefl trans by blast

lemma neg_trans: "\<not> cmp x y \<Longrightarrow> \<not> cmp y z \<Longrightarrow> \<not> cmp x z"
  using trans incomparable_trans by metis

lemma heap_hole_swap:
  assumes hole: "heap_hole cmp i xs" and i: "0 < i" "i < length xs"
    and less: "cmp (xs ! ((i - 1) div 2)) (xs ! i)"
  shows "heap_hole cmp ((i - 1) div 2) (xs[i := xs ! ((i - 1) div 2), (i - 1) div 2 := xs ! i])"
proof -
  define p where "p = (i - 1) div 2"
  define ys where "ys = xs[i := xs ! p, p := xs ! i]"
  have p: "p < i" "p < length xs"
    using i parent_less [of i] by (auto simp: p_def)
  have nth: "j < length xs \<Longrightarrow> ys ! j = (if j = p then xs ! i else if j = i then xs ! p else xs ! j)" for j
    using i by (simp add: ys_def nth_list_update)
  have h1: "\<not> cmp (xs ! ((j - 1) div 2)) (xs ! j)" if "j < length xs" "0 < j" "j \<noteq> i" for j
    using hole that by (simp add: heap_hole_def)
  have h2: "\<not> cmp (xs ! p) (xs ! j)" if "j < length xs" "0 < j" "(j - 1) div 2 = i" for j
    using hole that i by (simp add: heap_hole_def p_def)
  have up: "\<not> cmp (xs ! i) (xs ! p)"
    using less by (simp add: asym p_def)
  have "\<not> cmp (ys ! ((j - 1) div 2)) (ys ! j)" if j: "j < length xs" "0 < j" "j \<noteq> p" for j
  proof -
    have pj: "(j - 1) div 2 < length xs" using j parent_less [of j] by simp
    consider "j = i" | "j \<noteq> i" "(j - 1) div 2 = p" | "j \<noteq> i" "(j - 1) div 2 = i"
      | "j \<noteq> i" "(j - 1) div 2 \<noteq> p" "(j - 1) div 2 \<noteq> i" by blast
    then show ?thesis
    proof cases
      case 1
      then have "(j - 1) div 2 = p" by (simp add: p_def)
      with 1 show ?thesis using up p i by (simp add: nth)
    next
      case 2
      then have "\<not> cmp (xs ! p) (xs ! j)" using h1 [of j] j by simp
      with up have "\<not> cmp (xs ! i) (xs ! j)" by (rule neg_trans)
      then show ?thesis using 2 j p by (simp add: nth)
    next
      case 3
      then show ?thesis using h2 [of j] j i p by (simp add: nth)
    next
      case 4
      then show ?thesis using h1 [of j] j pj by (simp add: nth)
    qed
  qed
  moreover have "\<not> cmp (ys ! ((p - 1) div 2)) (ys ! j)"
    if j: "j < length xs" "0 < j" "(j - 1) div 2 = p" "0 < p" for j
  proof -
    have g: "(p - 1) div 2 < p" using parent_less [of p] j by simp
    have top: "\<not> cmp (xs ! ((p - 1) div 2)) (xs ! p)" using h1 [of p] p j by simp
    have "j \<noteq> p" using j parent_less [of j] by auto
    moreover have "\<not> cmp (xs ! p) (xs ! j)" if "j \<noteq> i" using h1 [of j] j that by simp
    ultimately show ?thesis
      using top neg_trans [OF top] g p i j by (auto simp: nth)
  qed
  moreover have "length ys = length xs" by (simp add: ys_def)
  ultimately have "heap_hole cmp p ys" by (simp add: heap_hole_def)
  then show ?thesis by (simp add: p_def ys_def)
qed

lemma is_heap_sift_up: "i < length xs \<Longrightarrow> heap_hole cmp i xs \<Longrightarrow> is_heap cmp (sift_up cmp i xs)"
proof (induction i arbitrary: xs rule: less_induct)
  case (less i)
  let ?p = "(i - 1) div 2"
  show ?case
  proof (cases "0 < i \<and> cmp (xs ! ?p) (xs ! i)")
    case True
    then have "heap_hole cmp ?p (xs[i := xs ! ?p, ?p := xs ! i])"
      using less.prems heap_hole_swap by blast
    then have "is_heap cmp (sift_up cmp ?p (xs[i := xs ! ?p, ?p := xs ! i]))"
      using True less.prems parent_less [of i] by (intro less.IH) simp_all
    with True show ?thesis by (simp add: sift_up.simps [of cmp i xs] Let_def)
  next
    case False
    with less.prems have "is_heap cmp xs"
      by (auto simp: heap_hole_def is_heap_def)
    with False show ?thesis by (auto simp: sift_up.simps [of cmp i xs] Let_def)
  qed
qed

lemma heap_below_swap:
  assumes below: "heap_below cmp i xs" and c: "c = 2 * i + 1 \<or> c = 2 * i + 2" "c < length xs"
    and less: "cmp (xs ! i) (xs ! c)"
    and sib: "\<And>j. j < length xs \<Longrightarrow> 0 < j \<Longrightarrow> (j - 1) div 2 = i \<Longrightarrow> \<not> cmp (xs ! c) (xs ! j)"
  shows "heap_below cmp c (xs[i := xs ! c, c := xs ! i])"
proof -
  define ys where "ys = xs[i := xs ! c, c := xs ! i]"
  have ic: "i < c" "i < length xs" "(c - 1) div 2 = i" using c by auto
  have nth: "j < length xs \<Longrightarrow> ys ! j = (if j = c then xs ! i else if j = i then xs ! c else xs ! j)" for j
    using ic by (simp add: ys_def nth_list_update)
  have b1: "\<not> cmp (xs ! ((j - 1) div 2)) (xs ! j)" if "j < length xs" "0 < j" "(j - 1) div 2 \<noteq> i" for j
    using below that by (simp add: heap_below_def)
  have b2: "\<not> cmp (xs ! ((i - 1) div 2)) (xs ! j)"
    if "j < length xs" "0 < j" "(j - 1) div 2 = i" "0 < i" for j
    using below that by (simp add: heap_below_def)
  have up: "\<not> cmp (xs ! c) (xs ! i)" using less by (rule asym)
  have "\<not> cmp (ys ! ((j - 1) div 2)) (ys ! j)" if j: "j < length xs" "0 < j" "(j - 1) div 2 \<noteq> c" for j
  proof -
    have pj: "(j - 1) div 2 < j" "(j - 1) div 2 < length xs" using j parent_less [of j] by simp_all
    consider "j = c" | "j \<noteq> c" "(j - 1) div 2 = i" | "j = i" | "j \<noteq> c" "j \<noteq> i" "(j - 1) div 2 \<noteq> i"
      by blast
    then show ?thesis
    proof cases
      case 1
      then show ?thesis using up ic c by (simp add: nth)
    next
      case 2
      then have "j \<noteq> i" using pj by auto
      then show ?thesis using 2 sib [of j] j ic by (simp add: nth)
    next
      case 3
      have "(j - 1) div 2 \<noteq> i" using 3 pj by simp
      then show ?thesis using 3 b2 [of c] j ic c pj by (simp add: nth)
    next
      case 4
      then show ?thesis using b1 [of j] j pj by (simp add: nth)
    qed
  qed
  moreover have "\<not> cmp (ys ! ((c - 1) div 2)) (ys ! j)"
    if j: "j < length xs" "0 < j" "(j - 1) div 2 = c" for j
  proof -
    have "c < j" using parent_less [of j] j by auto
    moreover have "\<not> cmp (xs ! c) (xs ! j)" using b1 [of j] j ic by simp
    ultimately show ?thesis using ic j by (simp add: nth)
  qed
  moreover have "length ys = length xs" by (simp add: ys_def)
  ultimately have "heap_below cmp c ys" by (simp add: heap_below_def)
  then show ?thesis by (simp add: ys_def)
qed

lemma heap_below_done:
  assumes "heap_below cmp i xs"
    and "\<And>j. j < length xs \<Longrightarrow> 0 < j \<Longrightarrow> (j - 1) div 2 = i \<Longrightarrow> \<not> cmp (xs ! i) (xs ! j)"
  shows "is_heap cmp xs"
  using assms by (auto simp: heap_below_def is_heap_def)

lemma is_heap_sift_down: "heap_below cmp i xs \<Longrightarrow> is_heap cmp (sift_down cmp i xs)"
proof (induction "length xs - i" arbitrary: i xs rule: less_induct)
  case less
  define c where "c = (if 2 * i + 2 < length xs \<and> cmp (xs ! (2 * i + 1)) (xs ! (2 * i + 2))
    then 2 * i + 2 else 2 * i + 1)"
  have c: "c = 2 * i + 1 \<or> c = 2 * i + 2" by (simp add: c_def)
  have sib: "\<not> cmp (xs ! c) (xs ! j)" if "j < length xs" "0 < j" "(j - 1) div 2 = i" for j
  proof -
    have "j = 2 * i + 1 \<or> j = 2 * i + 2" using that parent_iff by blast
    then show ?thesis using that irrefl asym by (auto simp: c_def)
  qed
  have unfold: "sift_down cmp i xs =
      (if 2 * i + 1 < length xs \<and> cmp (xs ! i) (xs ! c)
       then sift_down cmp c (xs[i := xs ! c, c := xs ! i]) else xs)"
    by (subst sift_down.simps) (simp only: Let_def c_def if_bool_eq_conj, simp)
  show ?case
  proof (cases "2 * i + 1 < length xs \<and> cmp (xs ! i) (xs ! c)")
    case True
    then have "c < length xs" by (auto simp: c_def)
    with True have "is_heap cmp (sift_down cmp c (xs[i := xs ! c, c := xs ! i]))"
      using less.prems c sib by (intro less.hyps heap_below_swap) auto
    with True show ?thesis by (simp only: unfold if_True simp_thms)
  next
    case False
    have "is_heap cmp xs"
    proof (rule heap_below_done [OF less.prems])
      fix j assume j: "j < length xs" "0 < j" "(j - 1) div 2 = i"
      then have "2 * i + 1 < length xs" by (auto simp: parent_iff)
      with False have "\<not> cmp (xs ! i) (xs ! c)" by simp
      then show "\<not> cmp (xs ! i) (xs ! j)" using sib [OF j] by (rule neg_trans)
    qed
    with False show ?thesis by (simp only: unfold if_False simp_thms)
  qed
qed

text \<open>The contract of the container, over the multiset of its elements.\<close>

lemma is_heap_Nil: "is_heap cmp []"
  by (simp add: is_heap_def)

lemma is_heap_push:
  assumes "is_heap cmp q"
  shows "is_heap cmp (pq_push cmp x q)"
proof -
  have par: "(j - 1) div 2 < length q" if "j < Suc (length q)" "0 < j" for j
    using that parent_less [of j] by simp
  have "heap_hole cmp (length q) (q @ [x])"
    unfolding heap_hole_def using assms par
    by (auto simp: is_heap_def nth_append less_Suc_eq dest: less_imp_neq)
  then show ?thesis by (simp add: pq_push_def is_heap_sift_up)
qed

lemma is_heap_pop:
  assumes "is_heap cmp q"
  shows "is_heap cmp (pq_pop cmp q)"
proof (cases "q = []")
  case False
  have "heap_below cmp 0 (butlast (q[0 := last q]))"
    using assms by (auto simp: heap_below_def is_heap_def nth_butlast nth_list_update)
  with False show ?thesis by (simp add: pq_pop_def is_heap_sift_down)
qed (simp add: is_heap_Nil)

lemma top_maximal_nth: "is_heap cmp q \<Longrightarrow> j < length q \<Longrightarrow> \<not> cmp (q ! 0) (q ! j)"
proof (induction j rule: less_induct)
  case (less j)
  show ?case
  proof (cases "j = 0")
    case False
    have "\<not> cmp (q ! 0) (q ! ((j - 1) div 2))"
      using False less.prems parent_less [of j] by (intro less.IH) simp_all
    moreover have "\<not> cmp (q ! ((j - 1) div 2)) (q ! j)"
      using False less.prems by (simp add: is_heap_def)
    ultimately show ?thesis by (rule neg_trans)
  qed (simp add: irrefl)
qed

lemma top_maximal: "is_heap cmp q \<Longrightarrow> pq_top q = Some x \<Longrightarrow> y \<in> set q \<Longrightarrow> \<not> cmp x y"
  using top_maximal_nth by (auto dest!: pq_top_SomeD simp: in_set_conv_nth)

lemma mset_top_pop: "pq_top q = Some x \<Longrightarrow> mset q = add_mset x (mset (pq_pop cmp q))"
  by (auto dest!: pq_top_SomeD simp: mset_pq_pop)

lemma is_heap_pop_while: "is_heap cmp q \<Longrightarrow> is_heap cmp (pop_while cmp P q)"
proof (induction "length q" arbitrary: q rule: less_induct)
  case less
  then show ?case
    by (auto simp: pop_while.simps [of cmp P q] is_heap_pop dest: pq_top_SomeD split: option.split)
qed

text \<open>
  Popping while a condition holds removes exactly the elements that satisfy it, when the
  condition is inherited by every element of at least the same priority.
\<close>

lemma mset_pop_while:
  assumes "is_heap cmp q"
    and "\<And>x y. x \<in> set q \<Longrightarrow> y \<in> set q \<Longrightarrow> P y \<Longrightarrow> \<not> cmp x y \<Longrightarrow> P x"
  shows "mset (pop_while cmp P q) = filter_mset (\<lambda>x. \<not> P x) (mset q)"
  using assms
proof (induction "length q" arbitrary: q rule: less_induct)
  case less
  show ?case
  proof (cases "pq_top q")
    case (Some x)
    note top = top_maximal [OF less.prems(1) Some] and split = mset_top_pop [OF Some]
    have x: "x \<in> set q" "q \<noteq> []" using Some by (auto dest: pq_top_SomeD)
    show ?thesis
    proof (cases "P x")
      case True
      have "mset (pop_while cmp P (pq_pop cmp q)) = filter_mset (\<lambda>x. \<not> P x) (mset (pq_pop cmp q))"
        using less.prems x set_pq_pop_subset [of cmp q]
        by (intro less.hyps is_heap_pop) auto
      then show ?thesis
        using True Some split by (simp add: pop_while.simps [of cmp P q])
    next
      case False
      then have "\<forall>y \<in> set q. \<not> P y" using less.prems(2) x top by blast
      then have "filter_mset (\<lambda>x. \<not> P x) (mset q) = mset q"
        by (simp add: filter_mset_eq_conv)
      then show ?thesis using False Some by (simp add: pop_while.simps [of cmp P q])
    qed
  qed simp
qed

lemma pop_while_top:
  "is_heap cmp q \<Longrightarrow> pq_top (pop_while cmp P q) = Some x \<Longrightarrow> \<not> P x"
proof (induction "length q" arbitrary: q rule: less_induct)
  case less
  then show ?case
    by (fastforce simp: pop_while.simps [of cmp P q] is_heap_pop dest: pq_top_SomeD
        split: option.splits if_splits)
qed

end

end
