(* ===== verification/SyncMessage.thy ===== *)
theory SyncMessage
  imports SyncPrelude
begin

text \<open>
  The wire messages: \<^verbatim>\<open>utilities/Common.h\<close> (packet types and sync states), the message of
  \<^verbatim>\<open>protocol/proto/BlockSync.proto\<close>, its wrapper classes under \<^verbatim>\<open>protocol/PB\<close>, and the factory
  \<^verbatim>\<open>BlockSyncMsgFactoryImpl\<close>. Class inheritance is record extension, so the setters of
  \<^verbatim>\<open>BlockSyncMsgImpl\<close> apply to the derived classes. The protobuf serialiser is generated
  code: it is the pair of parameters \<open>encodePB\<close>, \<open>decodePB\<close> (\<open>None\<close>: the input does not
  parse and \<^verbatim>\<open>decodePBObject\<close> throws); what the code relies on, that decoding an encoded
  message gives the message back, is a hypothesis of the round-trip properties.
\<close>

section \<open>Packet types and sync states (Common.h)\<close>

datatype BlockSyncPacketType = BlockStatusPacket | BlockRequestPacket | BlockResponsePacket

fun packetCode :: "BlockSyncPacketType \<Rightarrow> int" where
  "packetCode BlockStatusPacket = 0"
| "packetCode BlockRequestPacket = 1"
| "packetCode BlockResponsePacket = 2"

datatype SyncState = Idle | Downloading

section \<open>The protobuf message and BlockSyncMsgImpl\<close>

record BlockSyncMessage =
  pb_version :: int
  pb_packetType :: int
  pb_number :: BlockNumber
  pb_hash :: bytes
  pb_genesisHash :: bytes
  pb_size :: int
  pb_blocksData :: "bytes list"

text \<open>proto3 defaults: a fresh message has zero numbers and empty byte strings.\<close>

definition emptyMessage :: BlockSyncMessage where
  "emptyMessage = \<lparr>pb_version = 0, pb_packetType = 0, pb_number = 0, pb_hash = [],
     pb_genesisHash = [], pb_size = 0, pb_blocksData = []\<rparr>"

record BlockSyncMsgImpl =
  m_syncMessage :: BlockSyncMessage

definition newBlockSyncMsg :: BlockSyncMsgImpl where
  "newBlockSyncMsg = \<lparr>m_syncMessage = emptyMessage\<rparr>"

definition msg_encode :: "(BlockSyncMessage \<Rightarrow> bytes) \<Rightarrow> 'z BlockSyncMsgImpl_scheme \<Rightarrow> bytes" where
  "msg_encode encodePB m = encodePB (m_syncMessage m)"

definition msg_decode ::
  "(bytes \<Rightarrow> BlockSyncMessage option) \<Rightarrow> bytes \<Rightarrow> 'z BlockSyncMsgImpl_scheme \<Rightarrow>
   'z BlockSyncMsgImpl_scheme option" where
  "msg_decode decodePB data m = map_option (\<lambda>pb. m\<lparr>m_syncMessage := pb\<rparr>) (decodePB data)"

definition msg_version :: "'z BlockSyncMsgImpl_scheme \<Rightarrow> int" where
  "msg_version m = pb_version (m_syncMessage m)"

definition msg_number :: "'z BlockSyncMsgImpl_scheme \<Rightarrow> BlockNumber" where
  "msg_number m = pb_number (m_syncMessage m)"

definition msg_packetType :: "'z BlockSyncMsgImpl_scheme \<Rightarrow> int" where
  "msg_packetType m = pb_packetType (m_syncMessage m)"

definition setVersion :: "int \<Rightarrow> 'z BlockSyncMsgImpl_scheme \<Rightarrow> 'z BlockSyncMsgImpl_scheme" where
  "setVersion v m = m\<lparr>m_syncMessage := (m_syncMessage m)\<lparr>pb_version := v\<rparr>\<rparr>"

definition setNumber :: "BlockNumber \<Rightarrow> 'z BlockSyncMsgImpl_scheme \<Rightarrow> 'z BlockSyncMsgImpl_scheme" where
  "setNumber n m = m\<lparr>m_syncMessage := (m_syncMessage m)\<lparr>pb_number := n\<rparr>\<rparr>"

definition setPacketType :: "int \<Rightarrow> 'z BlockSyncMsgImpl_scheme \<Rightarrow> 'z BlockSyncMsgImpl_scheme" where
  "setPacketType t m = m\<lparr>m_syncMessage := (m_syncMessage m)\<lparr>pb_packetType := t\<rparr>\<rparr>"

section \<open>BlockSyncStatusImpl\<close>

record BlockSyncStatusImpl = BlockSyncMsgImpl +
  m_hash :: HashType
  m_genesisHash :: HashType

text \<open>A field shorter than a hash is ignored, a longer one is cut.\<close>

definition deserializeObject :: "BlockSyncStatusImpl \<Rightarrow> BlockSyncStatusImpl" where
  "deserializeObject st =
     (let hashData = pb_hash (m_syncMessage st);
          st1 = (if HashType_size \<le> length hashData
                 then st\<lparr>m_hash := take HashType_size hashData\<rparr> else st);
          genesisHashData = pb_genesisHash (m_syncMessage st1)
      in if HashType_size \<le> length genesisHashData
         then st1\<lparr>m_genesisHash := take HashType_size genesisHashData\<rparr> else st1)"

definition status_decode ::
  "(bytes \<Rightarrow> BlockSyncMessage option) \<Rightarrow> bytes \<Rightarrow> BlockSyncStatusImpl \<Rightarrow> BlockSyncStatusImpl option" where
  "status_decode decodePB data st = map_option deserializeObject (msg_decode decodePB data st)"

definition status_setHash :: "HashType \<Rightarrow> BlockSyncStatusImpl \<Rightarrow> BlockSyncStatusImpl" where
  "status_setHash h st =
     (let st1 = st\<lparr>m_hash := h\<rparr> in st1\<lparr>m_syncMessage := (m_syncMessage st1)\<lparr>pb_hash := h\<rparr>\<rparr>)"

definition status_setGenesisHash :: "HashType \<Rightarrow> BlockSyncStatusImpl \<Rightarrow> BlockSyncStatusImpl" where
  "status_setGenesisHash h st =
     (let st1 = st\<lparr>m_genesisHash := h\<rparr>
      in st1\<lparr>m_syncMessage := (m_syncMessage st1)\<lparr>pb_genesisHash := h\<rparr>\<rparr>)"

definition newBlockSyncStatus :: BlockSyncStatusImpl where
  "newBlockSyncStatus = setPacketType (packetCode BlockStatusPacket)
     \<lparr>m_syncMessage = emptyMessage, m_hash = zeroHash, m_genesisHash = zeroHash\<rparr>"

text \<open>
  The constructor from a decoded message sets the packet type on its own fresh message
  first and then shares the message it was given, whose packet type stays.
\<close>

definition statusOfMsg :: "BlockSyncMsgImpl \<Rightarrow> BlockSyncStatusImpl" where
  "statusOfMsg msg = deserializeObject (newBlockSyncStatus\<lparr>m_syncMessage := m_syncMessage msg\<rparr>)"

definition statusOfData ::
  "(bytes \<Rightarrow> BlockSyncMessage option) \<Rightarrow> bytes \<Rightarrow> BlockSyncStatusImpl option" where
  "statusOfData decodePB data = status_decode decodePB data newBlockSyncStatus"

section \<open>BlockRequestImpl\<close>

text \<open>The protobuf field is an \<^verbatim>\<open>int64\<close>, the accessors use \<^verbatim>\<open>size_t\<close>.\<close>

definition newBlockRequest :: BlockSyncMsgImpl where
  "newBlockRequest = setPacketType (packetCode BlockRequestPacket) newBlockSyncMsg"

definition requestOfPB :: "BlockSyncMessage \<Rightarrow> BlockSyncMsgImpl" where
  "requestOfPB pb = (setPacketType (packetCode BlockRequestPacket) newBlockSyncMsg)\<lparr>m_syncMessage := pb\<rparr>"

definition requestOfMsg :: "BlockSyncMsgImpl \<Rightarrow> BlockSyncMsgImpl" where
  "requestOfMsg msg = requestOfPB (m_syncMessage msg)"

definition requestOfData ::
  "(bytes \<Rightarrow> BlockSyncMessage option) \<Rightarrow> bytes \<Rightarrow> BlockSyncMsgImpl option" where
  "requestOfData decodePB data = msg_decode decodePB data newBlockRequest"

definition request_size :: "BlockSyncMsgImpl \<Rightarrow> size_t" where
  "request_size m = to_size (pb_size (m_syncMessage m))"

definition request_setSize :: "size_t \<Rightarrow> BlockSyncMsgImpl \<Rightarrow> BlockSyncMsgImpl" where
  "request_setSize s m = m\<lparr>m_syncMessage := (m_syncMessage m)\<lparr>pb_size := to_number s\<rparr>\<rparr>"

section \<open>BlocksMsgImpl\<close>

definition newBlocksMsg :: BlockSyncMsgImpl where
  "newBlocksMsg = setPacketType (packetCode BlockResponsePacket) newBlockSyncMsg"

definition blocksOfPB :: "BlockSyncMessage \<Rightarrow> BlockSyncMsgImpl" where
  "blocksOfPB pb = (setPacketType (packetCode BlockResponsePacket) newBlockSyncMsg)\<lparr>m_syncMessage := pb\<rparr>"

definition blocksOfMsg :: "BlockSyncMsgImpl \<Rightarrow> BlockSyncMsgImpl" where
  "blocksOfMsg msg = blocksOfPB (m_syncMessage msg)"

definition blocksOfData ::
  "(bytes \<Rightarrow> BlockSyncMessage option) \<Rightarrow> bytes \<Rightarrow> BlockSyncMsgImpl option" where
  "blocksOfData decodePB data = msg_decode decodePB data newBlocksMsg"

definition blocksSize :: "BlockSyncMsgImpl \<Rightarrow> nat" where
  "blocksSize m = length (pb_blocksData (m_syncMessage m))"

definition blockData :: "BlockSyncMsgImpl \<Rightarrow> nat \<Rightarrow> bytes option" where
  "blockData m i = (if i < blocksSize m then Some (pb_blocksData (m_syncMessage m) ! i) else None)"

definition appendBlockData :: "bytes \<Rightarrow> BlockSyncMsgImpl \<Rightarrow> BlockSyncMsgImpl" where
  "appendBlockData data m =
     (let index = blocksSize m;
          added = pb_blocksData (m_syncMessage m) @ [[]]
      in m\<lparr>m_syncMessage := (m_syncMessage m)\<lparr>pb_blocksData := added[index := data]\<rparr>\<rparr>)"

section \<open>The factory\<close>

text \<open>
  Each kind of message has three overloads in \<^verbatim>\<open>BlockSyncMsgFactoryImpl\<close>: a fresh message, one
  decoded from bytes, and one around an already decoded generic message.
\<close>

definition createBlockSyncMsg ::
  "(bytes \<Rightarrow> BlockSyncMessage option) \<Rightarrow> bytes \<Rightarrow> BlockSyncMsgImpl option" where
  "createBlockSyncMsg decodePB data = msg_decode decodePB data newBlockSyncMsg"

definition createStatus :: BlockSyncStatusImpl where
  "createStatus = newBlockSyncStatus"

definition createStatusOfData ::
  "(bytes \<Rightarrow> BlockSyncMessage option) \<Rightarrow> bytes \<Rightarrow> BlockSyncStatusImpl option" where
  "createStatusOfData decodePB data = statusOfData decodePB data"

definition createStatusOfMsg :: "BlockSyncMsgImpl \<Rightarrow> BlockSyncStatusImpl" where
  "createStatusOfMsg msg = statusOfMsg msg"

definition createBlocks :: BlockSyncMsgImpl where
  "createBlocks = newBlocksMsg"

definition createBlocksOfData ::
  "(bytes \<Rightarrow> BlockSyncMessage option) \<Rightarrow> bytes \<Rightarrow> BlockSyncMsgImpl option" where
  "createBlocksOfData decodePB data = blocksOfData decodePB data"

definition createBlocksOfMsg :: "BlockSyncMsgImpl \<Rightarrow> BlockSyncMsgImpl" where
  "createBlocksOfMsg msg = blocksOfMsg msg"

definition createRequest :: BlockSyncMsgImpl where
  "createRequest = newBlockRequest"

definition createRequestOfData ::
  "(bytes \<Rightarrow> BlockSyncMessage option) \<Rightarrow> bytes \<Rightarrow> BlockSyncMsgImpl option" where
  "createRequestOfData decodePB data = requestOfData decodePB data"

definition createRequestOfMsg :: "BlockSyncMsgImpl \<Rightarrow> BlockSyncMsgImpl" where
  "createRequestOfMsg msg = requestOfMsg msg"

lemmas factory_defs [simp, sync_defs] =
  createStatus_def createStatusOfData_def createStatusOfMsg_def createBlocks_def createBlocksOfData_def
  createBlocksOfMsg_def createRequest_def createRequestOfData_def createRequestOfMsg_def

definition createBlockSyncStatusMsg ::
  "BlockNumber \<Rightarrow> HashType \<Rightarrow> HashType \<Rightarrow> int \<Rightarrow> BlockSyncStatusImpl" where
  "createBlockSyncStatusMsg number hash genesisHash version =
     (let statusMsg = createStatus;
          statusMsg = setVersion version statusMsg;
          statusMsg = setNumber number statusMsg;
          statusMsg = status_setHash hash statusMsg;
          statusMsg = status_setGenesisHash genesisHash statusMsg
      in statusMsg)"

lemmas message_defs [sync_defs] =
  newBlockSyncMsg_def msg_encode_def msg_decode_def msg_version_def msg_number_def
  msg_packetType_def setVersion_def setNumber_def setPacketType_def deserializeObject_def
  status_decode_def status_setHash_def status_setGenesisHash_def newBlockSyncStatus_def
  statusOfMsg_def statusOfData_def newBlockRequest_def requestOfPB_def requestOfMsg_def requestOfData_def
  request_size_def request_setSize_def newBlocksMsg_def blocksOfPB_def blocksOfMsg_def blocksOfData_def
  createBlockSyncMsg_def createBlockSyncStatusMsg_def

section \<open>Properties\<close>

lemma length_zeroHash [simp]: "length zeroHash = HashType_size"
  by (simp add: zeroHash_def)

lemma appendBlockData_snoc:
  "appendBlockData data m =
     m\<lparr>m_syncMessage := (m_syncMessage m)\<lparr>pb_blocksData := pb_blocksData (m_syncMessage m) @ [data]\<rparr>\<rparr>"
  by (simp add: appendBlockData_def blocksSize_def)

lemma fold_appendBlockData:
  "fold appendBlockData ds m =
     m\<lparr>m_syncMessage := (m_syncMessage m)\<lparr>pb_blocksData := pb_blocksData (m_syncMessage m) @ ds\<rparr>\<rparr>"
  by (induction ds arbitrary: m) (simp_all add: appendBlockData_snoc)

lemma createBlockSyncStatusMsg_eq:
  "createBlockSyncStatusMsg n h g v =
     \<lparr>m_syncMessage = \<lparr>pb_version = v, pb_packetType = 0, pb_number = n, pb_hash = h,
        pb_genesisHash = g, pb_size = 0, pb_blocksData = []\<rparr>,
      m_hash = h, m_genesisHash = g\<rparr>"
  by (simp add: message_defs emptyMessage_def)

text \<open>
  A status packet survives the wire. When the serialiser gives back the message it was
  given, decoding an encoded status message yields a packet of type
  \<^verbatim>\<open>BlockStatusPacket\<close>, and the status object built from it is the one that was sent:
  number, version, both hashes.
\<close>

lemma status_roundtrip:
  assumes st: "st = createBlockSyncStatusMsg number hash genesisHash version"
    and pb: "decodePB (encodePB (m_syncMessage st)) = Some (m_syncMessage st)"
    and len: "length hash = HashType_size" "length genesisHash = HashType_size"
  shows "\<exists>msg. createBlockSyncMsg decodePB (msg_encode encodePB st) = Some msg \<and>
     msg_packetType msg = packetCode BlockStatusPacket \<and> statusOfMsg msg = st \<and>
     msg_number st = number \<and> m_hash st = hash \<and> m_genesisHash st = genesisHash"
  using pb len unfolding st createBlockSyncStatusMsg_eq
  by (simp add: message_defs)

text \<open>
  A block request survives the wire: the receiver reads the requested first block and the
  requested count, for every \<^verbatim>\<open>size_t\<close> although the field on the wire is signed.
\<close>

lemma request_roundtrip:
  assumes req: "req = request_setSize sz (setNumber from newBlockRequest)"
    and pb: "decodePB (encodePB (m_syncMessage req)) = Some (m_syncMessage req)"
  shows "\<exists>msg. createBlockSyncMsg decodePB (msg_encode encodePB req) = Some msg \<and>
     msg_packetType msg = packetCode BlockRequestPacket \<and>
     msg_number (requestOfMsg msg) = from \<and> request_size (requestOfMsg msg) = sz"
  using pb unfolding req
  by (simp add: message_defs)

text \<open>
  A response packet survives the wire: the receiver sees as many blocks as were
  appended, each at its index with its bytes, and nothing past the end.
\<close>

lemma blocks_roundtrip:
  assumes resp: "resp = setNumber number (fold appendBlockData blocks newBlocksMsg)"
    and pb: "decodePB (encodePB (m_syncMessage resp)) = Some (m_syncMessage resp)"
  shows "\<exists>msg. createBlockSyncMsg decodePB (msg_encode encodePB resp) = Some msg \<and>
     msg_packetType msg = packetCode BlockResponsePacket \<and> msg_number msg = number \<and>
     blocksSize (blocksOfMsg msg) = length blocks \<and>
     (\<forall>i. blockData (blocksOfMsg msg) i = (if i < length blocks then Some (blocks ! i) else None))"
  using pb unfolding resp fold_appendBlockData
  by (simp add: message_defs blocksSize_def blockData_def emptyMessage_def)

text \<open>
  The two ways to build a message object from received bytes agree, errors included:
  decoding a status, a request or a response directly gives what the dispatcher gets by
  decoding a generic message first and wrapping it. Whatever bytes a peer puts into the
  hash fields, the status object holds two well-formed hashes: a field with at least 32
  bytes gives its first 32, a shorter one the zero hash.
\<close>

lemma factory_overloads_agree:
  "createStatusOfData decodePB data = map_option createStatusOfMsg (createBlockSyncMsg decodePB data) \<and>
   createRequestOfData decodePB data = map_option createRequestOfMsg (createBlockSyncMsg decodePB data) \<and>
   createBlocksOfData decodePB data = map_option createBlocksOfMsg (createBlockSyncMsg decodePB data) \<and>
   m_hash (createStatusOfMsg msg) =
     (if HashType_size \<le> length (pb_hash (m_syncMessage msg))
      then take HashType_size (pb_hash (m_syncMessage msg)) else zeroHash) \<and>
   m_genesisHash (createStatusOfMsg msg) =
     (if HashType_size \<le> length (pb_genesisHash (m_syncMessage msg))
      then take HashType_size (pb_genesisHash (m_syncMessage msg)) else zeroHash) \<and>
   length (m_hash (createStatusOfMsg msg)) = HashType_size \<and>
   length (m_genesisHash (createStatusOfMsg msg)) = HashType_size"
  by (cases "decodePB data") (simp_all add: message_defs)

end
