(* ===== verification/SyncFramework.thy ===== *)
theory SyncFramework
  imports SyncMessage
begin

text \<open>
  What the sources use of \<^verbatim>\<open>bcos-framework\<close>, which is not part of the repository. Plain data
  (blocks, ledger configurations) are records of what the code reads from them. Code is a
  parameter: the record \<open>Framework\<close> collects the functions, and every definition that uses
  one takes the record as its first argument. The state of the base class \<^verbatim>\<open>SyncConfig\<close> (node
  lists, connections) is the type variable \<open>'sc\<close>, only touched through those functions.

  The asynchronous services (ledger, scheduler, consensus, front service) appear as the
  calls the code makes on them: \<open>call\<close> has one constructor per service method, with what the
  callback closure captures. A callback is modelled where it is passed, as the
  operation to run when the service answers; the answer is its argument.
\<close>

section \<open>Blocks and ledger configurations\<close>

record BlockHeader =
  bh_number :: BlockNumber
  bh_hash :: HashType
  bh_sealer :: int

record Transaction =
  tx_encoded :: bytes
  tx_hash :: HashType

record Block =
  blockHeader :: BlockHeader
  transactions :: "Transaction list"

abbreviation block_number :: "Block \<Rightarrow> BlockNumber" where
  "block_number b \<equiv> bh_number (blockHeader b)"

abbreviation transactionsSize :: "Block \<Rightarrow> nat" where
  "transactionsSize b \<equiv> length (transactions b)"

record LedgerConfig =
  lc_blockNumber :: BlockNumber
  lc_hash :: HashType
  lc_consensusNodeList :: "NodeIDPtr list"
  lc_observerNodeList :: "NodeIDPtr list"
  lc_txsSize :: nat
  lc_sealerId :: int

section \<open>Functions of the framework\<close>

record 'sc Framework =
  fw_nodeID :: "'sc \<Rightarrow> NodeIDPtr"
  fw_setConsensusNodeList :: "NodeIDPtr list \<Rightarrow> 'sc \<Rightarrow> 'sc"
  fw_setObserverList :: "NodeIDPtr list \<Rightarrow> 'sc \<Rightarrow> 'sc"
  fw_setConnectedNodeList :: "NodeIDPtr list \<Rightarrow> 'sc \<Rightarrow> 'sc"
  fw_notifyConnectedNodes :: "NodeIDPtr list \<Rightarrow> 'sc \<Rightarrow> 'sc"
  fw_selfInGroup :: "'sc \<Rightarrow> bool"
  fw_existsInGroup :: "'sc \<Rightarrow> NodeIDPtr \<Rightarrow> bool"
  fw_connected :: "'sc \<Rightarrow> NodeIDPtr \<Rightarrow> bool"
  fw_groupNodeList :: "'sc \<Rightarrow> NodeIDPtr list"
  fw_encodePB :: "BlockSyncMessage \<Rightarrow> bytes"
  fw_decodePB :: "bytes \<Rightarrow> BlockSyncMessage option"
  fw_createBlock :: "bytes \<Rightarrow> Block option"
  fw_encodeBlock :: "Block \<Rightarrow> bytes"

section \<open>Calls on the services\<close>

text \<open>
  \<open>GetBlockData q peer n\<close>: the ledger is asked for block \<open>n\<close>; the callback holds the request
  queue at address \<open>q\<close> and the peer to answer. \<open>StoreTransactions\<close> and
  \<open>CommitBlock\<close> carry the block their callbacks hold. The last seven are the calls on the
  worker thread, the two thread pools and the timer when the module starts and stops.
\<close>

datatype call =
  ExecuteBlock Block
| CheckBlock Block
| StoreTransactions "bytes list" "HashType list" Block
| CommitBlock Block
| ConsensusNewBlock LedgerConfig
| NotifyHighestSyncingNumber BlockNumber
| SendMessage NodeIDPtr bytes
| GetBlockData nat NodeIDPtr BlockNumber
| GetNodeIDs
| StartWorking
| StopDownloadProcessor
| StopSendProcessor
| DestroyTimer
| FinishWorker
| StopWorking
| TerminateWorker

text \<open>The answer of a service: an error or a value.\<close>

datatype error = ServiceError int

type_synonym 'a answer = "error + 'a"

end
