(* ===== verification/SyncDemo.thy ===== *)
theory SyncDemo
  imports SyncFramework "HOL-Library.Monad_Syntax"
begin

text \<open>
  A concrete instance of the framework, on which the properties are exercised: node
  lists as in a small test network, and simple byte codecs that give back every message and
  every block they were given.
\<close>

record DemoSync =
  ds_nodeID :: NodeIDPtr
  ds_consensus :: "NodeIDPtr list"
  ds_observers :: "NodeIDPtr list"
  ds_connected :: "NodeIDPtr list"

definition in_keys :: "NodeIDPtr \<Rightarrow> NodeIDPtr list \<Rightarrow> bool" where
  "in_keys n ns = list_ex (\<lambda>m. np_data m = np_data n) ns"

text \<open>Numbers in unary, integers with a sign, byte strings after their length.\<close>

definition demo_nat :: "nat \<Rightarrow> bytes" where
  "demo_nat n = replicate n 1 @ [0]"

fun demo_takeNat :: "bytes \<Rightarrow> (nat \<times> bytes) option" where
  "demo_takeNat [] = None"
| "demo_takeNat (b # bs) = (if b = 0 then Some (0, bs) else map_option (\<lambda>(n, rest). (Suc n, rest)) (demo_takeNat bs))"

definition demo_int :: "int \<Rightarrow> bytes" where
  "demo_int i = (if i < 0 then 1 else 0) # demo_nat (nat \<bar>i\<bar>)"

fun demo_takeInt :: "bytes \<Rightarrow> (int \<times> bytes) option" where
  "demo_takeInt [] = None"
| "demo_takeInt (b # bs) = map_option (\<lambda>(n, rest). (if b = 0 then int n else - int n, rest)) (demo_takeNat bs)"

definition demo_field :: "bytes \<Rightarrow> bytes" where
  "demo_field bs = demo_nat (length bs) @ bs"

definition demo_take :: "bytes \<Rightarrow> (bytes \<times> bytes) option" where
  "demo_take bs =
     (case demo_takeNat bs of
        None \<Rightarrow> None
      | Some (n, rest) \<Rightarrow> if n \<le> length rest then Some (take n rest, drop n rest) else None)"

lemma demo_takeNat_shorter: "demo_takeNat bs = Some (n, rest) \<Longrightarrow> length rest < length bs"
  by (induction bs arbitrary: n rest) (fastforce split: if_splits)+

lemma demo_take_shorter: "demo_take bs = Some (x, rest) \<Longrightarrow> length rest < length bs"
  by (auto simp: demo_take_def split: option.splits if_splits dest!: demo_takeNat_shorter)

function demo_takes :: "bytes \<Rightarrow> bytes list option" where
  "demo_takes bs =
     (if bs = [] then Some []
      else case demo_take bs of
        None \<Rightarrow> None
      | Some (x, rest) \<Rightarrow> map_option ((#) x) (demo_takes rest))"
  by pat_completeness auto
termination
  by (relation "measure length") (auto dest: demo_take_shorter)

declare demo_takes.simps [simp del]

definition demo_encodePB :: "BlockSyncMessage \<Rightarrow> bytes" where
  "demo_encodePB m =
     demo_int (pb_version m) @ demo_int (pb_packetType m) @ demo_int (pb_number m) @ demo_int (pb_size m) @
     concat (map demo_field (pb_hash m # pb_genesisHash m # pb_blocksData m))"

definition demo_decodePB :: "bytes \<Rightarrow> BlockSyncMessage option" where
  "demo_decodePB bs =
     do {
       (v, bs) \<leftarrow> demo_takeInt bs;
       (t, bs) \<leftarrow> demo_takeInt bs;
       (n, bs) \<leftarrow> demo_takeInt bs;
       (s, bs) \<leftarrow> demo_takeInt bs;
       fields \<leftarrow> demo_takes bs;
       (case fields of
          h # g # blocks \<Rightarrow>
            Some \<lparr>pb_version = v, pb_packetType = t, pb_number = n, pb_hash = h, pb_genesisHash = g,
              pb_size = s, pb_blocksData = blocks\<rparr>
        | _ \<Rightarrow> None)
     }"

definition demo_encodeBlock :: "Block \<Rightarrow> bytes" where
  "demo_encodeBlock b =
     demo_int (block_number b) @ demo_int (bh_sealer (blockHeader b)) @
     concat (map demo_field (bh_hash (blockHeader b) #
       concat (map (\<lambda>tx. [tx_encoded tx, tx_hash tx]) (transactions b))))"

fun demo_txs :: "bytes list \<Rightarrow> Transaction list option" where
  "demo_txs [] = Some []"
| "demo_txs [_] = None"
| "demo_txs (e # h # rest) = map_option ((#) \<lparr>tx_encoded = e, tx_hash = h\<rparr>) (demo_txs rest)"

definition demo_createBlock :: "bytes \<Rightarrow> Block option" where
  "demo_createBlock bs =
     do {
       (n, bs) \<leftarrow> demo_takeInt bs;
       (s, bs) \<leftarrow> demo_takeInt bs;
       parts \<leftarrow> demo_takes bs;
       (case parts of
          h # txs \<Rightarrow> map_option (\<lambda>txs. \<lparr>blockHeader = \<lparr>bh_number = n, bh_hash = h, bh_sealer = s\<rparr>,
            transactions = txs\<rparr>) (demo_txs txs)
        | _ \<Rightarrow> None)
     }"

text \<open>The codecs give back what they were given.\<close>

lemma demo_takeNat_nat [simp]: "demo_takeNat (demo_nat n @ rest) = Some (n, rest)"
  by (induction n) (simp_all add: demo_nat_def)

lemma demo_takeInt_int [simp]: "demo_takeInt (demo_int i @ rest) = Some (i, rest)"
  by (simp add: demo_int_def)

lemma demo_takes_fields [simp]: "demo_takes (concat (map demo_field fs)) = Some fs"
proof (induction fs)
  case (Cons f fs)
  have "demo_take (demo_field f @ bs) = Some (f, bs)" for bs by (simp add: demo_take_def demo_field_def)
  moreover have "demo_field f \<noteq> []" by (simp add: demo_field_def demo_nat_def)
  ultimately show ?case using Cons by (simp add: demo_takes.simps [of "demo_field f @ bs" for bs])
qed (simp add: demo_takes.simps)

lemma demo_PB_roundtrip [simp]: "demo_decodePB (demo_encodePB m) = Some m"
  by (simp only: demo_decodePB_def demo_encodePB_def demo_takeInt_int demo_takes_fields Option.bind.bind_lunit
      prod.case list.case) simp

lemma demo_block_roundtrip [simp]: "demo_createBlock (demo_encodeBlock b) = Some b"
proof -
  have "demo_txs (concat (map (\<lambda>tx. [tx_encoded tx, tx_hash tx]) txs)) = Some txs" for txs
    by (induction txs) simp_all
  then show ?thesis
    by (simp only: demo_createBlock_def demo_encodeBlock_def demo_takeInt_int demo_takes_fields Option.bind.bind_lunit
        prod.case list.case) simp
qed

definition demoFramework :: "DemoSync Framework" where
  "demoFramework = \<lparr>
     fw_nodeID = ds_nodeID,
     fw_setConsensusNodeList = (\<lambda>ns s. s\<lparr>ds_consensus := ns\<rparr>),
     fw_setObserverList = (\<lambda>ns s. s\<lparr>ds_observers := ns\<rparr>),
     fw_setConnectedNodeList = (\<lambda>ns s. s\<lparr>ds_connected := ns\<rparr>),
     fw_notifyConnectedNodes = (\<lambda>ns s. s\<lparr>ds_connected := ns\<rparr>),
     fw_selfInGroup = (\<lambda>s. in_keys (ds_nodeID s) (ds_consensus s @ ds_observers s)),
     fw_existsInGroup = (\<lambda>s n. in_keys n (ds_consensus s @ ds_observers s)),
     fw_connected = (\<lambda>s n. in_keys n (ds_connected s)),
     fw_groupNodeList = (\<lambda>s. ds_consensus s @ ds_observers s),
     fw_encodePB = demo_encodePB,
     fw_decodePB = demo_decodePB,
     fw_createBlock = demo_createBlock,
     fw_encodeBlock = demo_encodeBlock\<rparr>"

definition demoNode :: "nat \<Rightarrow> NodeIDPtr" where
  "demoNode k = \<lparr>np_addr = k, np_data = k\<rparr>"

text \<open>Node 0 in a group of three nodes, all connected.\<close>

definition demoSync :: DemoSync where
  "demoSync = \<lparr>ds_nodeID = demoNode 0, ds_consensus = [demoNode 0, demoNode 1],
     ds_observers = [demoNode 2], ds_connected = [demoNode 0, demoNode 1, demoNode 2]\<rparr>"

definition demoLedgerConfig :: "BlockNumber \<Rightarrow> LedgerConfig" where
  "demoLedgerConfig n = \<lparr>lc_blockNumber = n, lc_hash = replicate 32 5,
     lc_consensusNodeList = [demoNode 0, demoNode 1], lc_observerNodeList = [demoNode 2],
     lc_txsSize = 0, lc_sealerId = 0\<rparr>"

text \<open>A block with \<open>k\<close> transactions.\<close>

definition demoBlock :: "BlockNumber \<Rightarrow> nat \<Rightarrow> Block" where
  "demoBlock n k = \<lparr>blockHeader = \<lparr>bh_number = n, bh_hash = replicate 32 (of_int n), bh_sealer = 1\<rparr>,
     transactions = replicate k \<lparr>tx_encoded = [of_int n, 7], tx_hash = replicate 32 3\<rparr>\<rparr>"

end
