(* ===== verification/BlockSyncConfig.thy ===== *)
theory BlockSyncConfig
  imports SyncDemo
begin

text \<open>
  \<^verbatim>\<open>BlockSyncConfig.h/.cpp\<close>: the configuration object that all components share. It holds
  the chain state the node knows of: its own height (\<open>c_blockNumber\<close>), the next block to
  commit, the last executed block, the greatest height a peer has announced. \<open>config_wf\<close> is
  the relation the code keeps between them from \<^verbatim>\<open>init()\<close> on, \<open>advances\<close> what every operation
  promises about its effect on the configuration: heights never fall, the limits and the
  genesis hash stay.
\<close>

record 'sc BlockSyncConfig =
  c_sync :: 'sc
  c_genesisHash :: HashType
  c_blockNumber :: BlockNumber
  c_nextBlock :: BlockNumber
  c_executedBlock :: BlockNumber
  c_hash :: HashType
  c_knownHighestNumber :: BlockNumber
  c_knownLatestHash :: HashType
  c_maxDownloadingBlockQueueSize :: size_t
  c_maxDownloadRequestQueueSize :: size_t
  c_downloadTimeout :: size_t
  c_maxRequestBlocks :: size_t
  c_maxShardPerPeer :: size_t
  c_committedProposalNumber :: BlockNumber

definition newBlockSyncConfig :: "'sc \<Rightarrow> 'sc BlockSyncConfig" where
  "newBlockSyncConfig sc =
     \<lparr>c_sync = sc, c_genesisHash = zeroHash, c_blockNumber = 0, c_nextBlock = 0,
      c_executedBlock = 0, c_hash = zeroHash, c_knownHighestNumber = 0,
      c_knownLatestHash = zeroHash, c_maxDownloadingBlockQueueSize = 256,
      c_maxDownloadRequestQueueSize = 1000, c_downloadTimeout = 200 * 256,
      c_maxRequestBlocks = 8, c_maxShardPerPeer = 2, c_committedProposalNumber = 0\<rparr>"

definition setHash :: "HashType \<Rightarrow> 'sc BlockSyncConfig \<Rightarrow> 'sc BlockSyncConfig" where
  "setHash h cfg = cfg\<lparr>c_hash := h\<rparr>"

definition setKnownHighestNumber :: "BlockNumber \<Rightarrow> 'sc BlockSyncConfig \<Rightarrow> 'sc BlockSyncConfig" where
  "setKnownHighestNumber n cfg = cfg\<lparr>c_knownHighestNumber := n\<rparr>"

definition setKnownLatestHash :: "HashType \<Rightarrow> 'sc BlockSyncConfig \<Rightarrow> 'sc BlockSyncConfig" where
  "setKnownLatestHash h cfg = cfg\<lparr>c_knownLatestHash := h\<rparr>"

definition setMaxDownloadingBlockQueueSize ::
  "size_t \<Rightarrow> 'sc BlockSyncConfig \<Rightarrow> 'sc BlockSyncConfig" where
  "setMaxDownloadingBlockQueueSize n cfg = cfg\<lparr>c_maxDownloadingBlockQueueSize := n\<rparr>"

definition setMaxDownloadRequestQueueSize ::
  "size_t \<Rightarrow> 'sc BlockSyncConfig \<Rightarrow> 'sc BlockSyncConfig" where
  "setMaxDownloadRequestQueueSize n cfg = cfg\<lparr>c_maxDownloadRequestQueueSize := n\<rparr>"

definition setCommittedProposalNumber ::
  "BlockNumber \<Rightarrow> 'sc BlockSyncConfig \<Rightarrow> 'sc BlockSyncConfig" where
  "setCommittedProposalNumber n cfg = cfg\<lparr>c_committedProposalNumber := n\<rparr>"

definition setExecutedBlock :: "BlockNumber \<Rightarrow> 'sc BlockSyncConfig \<Rightarrow> 'sc BlockSyncConfig" where
  "setExecutedBlock n cfg =
     (if c_blockNumber cfg \<le> n then cfg\<lparr>c_executedBlock := n\<rparr> else cfg)"

definition setGenesisHash :: "HashType \<Rightarrow> 'sc BlockSyncConfig \<Rightarrow> 'sc BlockSyncConfig" where
  "setGenesisHash h cfg =
     (let cfg1 = cfg\<lparr>c_genesisHash := h\<rparr>
      in if c_knownLatestHash cfg1 = zeroHash then setKnownLatestHash (c_genesisHash cfg1) cfg1
         else cfg1)"

definition resetBlockInfo ::
  "BlockNumber \<Rightarrow> HashType \<Rightarrow> 'sc BlockSyncConfig \<Rightarrow> 'sc BlockSyncConfig" where
  "resetBlockInfo n h cfg =
     (let cfg1 = setHash h (cfg\<lparr>c_blockNumber := n\<rparr>);
          cfg2 = cfg1\<lparr>c_nextBlock := i64 (c_blockNumber cfg1 + 1)\<rparr>;
          cfg3 = (if c_knownHighestNumber cfg2 < n
                  then setKnownLatestHash h (cfg2\<lparr>c_knownHighestNumber := n\<rparr>) else cfg2)
      in if c_executedBlock cfg3 < n then cfg3\<lparr>c_executedBlock := n\<rparr> else cfg3)"

text \<open>
  \<^verbatim>\<open>resetConfig\<close> tests the height, tells the consensus module, takes the lock and tests
  again.
\<close>

definition staleConfig :: "LedgerConfig \<Rightarrow> 'sc BlockSyncConfig \<Rightarrow> bool" where
  "staleConfig lc cfg \<longleftrightarrow> lc_blockNumber lc \<le> c_blockNumber cfg \<and> 0 < c_blockNumber cfg"

definition resetConfig ::
  "'sc Framework \<Rightarrow> LedgerConfig \<Rightarrow> 'sc BlockSyncConfig \<Rightarrow> 'sc BlockSyncConfig \<times> call list" where
  "resetConfig F lc cfg =
     (if staleConfig lc cfg then (cfg, [])
      else let notify = [ConsensusNewBlock lc] in
        if staleConfig lc cfg then (cfg, notify)
        else let cfg1 = resetBlockInfo (lc_blockNumber lc) (lc_hash lc) cfg;
                 cfg2 = cfg1\<lparr>c_sync := fw_setConsensusNodeList F (lc_consensusNodeList lc) (c_sync cfg1)\<rparr>;
                 cfg3 = cfg2\<lparr>c_sync := fw_setObserverList F (lc_observerNodeList lc) (c_sync cfg2)\<rparr>
             in (cfg3, notify))"

lemmas config_defs [sync_defs] =
  setHash_def setKnownHighestNumber_def setKnownLatestHash_def setMaxDownloadingBlockQueueSize_def
  setMaxDownloadRequestQueueSize_def setCommittedProposalNumber_def setExecutedBlock_def
  setGenesisHash_def resetBlockInfo_def staleConfig_def resetConfig_def

section \<open>The invariant and the contract of the operations\<close>

text \<open>Heights of a chain: from the genesis block 0 up, with room for the next one.\<close>

definition height :: "BlockNumber \<Rightarrow> bool" where
  "height n \<longleftrightarrow> 0 \<le> n \<and> n < 2 ^ 63 - 1"

definition config_wf :: "'sc BlockSyncConfig \<Rightarrow> bool" where
  "config_wf cfg \<longleftrightarrow>
     height (c_blockNumber cfg) \<and> c_nextBlock cfg = c_blockNumber cfg + 1 \<and>
     c_blockNumber cfg \<le> c_executedBlock cfg \<and> c_blockNumber cfg \<le> c_knownHighestNumber cfg"

definition advances :: "'sc BlockSyncConfig \<Rightarrow> 'sc BlockSyncConfig \<Rightarrow> bool" where
  "advances cfg cfg' \<longleftrightarrow>
     (config_wf cfg \<longrightarrow> config_wf cfg') \<and>
     c_blockNumber cfg \<le> c_blockNumber cfg' \<and>
     c_knownHighestNumber cfg \<le> c_knownHighestNumber cfg' \<and>
     c_genesisHash cfg' = c_genesisHash cfg \<and>
     c_maxDownloadingBlockQueueSize cfg' = c_maxDownloadingBlockQueueSize cfg \<and>
     c_maxDownloadRequestQueueSize cfg' = c_maxDownloadRequestQueueSize cfg \<and>
     c_maxRequestBlocks cfg' = c_maxRequestBlocks cfg \<and>
     c_maxShardPerPeer cfg' = c_maxShardPerPeer cfg"

lemma advances_refl [simp, intro]: "advances cfg cfg"
  by (simp add: advances_def)

lemma advances_trans [trans]: "advances a b \<Longrightarrow> advances b c \<Longrightarrow> advances a c"
  by (auto simp: advances_def)

lemma advances_setExecutedBlock [intro]: "advances cfg (setExecutedBlock n cfg)"
  by (auto simp: advances_def config_wf_def config_defs)

lemma advances_setCommittedProposalNumber [intro]: "advances cfg (setCommittedProposalNumber n cfg)"
  by (auto simp: advances_def config_wf_def config_defs)

lemma advances_raiseKnown:
  "c_knownHighestNumber cfg < n \<Longrightarrow>
   advances cfg (setKnownLatestHash h (setKnownHighestNumber n cfg))"
  by (auto simp: advances_def config_wf_def config_defs)

lemma height_i64_Suc [simp]: "height n \<Longrightarrow> i64 (n + 1) = n + 1"
  by (simp add: height_def in_i64_def)

lemma resetConfig_fst:
  "fst (resetConfig F lc cfg) =
     (if staleConfig lc cfg then cfg
      else (resetBlockInfo (lc_blockNumber lc) (lc_hash lc) cfg)
        \<lparr>c_sync := fw_setObserverList F (lc_observerNodeList lc)
           (fw_setConsensusNodeList F (lc_consensusNodeList lc) (c_sync cfg))\<rparr>)"
  by (simp add: resetConfig_def resetBlockInfo_def config_defs Let_def)

lemma resetConfig_snd:
  "snd (resetConfig F lc cfg) = (if staleConfig lc cfg then [] else [ConsensusNewBlock lc])"
  by (simp add: resetConfig_def Let_def)

text \<open>Without the height test, a reset is safe only from the genesis height.\<close>

lemma resetConfig_wf:
  assumes "height (lc_blockNumber lc)" "config_wf cfg \<or> c_blockNumber cfg = 0"
  shows "config_wf (fst (resetConfig F lc cfg))"
  using assms by (auto simp: resetConfig_fst config_wf_def config_defs Let_def height_def)

lemma advances_resetConfig:
  assumes "height (lc_blockNumber lc)" "0 \<le> c_blockNumber cfg"
  shows "advances cfg (fst (resetConfig F lc cfg))"
  using assms resetConfig_wf [OF assms(1), of cfg F]
  by (auto simp: advances_def resetConfig_fst config_defs Let_def height_def)

section \<open>Properties\<close>

text \<open>
  \<^verbatim>\<open>resetConfig\<close> on every branch. A configuration that is not newer than a non-genesis
  height is dropped: nothing changes and the consensus module is not told. Any other one
  sets height and hash, makes the next block the successor, raises the executed and the
  known highest block to at least the new height, and tells the consensus module once.
\<close>

lemma resetConfig_behaviour:
  assumes "height (lc_blockNumber lc)"
  shows "if lc_blockNumber lc \<le> c_blockNumber cfg \<and> 0 < c_blockNumber cfg
    then resetConfig F lc cfg = (cfg, [])
    else \<exists>cfg'. resetConfig F lc cfg = (cfg', [ConsensusNewBlock lc]) \<and>
      c_blockNumber cfg' = lc_blockNumber lc \<and> c_hash cfg' = lc_hash lc \<and>
      c_nextBlock cfg' = lc_blockNumber lc + 1 \<and>
      c_executedBlock cfg' = max (c_executedBlock cfg) (lc_blockNumber lc) \<and>
      c_knownHighestNumber cfg' = max (c_knownHighestNumber cfg) (lc_blockNumber lc) \<and>
      c_knownLatestHash cfg' =
        (if c_knownHighestNumber cfg < lc_blockNumber lc then lc_hash lc else c_knownLatestHash cfg)"
  using assms by (auto simp: config_defs Let_def max_def)

end
