(* ===== verification/DownloadRequestQueue.thy ===== *)
theory DownloadRequestQueue
  imports StdPriorityQueue BlockSyncConfig
begin

text \<open>
  \<^verbatim>\<open>state/DownloadRequestQueue.h/.cpp\<close>: the block ranges a peer has asked this node for. The
  state is the vector of the \<^verbatim>\<open>std::priority_queue\<close>; \<open>topAndPop\<close> merges the requests at the
  top into one contiguous range, in \<^verbatim>\<open>size_t\<close> arithmetic. The lemmas show that merging
  neither loses nor invents a block number and that what stays queued starts strictly past
  the merged range.
\<close>

record DownloadRequest =
  fromNumber :: BlockNumber
  req_size :: size_t

type_synonym DownloadRequestQueue = "DownloadRequest list"

definition DownloadRequestCmp :: "DownloadRequest \<Rightarrow> DownloadRequest \<Rightarrow> bool" where
  "DownloadRequestCmp first second =
     (if fromNumber first = fromNumber second then req_size first < req_size second
      else fromNumber first > fromNumber second)"

definition drq_push ::
  "'sc BlockSyncConfig \<Rightarrow> BlockNumber \<Rightarrow> size_t \<Rightarrow> DownloadRequestQueue \<Rightarrow> DownloadRequestQueue" where
  "drq_push cfg from sz q =
     (if unat (c_maxDownloadRequestQueueSize cfg) \<le> length q then q
      else pq_push DownloadRequestCmp \<lparr>fromNumber = from, req_size = sz\<rparr> q)"

function mergeTops :: "size_t \<Rightarrow> size_t \<Rightarrow> DownloadRequestQueue \<Rightarrow> size_t \<times> DownloadRequestQueue" where
  "mergeTops from sz q =
     (case pq_top q of
        None \<Rightarrow> (sz, q)
      | Some topReq \<Rightarrow>
          if to_size (fromNumber topReq) \<le> from + sz
          then mergeTops from
                 (max sz (to_size (fromNumber topReq) + req_size topReq - from))
                 (pq_pop DownloadRequestCmp q)
          else (sz, q))"
  by pat_completeness auto
termination
  by (relation "measure (\<lambda>(from, sz, q). length q)") (auto dest: pq_top_SomeD)

declare mergeTops.simps [simp del]

lemma mergeTops_Nil [simp]: "mergeTops from sz [] = (sz, [])"
  by (simp add: mergeTops.simps)

definition topAndPop :: "DownloadRequestQueue \<Rightarrow> DownloadRequest option \<times> DownloadRequestQueue" where
  "topAndPop q =
     (case pq_top q of
        None \<Rightarrow> (None, q)
      | Some t \<Rightarrow>
          let from = to_size (fromNumber t);
              (sz, q') = mergeTops from 0 q
          in (Some \<lparr>fromNumber = to_number from, req_size = sz\<rparr>, q'))"

definition drq_empty :: "DownloadRequestQueue \<Rightarrow> bool" where
  "drq_empty q \<longleftrightarrow> q = []"

section \<open>The order of the requests\<close>

interpretation req: strict_weak_order DownloadRequestCmp
  by unfold_locales (auto simp: DownloadRequestCmp_def split: if_splits)

abbreviation req_heap :: "DownloadRequestQueue \<Rightarrow> bool" where
  "req_heap \<equiv> is_heap DownloadRequestCmp"

lemma req_heap_push: "req_heap q \<Longrightarrow> req_heap (drq_push cfg from sz q)"
  by (simp add: drq_push_def req.is_heap_push)

lemma req_top_least: "req_heap q \<Longrightarrow> pq_top q = Some t \<Longrightarrow> r \<in> set q \<Longrightarrow> fromNumber t \<le> fromNumber r"
  using req.top_maximal [of q t r] by (auto simp: DownloadRequestCmp_def split: if_splits)

section \<open>Merging\<close>

text \<open>
  The block numbers of a request, and the requests whose range stays inside the
  non-negative \<^verbatim>\<open>int64_t\<close>s, for which no conversion or sum wraps.
\<close>

definition req_range :: "DownloadRequest \<Rightarrow> int set" where
  "req_range r = {fromNumber r ..< fromNumber r + uint (req_size r)}"

definition req_ok :: "DownloadRequest \<Rightarrow> bool" where
  "req_ok r \<longleftrightarrow> 0 \<le> fromNumber r \<and> fromNumber r + uint (req_size r) < 2 ^ 63"

definition covered :: "DownloadRequestQueue \<Rightarrow> int set" where
  "covered q = (\<Union>r \<in> set q. req_range r)"

lemma uint_to_size_add:
  assumes "0 \<le> n" "n + uint w < 2 ^ 64"
  shows "uint (to_size n + w) = n + uint w"
proof -
  have "n < 2 ^ 64" using assms uint_ge_0 [of w] by linarith
  then show ?thesis using assms by (simp add: uint_word_ariths uint_to_size)
qed

lemma uint_to_size_add_diff:
  assumes "0 \<le> m" "m \<le> n" "n + uint w < 2 ^ 63"
  shows "uint (to_size n + w - to_size m) = n + uint w - m"
proof -
  have n: "uint (to_size n + w) = n + uint w"
    using assms by (intro uint_to_size_add) auto
  have mn: "m \<le> n + uint w" using assms(2) by (simp add: add_increasing2)
  then have "m < 2 ^ 64" using assms(3) by simp
  with assms have m: "uint (to_size m) = m" by (intro uint_to_size)
  have "to_size m \<le> to_size n + w"
    using mn by (simp add: word_le_def n m)
  then show ?thesis by (simp add: uint_minus_simple_alt [THEN iffD1] n m)
qed

lemma covered_top:
  "pq_top q = Some t \<Longrightarrow> covered q = req_range t \<union> covered (pq_pop DownloadRequestCmp q)"
proof -
  assume "pq_top q = Some t"
  then have "set_mset (mset q) = insert t (set_mset (mset (pq_pop DownloadRequestCmp q)))"
    by (simp add: req.mset_top_pop)
  then show ?thesis by (simp add: covered_def)
qed

text \<open>
  The loop invariant: \<open>start\<close> is the first block of the merged range \<open>start ..< start + sz\<close>,
  and every queued request starts at or after it.
\<close>

definition merge_inv :: "BlockNumber \<Rightarrow> size_t \<Rightarrow> DownloadRequestQueue \<Rightarrow> bool" where
  "merge_inv start sz q \<longleftrightarrow>
     req_heap q \<and> 0 \<le> start \<and> start + uint sz < 2 ^ 63 \<and>
     (\<forall>r \<in> set q. req_ok r \<and> start \<le> fromNumber r)"

lemma merge_guard:
  assumes "merge_inv start sz q" "t \<in> set q"
  shows "to_size (fromNumber t) \<le> to_size start + sz \<longleftrightarrow> fromNumber t \<le> start + uint sz"
proof -
  have t: "0 \<le> fromNumber t" "fromNumber t + uint (req_size t) < 2 ^ 63"
    using assms by (auto simp: merge_inv_def req_ok_def)
  then have "fromNumber t < 2 ^ 64"
    using order.strict_trans1 [of "fromNumber t" "fromNumber t + uint (req_size t)" "2 ^ 63"] by simp
  then have "uint (to_size (fromNumber t)) = fromNumber t"
    using t by (intro uint_to_size)
  moreover have "uint (to_size start + sz) = start + uint sz"
    using assms by (intro uint_to_size_add) (auto simp: merge_inv_def)
  ultimately show ?thesis by (simp add: word_le_def)
qed

lemma merge_size:
  assumes "merge_inv start sz q" "t \<in> set q"
  shows "uint (max sz (to_size (fromNumber t) + req_size t - to_size start)) =
    max (uint sz) (fromNumber t + uint (req_size t) - start)"
proof -
  have "uint (to_size (fromNumber t) + req_size t - to_size start) =
      fromNumber t + uint (req_size t) - start"
    using assms by (intro uint_to_size_add_diff) (auto simp: merge_inv_def req_ok_def)
  then show ?thesis by (simp add: max_def word_le_def)
qed

lemma merge_inv_step:
  assumes inv: "merge_inv start sz q" and t: "pq_top q = Some t"
  shows "merge_inv start (max sz (to_size (fromNumber t) + req_size t - to_size start))
    (pq_pop DownloadRequestCmp q)"
proof -
  have "t \<in> set q" using t by (auto dest: pq_top_SomeD)
  then have "start + max (uint sz) (fromNumber t + uint (req_size t) - start) < 2 ^ 63"
    using inv by (auto simp: merge_inv_def req_ok_def max_def)
  with inv show ?thesis
    using merge_size [OF inv \<open>t \<in> set q\<close>] set_pq_pop_subset [of DownloadRequestCmp q]
    by (auto simp: merge_inv_def req.is_heap_pop)
qed

lemma covered_step:
  fixes start f s n :: int
  assumes "start \<le> f" "f \<le> start + s" "0 \<le> s" "0 \<le> n"
  shows "{start ..< start + s} \<union> ({f ..< f + n} \<union> R) = {start ..< start + max s (f + n - start)} \<union> R"
  using assms by (auto simp: max_def)

lemma mergeTops_spec:
  assumes "merge_inv start sz q" and "mergeTops (to_size start) sz q = (sz', q')"
  shows "merge_inv start sz' q' \<and> uint sz \<le> uint sz' \<and> mset q' \<subseteq># mset q \<and>
    {start ..< start + uint sz} \<union> covered q = {start ..< start + uint sz'} \<union> covered q' \<and>
    (\<forall>r \<in> set q'. start + uint sz' < fromNumber r)"
  using assms
proof (induction "length q" arbitrary: q sz rule: less_induct)
  case less
  show ?case
  proof (cases "pq_top q")
    case None
    then show ?thesis using less.prems by auto
  next
    case (Some t)
    note inv = less.prems(1)
    have tq: "t \<in> set q" "q \<noteq> []" using Some by (auto dest: pq_top_SomeD)
    let ?s = "max sz (to_size (fromNumber t) + req_size t - to_size start)"
    let ?q = "pq_pop DownloadRequestCmp q"
    show ?thesis
    proof (cases "fromNumber t \<le> start + uint sz")
      case True
      then have step: "mergeTops (to_size start) ?s ?q = (sz', q')"
        using less.prems(2) Some merge_guard [OF inv tq(1)]
        by (simp add: mergeTops.simps [of "to_size start" sz q])
      have "start \<le> fromNumber t" using inv tq by (simp add: merge_inv_def)
      then have cov: "{start ..< start + uint sz} \<union> covered q = {start ..< start + uint ?s} \<union> covered ?q"
        unfolding covered_top [OF Some] req_range_def merge_size [OF inv tq(1)]
        using True by (intro covered_step) simp_all
      have "length ?q < length q" using tq by simp
      from less.hyps [OF this merge_inv_step [OF inv Some] step] show ?thesis
        using cov merge_size [OF inv tq(1)] req.mset_top_pop [OF Some]
        by (auto intro: subset_mset.order_trans)
    next
      case False
      then have "sz' = sz" "q' = q"
        using less.prems(2) Some merge_guard [OF inv tq(1)]
        by (simp_all add: mergeTops.simps [of "to_size start" sz q])
      moreover have "fromNumber t \<le> fromNumber r" if "r \<in> set q" for r
        using req_top_least [OF _ Some that] inv by (simp add: merge_inv_def)
      ultimately show ?thesis using False inv by force
    qed
  qed
qed

section \<open>topAndPop\<close>

text \<open>The first test of the loop always succeeds, so at least one request leaves the queue.\<close>

lemma length_mergeTops: "length (snd (mergeTops f sz q)) \<le> length q"
proof (induction f sz q rule: mergeTops.induct)
  case (1 f sz q)
  then show ?case
    by (fastforce simp: mergeTops.simps [of f sz q] split: option.splits)
qed

lemma length_topAndPop: "topAndPop q = (Some r, q') \<Longrightarrow> length q' < length q"
proof -
  assume top: "topAndPop q = (Some r, q')"
  then obtain t where t: "pq_top q = Some t"
    by (cases "pq_top q") (auto simp: topAndPop_def)
  then have "q \<noteq> []" by (auto dest: pq_top_SomeD)
  obtain sz where m: "mergeTops (to_size (fromNumber t)) 0 q = (sz, q')"
    using top t by (auto simp: topAndPop_def Let_def split: prod.splits)
  then have "q' = snd (mergeTops (to_size (fromNumber t))
      (max 0 (to_size (fromNumber t) + req_size t - to_size (fromNumber t)))
      (pq_pop DownloadRequestCmp q))"
    using t by (simp add: mergeTops.simps [of _ 0 q])
  then have "length q' \<le> length q - 1"
    using length_mergeTops by (metis length_pq_pop)
  with \<open>q \<noteq> []\<close> show ?thesis by (cases q) auto
qed

lemma length_snd_topAndPop: "fst (topAndPop q) = Some r \<Longrightarrow> length (snd (topAndPop q)) < length q"
  by (rule length_topAndPop) (simp add: prod_eq_iff)

lemma topAndPop_Nil [simp]: "topAndPop [] = (None, [])"
  by (simp add: topAndPop_def)

lemma topAndPop_None: "topAndPop q = (None, q') \<longleftrightarrow> q = [] \<and> q' = []"
  by (cases q) (auto simp: topAndPop_def pq_top_def Let_def split: prod.splits)

lemma topAndPop_spec:
  assumes heap: "req_heap q" and ok: "\<forall>r \<in> set q. req_ok r" and ne: "q \<noteq> []"
  shows "\<exists>r q'. topAndPop q = (Some r, q') \<and> req_ok r \<and> req_heap q' \<and> mset q' \<subseteq># mset q \<and>
    length q' < length q \<and> covered q = req_range r \<union> covered q' \<and>
    (\<forall>x \<in> set q. fromNumber r \<le> fromNumber x) \<and>
    (\<forall>x \<in> set q'. fromNumber r + uint (req_size r) < fromNumber x)"
proof -
  obtain t where t: "pq_top q = Some t" using ne by (cases "pq_top q") auto
  then have tq: "t \<in> set q" by (auto dest: pq_top_SomeD)
  have least: "\<forall>x \<in> set q. fromNumber t \<le> fromNumber x" using req_top_least [OF heap t] by blast
  have tok: "req_ok t" using ok tq by blast
  then have small: "0 \<le> fromNumber t" "fromNumber t < 2 ^ 63"
    using order.strict_trans1 [of "fromNumber t" "fromNumber t + uint (req_size t)" "2 ^ 63"]
    by (simp_all add: req_ok_def)
  obtain sz q' where m: "mergeTops (to_size (fromNumber t)) 0 q = (sz, q')" by force
  have "merge_inv (fromNumber t) 0 q"
    using heap ok least small by (simp add: merge_inv_def)
  note spec = mergeTops_spec [OF this m]
  have "in_i64 (fromNumber t)" using small by (simp add: in_i64_def)
  then have top: "topAndPop q = (Some \<lparr>fromNumber = fromNumber t, req_size = sz\<rparr>, q')"
    using t m by (simp add: topAndPop_def)
  then show ?thesis
    using spec least length_topAndPop [OF top] small
    by (auto simp: merge_inv_def req_ok_def req_range_def)
qed

section \<open>Properties\<close>

text \<open>
  C20: \<^verbatim>\<open>topAndPop\<close> merges correctly. On a queue of requests whose ranges stay within the
  non-negative block numbers, it returns one request that starts at the least queued
  number; the range returned and the ranges left queued together hold exactly the
  numbers that were queued; and every request left starts strictly beyond the returned
  range, so the returned range could not have been extended.
\<close>

theorem topAndPop_correct:
  assumes "is_heap DownloadRequestCmp q" and "\<forall>r \<in> set q. req_ok r" and "q \<noteq> []"
  shows "\<exists>r q'. topAndPop q = (Some r, q') \<and>
    covered q = req_range r \<union> covered q' \<and> req_range r \<inter> covered q' = {} \<and>
    (\<forall>x \<in> set q. fromNumber r \<le> fromNumber x) \<and>
    (\<forall>x \<in> set q'. fromNumber r + uint (req_size r) < fromNumber x) \<and>
    mset q' \<subseteq># mset q \<and> is_heap DownloadRequestCmp q'"
  using topAndPop_spec [OF assms] by (force simp: covered_def req_range_def)

text \<open>The example of the comment in \<^verbatim>\<open>topAndPop\<close>, pushed in the order of the comment.\<close>

definition commentQueue :: DownloadRequestQueue where
  "commentQueue = fold (\<lambda>(f, s). pq_push DownloadRequestCmp \<lparr>fromNumber = f, req_size = s\<rparr>)
     [(1, 3), (1, 4), (2, 1), (2, 4), (6, 2), (10, 2)] []"

lemma commentQueue_heap: "is_heap DownloadRequestCmp commentQueue"
  unfolding commentQueue_def by (simp add: req.is_heap_push req.is_heap_Nil)

lemma commentQueue_ok: "\<forall>r \<in> set commentQueue. req_ok r"
  by (simp add: commentQueue_def req_ok_def)

theorem topAndPop_correct_witness:
  "\<exists>r q'. topAndPop commentQueue = (Some r, q') \<and>
    covered commentQueue = req_range r \<union> covered q' \<and> req_range r \<inter> covered q' = {} \<and>
    (\<forall>x \<in> set commentQueue. fromNumber r \<le> fromNumber x) \<and>
    (\<forall>x \<in> set q'. fromNumber r + uint (req_size r) < fromNumber x) \<and>
    mset q' \<subseteq># mset commentQueue \<and> is_heap DownloadRequestCmp q'"
  by (rule topAndPop_correct [OF commentQueue_heap commentQueue_ok]) (simp add: commentQueue_def)

text \<open>
  The example of the comment in \<^verbatim>\<open>topAndPop\<close>: the requests (1,3), (1,4), (2,1), (2,4),
  (6,2), (10,2) merge into (1,7), with (10,2) left for the next turn. The queue delivers them
  in another order than the comment lists them: the comparator puts the larger of two
  requests with the same start first.
\<close>

lemma topAndPop_comment_example:
  "topAndPop commentQueue =
     (Some \<lparr>fromNumber = 1, req_size = 7\<rparr>, [\<lparr>fromNumber = 10, req_size = 2\<rparr>]) \<and>
   pq_top commentQueue = Some \<lparr>fromNumber = 1, req_size = 4\<rparr>"
  by code_simp

text \<open>
  The request queue is bounded and a full queue drops the new request: pushing
  never takes a queue past \<^verbatim>\<open>maxDownloadRequestQueueSize\<close>, keeps the heap, and adds
  exactly the request when there was room.
\<close>

lemma drq_push_bounded:
  assumes "is_heap DownloadRequestCmp q" and "length q \<le> unat (c_maxDownloadRequestQueueSize cfg)"
  shows "length (drq_push cfg from sz q) \<le> unat (c_maxDownloadRequestQueueSize cfg) \<and>
    is_heap DownloadRequestCmp (drq_push cfg from sz q) \<and>
    mset (drq_push cfg from sz q) =
      (if length q < unat (c_maxDownloadRequestQueueSize cfg)
       then add_mset \<lparr>fromNumber = from, req_size = sz\<rparr> (mset q) else mset q)"
  using assms by (auto simp: drq_push_def req.is_heap_push)

end
