(* ===== verification/SyncPeerStatus.thy ===== *)
theory SyncPeerStatus
  imports DownloadRequestQueue
begin

text \<open>
  \<^verbatim>\<open>state/SyncPeerStatus.h/.cpp\<close>: what this node knows of its peers. The \<^verbatim>\<open>std::map\<close> from node
  keys to \<^verbatim>\<open>PeerStatus\<close> objects is an association list in key order, its iteration order.
  A \<^verbatim>\<open>PeerStatus\<close> owns its request queue through a \<^verbatim>\<open>shared_ptr\<close> that pending ledger callbacks
  hold too: the queues live in a store (\<open>req_store\<close>) and a status holds the address of its own.
  Deleting a peer destroys its queue, unless a callback still holds it. The store only grows, so that
  addresses stay valid; a cell that neither an entry of the table nor a callback refers to stands for
  a destroyed queue, and nothing reads it.
\<close>

section \<open>std::map as an ordered association list\<close>

type_synonym 'v keymap = "(NodeID \<times> 'v) list"

text \<open>\<^verbatim>\<open>insert\<close> leaves an existing entry alone.\<close>

fun map_insert :: "NodeID \<Rightarrow> 'v \<Rightarrow> 'v keymap \<Rightarrow> 'v keymap" where
  "map_insert k v [] = [(k, v)]"
| "map_insert k v (e # m) =
     (if k < fst e then (k, v) # e # m else if k = fst e then e # m else e # map_insert k v m)"

definition map_modify :: "NodeID \<Rightarrow> ('v \<Rightarrow> 'v) \<Rightarrow> 'v keymap \<Rightarrow> 'v keymap" where
  "map_modify k f m = map (\<lambda>e. if fst e = k then (k, f (snd e)) else e) m"

definition map_erase :: "NodeID \<Rightarrow> 'v keymap \<Rightarrow> 'v keymap" where
  "map_erase k m = filter (\<lambda>e. fst e \<noteq> k) m"

abbreviation map_sorted :: "'v keymap \<Rightarrow> bool" where
  "map_sorted m \<equiv> sorted_wrt (<) (map fst m)"

lemma map_of_map_insert [simp]:
  "map_sorted m \<Longrightarrow> map_of (map_insert k v m) =
     (if map_of m k = None then (map_of m)(k \<mapsto> v) else map_of m)"
proof (induction m)
  case (Cons e m)
  then have "map_of m k = None" if "k < fst e"
    using that by (force simp: map_of_eq_None_iff)
  with Cons show ?case by (cases e) (auto simp: fun_eq_iff)
qed auto

lemma set_map_insert: "set (map fst (map_insert k v m)) = insert k (set (map fst m))"
  by (induction m) auto

lemma map_sorted_insert [simp]: "map_sorted m \<Longrightarrow> map_sorted (map_insert k v m)"
proof (induction m)
  case (Cons e m)
  then show ?case using set_map_insert [of k v m] by (auto simp: less_trans)
qed simp

lemma map_fst_modify [simp]: "map fst (map_modify k f m) = map fst m"
  by (induction m) (auto simp: map_modify_def)

lemma map_of_map_modify [simp]:
  "map_of (map_modify k f m) = (map_of m)(k := map_option f (map_of m k))"
  by (induction m) (auto simp: map_modify_def fun_eq_iff)

lemma map_of_map_erase [simp]: "map_of (map_erase k m) = (map_of m)(k := None)"
  by (induction m) (auto simp: map_erase_def fun_eq_iff)

lemma map_sorted_erase [simp]: "map_sorted m \<Longrightarrow> map_sorted (map_erase k m)"
  by (induction m) (auto simp: map_erase_def)

lemma map_sorted_distinct: "map_sorted m \<Longrightarrow> distinct (map fst m)"
  by (simp add: strict_sorted_iff)

section \<open>PeerStatus and SyncPeerStatus\<close>

record PeerStatus =
  ps_nodeId :: NodeIDPtr
  ps_number :: BlockNumber
  ps_hash :: HashType
  ps_genesisHash :: HashType
  ps_downloadRequests :: nat

record SyncPeerStatus =
  m_peersStatus :: "PeerStatus keymap"
  req_store :: "DownloadRequestQueue list"

definition newSyncPeerStatus :: SyncPeerStatus where
  "newSyncPeerStatus = \<lparr>m_peersStatus = [], req_store = []\<rparr>"

text \<open>The constructor allocates the peer's request queue.\<close>

definition newPeerStatus ::
  "NodeIDPtr \<Rightarrow> BlockNumber \<Rightarrow> HashType \<Rightarrow> HashType \<Rightarrow> SyncPeerStatus \<Rightarrow> PeerStatus \<times> SyncPeerStatus" where
  "newPeerStatus nodeId number hash genesisHash st =
     (\<lparr>ps_nodeId = nodeId, ps_number = number, ps_hash = hash, ps_genesisHash = genesisHash,
       ps_downloadRequests = length (req_store st)\<rparr>,
      st\<lparr>req_store := req_store st @ [[]]\<rparr>)"

definition newEmptyPeerStatus :: "NodeIDPtr \<Rightarrow> SyncPeerStatus \<Rightarrow> PeerStatus \<times> SyncPeerStatus" where
  "newEmptyPeerStatus nodeId st = newPeerStatus nodeId 0 zeroHash zeroHash st"

definition peerStatusOf ::
  "NodeIDPtr \<Rightarrow> BlockSyncStatusImpl \<Rightarrow> SyncPeerStatus \<Rightarrow> PeerStatus \<times> SyncPeerStatus" where
  "peerStatusOf nodeId status st =
     newPeerStatus nodeId (msg_number status) (m_hash status) (m_genesisHash status) st"

definition peer_update :: "BlockSyncStatusImpl \<Rightarrow> PeerStatus \<Rightarrow> bool \<times> PeerStatus" where
  "peer_update status ps =
     (if ps_hash ps = m_hash status \<and> msg_number status = ps_number ps then (False, ps)
      else if ps_genesisHash ps \<noteq> zeroHash \<and> m_genesisHash status \<noteq> ps_genesisHash ps then (False, ps)
      else let ps1 = ps\<lparr>ps_number := msg_number status, ps_hash := m_hash status\<rparr>
           in (True, if ps_genesisHash ps1 = zeroHash
                     then ps1\<lparr>ps_genesisHash := m_genesisHash status\<rparr> else ps1))"

definition hasPeer :: "NodeIDPtr \<Rightarrow> SyncPeerStatus \<Rightarrow> bool" where
  "hasPeer peer st \<longleftrightarrow> map_of (m_peersStatus st) (np_data peer) \<noteq> None"

definition peerStatus :: "NodeIDPtr \<Rightarrow> SyncPeerStatus \<Rightarrow> PeerStatus option" where
  "peerStatus peer st = map_of (m_peersStatus st) (np_data peer)"

definition insertEmptyPeer :: "NodeIDPtr \<Rightarrow> SyncPeerStatus \<Rightarrow> PeerStatus \<times> SyncPeerStatus" where
  "insertEmptyPeer peer st =
     (let (ps, st1) = newEmptyPeerStatus peer st
      in (ps, st1\<lparr>m_peersStatus := map_insert (np_data peer) ps (m_peersStatus st1)\<rparr>))"

definition updateKnownMaxBlockInfo ::
  "BlockSyncStatusImpl \<Rightarrow> 'sc BlockSyncConfig \<Rightarrow> 'sc BlockSyncConfig" where
  "updateKnownMaxBlockInfo status cfg =
     (if m_genesisHash status \<noteq> c_genesisHash cfg then cfg
      else if msg_number status \<le> c_knownHighestNumber cfg then cfg
      else setKnownLatestHash (m_hash status) (setKnownHighestNumber (msg_number status) cfg))"

definition updatePeerStatus ::
  "NodeIDPtr \<Rightarrow> BlockSyncStatusImpl \<Rightarrow> 'sc BlockSyncConfig \<Rightarrow> SyncPeerStatus \<Rightarrow>
   bool \<times> 'sc BlockSyncConfig \<times> SyncPeerStatus" where
  "updatePeerStatus peer status cfg st =
     (if m_genesisHash status \<noteq> c_genesisHash cfg then (False, cfg, st)
      else case map_of (m_peersStatus st) (np_data peer) of
        Some ps \<Rightarrow>
          let (changed, ps') = peer_update status ps;
              st1 = st\<lparr>m_peersStatus := map_modify (np_data peer) (\<lambda>_. ps') (m_peersStatus st)\<rparr>
          in (True, if changed then updateKnownMaxBlockInfo status cfg else cfg, st1)
      | None \<Rightarrow>
          let (ps, st1) = peerStatusOf peer status st;
              st2 = st1\<lparr>m_peersStatus := map_insert (np_data peer) ps (m_peersStatus st1)\<rparr>
          in (True, updateKnownMaxBlockInfo status cfg, st2))"

definition deletePeer :: "NodeIDPtr \<Rightarrow> SyncPeerStatus \<Rightarrow> SyncPeerStatus" where
  "deletePeer peer st =
     (case map_of (m_peersStatus st) (np_data peer) of
        None \<Rightarrow> st
      | Some _ \<Rightarrow> st\<lparr>m_peersStatus := map_erase (np_data peer) (m_peersStatus st)\<rparr>)"

definition peers :: "SyncPeerStatus \<Rightarrow> NodeID list" where
  "peers st = map fst (m_peersStatus st)"

text \<open>\<^verbatim>\<open>queue->push(from, size)\<close> through a pointer to the queue.\<close>

definition push_at ::
  "'sc BlockSyncConfig \<Rightarrow> nat \<Rightarrow> BlockNumber \<Rightarrow> size_t \<Rightarrow> SyncPeerStatus \<Rightarrow> SyncPeerStatus" where
  "push_at cfg a from sz st = st\<lparr>req_store := (req_store st)[a := drq_push cfg from sz (req_store st ! a)]\<rparr>"

section \<open>Visiting the peers\<close>

text \<open>A visitor returns false to stop the iteration; \<open>'s\<close> is what its closure changes.\<close>

fun visit :: "(PeerStatus \<Rightarrow> 's \<Rightarrow> bool \<times> 's) \<Rightarrow> PeerStatus list \<Rightarrow> 's \<Rightarrow> 's" where
  "visit f [] s = s"
| "visit f (p # ps) s = (let (continue, s') = f p s in if continue then visit f ps s' else s')"

definition foreachPeer :: "(PeerStatus \<Rightarrow> 's \<Rightarrow> bool \<times> 's) \<Rightarrow> SyncPeerStatus \<Rightarrow> 's \<Rightarrow> 's" where
  "foreachPeer f st s = visit f (map snd (m_peersStatus st)) s"

text \<open>\<open>rnd i\<close> is what \<^verbatim>\<open>rand()\<close> returns in iteration \<open>i\<close> of the shuffling loop.\<close>

fun shuffle :: "(nat \<Rightarrow> nat) \<Rightarrow> nat \<Rightarrow> 'a list \<Rightarrow> 'a list" where
  "shuffle rnd 0 xs = xs"
| "shuffle rnd (Suc i) xs =
     (let select = rnd (Suc i) mod (Suc i + 1)
      in shuffle rnd i (xs[Suc i := xs ! select, select := xs ! Suc i]))"

fun visitKeys ::
  "(PeerStatus \<Rightarrow> 's \<Rightarrow> bool \<times> 's) \<Rightarrow> PeerStatus keymap \<Rightarrow> NodeID list \<Rightarrow> 's \<Rightarrow> 's" where
  "visitKeys f m [] s = s"
| "visitKeys f m (k # ks) s =
     (case map_of m k of
        None \<Rightarrow> visitKeys f m ks s
      | Some p \<Rightarrow> (let (continue, s') = f p s in if continue then visitKeys f m ks s' else s'))"

definition foreachPeerRandom ::
  "(nat \<Rightarrow> nat) \<Rightarrow> (PeerStatus \<Rightarrow> 's \<Rightarrow> bool \<times> 's) \<Rightarrow> SyncPeerStatus \<Rightarrow> 's \<Rightarrow> 's" where
  "foreachPeerRandom rnd f st s =
     (if m_peersStatus st = [] then s
      else let nodeIds = map fst (m_peersStatus st);
               nodeIds = shuffle rnd (length nodeIds - 1) nodeIds
           in visitKeys f (m_peersStatus st) nodeIds s)"

lemmas peer_defs [sync_defs] =
  newPeerStatus_def newEmptyPeerStatus_def peerStatusOf_def peer_update_def hasPeer_def
  peerStatus_def insertEmptyPeer_def updateKnownMaxBlockInfo_def updatePeerStatus_def
  deletePeer_def push_at_def foreachPeer_def foreachPeerRandom_def

section \<open>The invariant of the peer table\<close>

definition peer_ok :: "'sc BlockSyncConfig \<Rightarrow> SyncPeerStatus \<Rightarrow> NodeID \<Rightarrow> PeerStatus \<Rightarrow> bool" where
  "peer_ok cfg st k p \<longleftrightarrow>
     np_data (ps_nodeId p) = k \<and> ps_downloadRequests p < length (req_store st) \<and>
     ps_number p \<le> c_knownHighestNumber cfg \<and>
     (ps_genesisHash p = zeroHash \<or> ps_genesisHash p = c_genesisHash cfg)"

definition queue_ok :: "'sc BlockSyncConfig \<Rightarrow> DownloadRequestQueue \<Rightarrow> bool" where
  "queue_ok cfg q \<longleftrightarrow> req_heap q \<and> length q \<le> unat (c_maxDownloadRequestQueueSize cfg)"

definition own_queues :: "SyncPeerStatus \<Rightarrow> bool" where
  "own_queues st \<longleftrightarrow>
     (\<forall>k p k' p'. map_of (m_peersStatus st) k = Some p \<longrightarrow> map_of (m_peersStatus st) k' = Some p' \<longrightarrow>
        ps_downloadRequests p = ps_downloadRequests p' \<longrightarrow> k = k')"

definition peers_wf :: "'sc BlockSyncConfig \<Rightarrow> SyncPeerStatus \<Rightarrow> bool" where
  "peers_wf cfg st \<longleftrightarrow>
     map_sorted (m_peersStatus st) \<and>
     (\<forall>k p. map_of (m_peersStatus st) k = Some p \<longrightarrow> peer_ok cfg st k p) \<and>
     own_queues st \<and> (\<forall>q \<in> set (req_store st). queue_ok cfg q)"

lemma peers_wfD:
  assumes "peers_wf cfg st"
  shows "map_sorted (m_peersStatus st)"
    and "map_of (m_peersStatus st) k = Some p \<Longrightarrow> peer_ok cfg st k p"
    and "own_queues st"
    and "q \<in> set (req_store st) \<Longrightarrow> queue_ok cfg q"
  using assms by (auto simp: peers_wf_def)

lemma peers_wf_new [simp]: "peers_wf cfg newSyncPeerStatus"
  by (simp add: peers_wf_def newSyncPeerStatus_def own_queues_def)

lemma peers_wf_advances: "peers_wf cfg st \<Longrightarrow> advances cfg cfg' \<Longrightarrow> peers_wf cfg' st"
  by (fastforce simp: peers_wf_def peer_ok_def queue_ok_def advances_def)

lemma peers_wf_sync [simp]: "peers_wf (cfg\<lparr>c_sync := sc\<rparr>) st = peers_wf cfg st"
  by (simp add: peers_wf_def peer_ok_def queue_ok_def)

text \<open>A new entry with a new queue, and an entry that keeps its queue.\<close>

lemma peers_wf_insert:
  assumes wf: "peers_wf cfg st"
    and ok: "np_data (ps_nodeId p) = k" "ps_number p \<le> c_knownHighestNumber cfg"
      "ps_genesisHash p = zeroHash \<or> ps_genesisHash p = c_genesisHash cfg"
      "ps_downloadRequests p = length (req_store st)"
  shows "peers_wf cfg (st\<lparr>req_store := req_store st @ [[]], m_peersStatus := map_insert k p (m_peersStatus st)\<rparr>)"
proof -
  note D = peers_wfD [OF wf]
  have old: "ps_downloadRequests p' < length (req_store st)"
    if "map_of (m_peersStatus st) k' = Some p'" for k' p'
    using D(2) [OF that] by (simp add: peer_ok_def)
  let ?st = "st\<lparr>req_store := req_store st @ [[]], m_peersStatus := map_insert k p (m_peersStatus st)\<rparr>"
  have "own_queues ?st"
    using D(1,3) old ok(4) unfolding own_queues_def
    by (auto split: if_splits) (metis less_irrefl)+
  then show ?thesis
    using D(1,2,4) ok unfolding peers_wf_def
    by (auto simp: peer_ok_def queue_ok_def req.is_heap_Nil less_Suc_eq split: if_splits)
qed

lemma peers_wf_modify:
  assumes wf: "peers_wf cfg st" and p: "map_of (m_peersStatus st) k = Some p"
    and ok: "ps_nodeId p' = ps_nodeId p" "ps_number p' \<le> c_knownHighestNumber cfg"
      "ps_genesisHash p' = zeroHash \<or> ps_genesisHash p' = c_genesisHash cfg"
      "ps_downloadRequests p' = ps_downloadRequests p"
  shows "peers_wf cfg (st\<lparr>m_peersStatus := map_modify k (\<lambda>_. p') (m_peersStatus st)\<rparr>)"
proof -
  note D = peers_wfD [OF wf]
  have "peer_ok cfg st k p'"
    using D(2) [OF p] ok by (simp add: peer_ok_def)
  moreover have "own_queues (st\<lparr>m_peersStatus := map_modify k (\<lambda>_. p') (m_peersStatus st)\<rparr>)"
    using D(3) p ok(4) unfolding own_queues_def by (auto split: if_splits)
  ultimately show ?thesis
    using D(1,2,4) p by (auto simp: peers_wf_def peer_ok_def split: if_splits)
qed

lemma peers_wf_deletePeer [intro]: "peers_wf cfg st \<Longrightarrow> peers_wf cfg (deletePeer peer st)"
  by (auto simp: deletePeer_def peers_wf_def peer_ok_def own_queues_def split: option.splits if_splits)

lemma peers_wf_push_at [intro]:
  assumes "peers_wf cfg st"
  shows "peers_wf cfg (push_at cfg a from sz st)"
proof -
  have "queue_ok cfg (drq_push cfg from sz (req_store st ! a))" if "a < length (req_store st)"
    using peers_wfD(4) [OF assms nth_mem [OF that]]
    by (auto simp: queue_ok_def req.is_heap_push drq_push_def)
  then show ?thesis
    using assms unfolding peers_wf_def
    by (cases "a < length (req_store st)")
      (auto simp: push_at_def peer_ok_def own_queues_def list_update_beyond
        dest!: set_update_subset_insert [THEN subsetD])
qed

lemma peers_wf_insertEmptyPeer:
  "peers_wf cfg st \<Longrightarrow> 0 \<le> c_knownHighestNumber cfg \<Longrightarrow> peers_wf cfg (snd (insertEmptyPeer peer st))"
  by (simp add: peer_defs peers_wf_insert)

lemma advances_updateKnownMaxBlockInfo [intro]: "advances cfg (updateKnownMaxBlockInfo status cfg)"
  using advances_raiseKnown [of cfg "msg_number status" "m_hash status"]
  by (auto simp: updateKnownMaxBlockInfo_def)

lemma known_updateKnownMaxBlockInfo:
  "m_genesisHash status = c_genesisHash cfg \<Longrightarrow>
   c_knownHighestNumber (updateKnownMaxBlockInfo status cfg) = max (c_knownHighestNumber cfg) (msg_number status)"
  by (auto simp: updateKnownMaxBlockInfo_def config_defs)

lemma updatePeerStatus_known:
  assumes wf: "peers_wf cfg st" and gen: "m_genesisHash status = c_genesisHash cfg"
    and p: "map_of (m_peersStatus st) k = Some p"
  shows "c_knownHighestNumber (if fst (peer_update status p) then updateKnownMaxBlockInfo status cfg else cfg)
     = max (c_knownHighestNumber cfg) (msg_number status)"
  using peers_wfD(2) [OF wf p] gen
  by (auto simp: peer_update_def Let_def known_updateKnownMaxBlockInfo peer_ok_def)

lemma peer_update_fields:
  "peer_update status p = (b, p') \<Longrightarrow> ps_nodeId p' = ps_nodeId p \<and>
     ps_downloadRequests p' = ps_downloadRequests p"
  by (auto simp: peer_update_def Let_def split: if_splits)

lemma peer_update_announced:
  assumes "peer_ok cfg st k p" "m_genesisHash status = c_genesisHash cfg"
    and "peer_update status p = (b, p')"
  shows "ps_number p' = msg_number status" "ps_hash p' = m_hash status"
    "ps_genesisHash p' = zeroHash \<or> ps_genesisHash p' = c_genesisHash cfg"
  using assms by (auto simp: peer_update_def peer_ok_def Let_def split: if_splits)

lemma updatePeerStatus_inv:
  assumes wf: "peers_wf cfg st" and upd: "updatePeerStatus peer status cfg st = (ok, cfg', st')"
  shows "peers_wf cfg' st' \<and> advances cfg cfg'"
proof (cases "m_genesisHash status = c_genesisHash cfg")
  case gen: True
  show ?thesis
  proof (cases "map_of (m_peersStatus st) (np_data peer)")
    case None
    have adv: "advances cfg (updateKnownMaxBlockInfo status cfg)" by blast
    then have "peers_wf (updateKnownMaxBlockInfo status cfg) st" by (rule peers_wf_advances [OF wf])
    then show ?thesis
      using upd None gen adv known_updateKnownMaxBlockInfo [OF gen]
      by (auto simp: updatePeerStatus_def peerStatusOf_def newPeerStatus_def Let_def advances_def
          intro!: peers_wf_insert)
  next
    case (Some p)
    obtain b p' where u: "peer_update status p = (b, p')" by force
    define cfg1 where "cfg1 = (if b then updateKnownMaxBlockInfo status cfg else cfg)"
    have adv: "advances cfg cfg1" by (auto simp: cfg1_def)
    have known: "msg_number status \<le> c_knownHighestNumber cfg1"
      using updatePeerStatus_known [OF wf gen Some] u by (simp add: cfg1_def)
    have gen1: "c_genesisHash cfg1 = c_genesisHash cfg" using adv by (simp add: advances_def)
    note ann = peer_update_announced [OF peers_wfD(2) [OF wf Some] gen u]
    have "peers_wf cfg1 (st\<lparr>m_peersStatus := map_modify (np_data peer) (\<lambda>_. p') (m_peersStatus st)\<rparr>)"
      using peer_update_fields [OF u] known ann gen1
      by (intro peers_wf_modify [OF peers_wf_advances [OF wf adv] Some]) simp_all
    then show ?thesis
      using upd Some gen u adv by (auto simp: updatePeerStatus_def cfg1_def)
  qed
qed (use wf upd in \<open>auto simp: updatePeerStatus_def\<close>)

section \<open>Permuting the peers\<close>

lemma mset_shuffle: "i < length xs \<Longrightarrow> mset (shuffle rnd i xs) = mset xs"
proof (induction i arbitrary: xs)
  case (Suc i)
  define sel where "sel = rnd (Suc i) mod (Suc i + 1)"
  have "sel < Suc i + 1" unfolding sel_def by (rule mod_less_divisor) simp
  then have sel: "sel < length xs" using Suc.prems by simp
  have "mset (shuffle rnd i (xs[Suc i := xs ! sel, sel := xs ! Suc i])) = mset xs"
    using Suc.prems sel by (simp add: Suc.IH mset_swap)
  then show ?case by (simp add: Let_def sel_def)
qed simp

lemma visitKeys_visit:
  "set ks \<subseteq> dom (map_of m) \<Longrightarrow> visitKeys f m ks s = visit f (map (\<lambda>k. the (map_of m k)) ks) s"
  by (induction ks arbitrary: s) (auto split: prod.split)

lemma map_the_map_of: "distinct (map fst m) \<Longrightarrow> map (\<lambda>k. the (map_of m k)) (map fst m) = map snd m"
  by (induction m) (auto simp: image_iff)

lemma foreachPeerRandom_visit:
  assumes "map_sorted (m_peersStatus st)"
  shows "\<exists>ps. mset ps = mset (map snd (m_peersStatus st)) \<and>
    foreachPeerRandom rnd f st s = visit f ps s"
proof (cases "m_peersStatus st = []")
  case False
  define ks where "ks = shuffle rnd (length (map fst (m_peersStatus st)) - 1) (map fst (m_peersStatus st))"
  have ks: "mset ks = mset (map fst (m_peersStatus st))"
    unfolding ks_def using False by (intro mset_shuffle) simp
  then have "set ks = set (map fst (m_peersStatus st))" by (metis set_mset_mset)
  then have "set ks \<subseteq> dom (map_of (m_peersStatus st))" by (simp add: dom_map_of_conv_image_fst)
  then have "foreachPeerRandom rnd f st s =
      visit f (map (\<lambda>k. the (map_of (m_peersStatus st) k)) ks) s"
    using False by (simp add: foreachPeerRandom_def ks_def visitKeys_visit Let_def)
  moreover have "mset (map (\<lambda>k. the (map_of (m_peersStatus st) k)) ks) = mset (map snd (m_peersStatus st))"
    using map_the_map_of [OF map_sorted_distinct [OF assms]] ks by (metis mset_map)
  ultimately show ?thesis by blast
qed (simp add: foreachPeerRandom_def)

text \<open>What every visit keeps, the iteration keeps.\<close>

lemma visitKeys_inv:
  assumes "\<And>p s. P s \<Longrightarrow> P (snd (f p s))" and "P s"
  shows "P (visitKeys f m ks s)"
  using assms(2)
proof (induction ks arbitrary: s)
  case (Cons k ks)
  then show ?case
    using assms(1) [OF Cons.prems] by (auto simp: case_prod_unfold Let_def split: option.split)
qed simp

lemma foreachPeerRandom_inv:
  assumes "\<And>p s. P s \<Longrightarrow> P (snd (f p s))" and "P s"
  shows "P (foreachPeerRandom rnd f st s)"
  using visitKeys_inv [of P f s "m_peersStatus st", OF assms] assms(2)
  by (simp add: foreachPeerRandom_def Let_def)

section \<open>Properties\<close>

text \<open>
  C27: a status packet updates the table correctly. With a foreign genesis hash nothing
  changes. Otherwise the peer is in the table with the announced number and hash, no other
  peer is touched, and the known highest number becomes the maximum of the old one and the
  announced one.
\<close>

theorem updatePeerStatus_correct:
  assumes wf: "peers_wf cfg st" and upd: "updatePeerStatus peer status cfg st = (ok, cfg', st')"
  shows "ok = (m_genesisHash status = c_genesisHash cfg) \<and>
    (if ok then
       (\<exists>p. peerStatus peer st' = Some p \<and> ps_number p = msg_number status \<and> ps_hash p = m_hash status) \<and>
       (\<forall>other. np_data other \<noteq> np_data peer \<longrightarrow> peerStatus other st' = peerStatus other st) \<and>
       c_knownHighestNumber cfg' = max (c_knownHighestNumber cfg) (msg_number status)
     else cfg' = cfg \<and> st' = st)"
proof (cases "m_genesisHash status = c_genesisHash cfg")
  case gen: True
  show ?thesis
  proof (cases "map_of (m_peersStatus st) (np_data peer)")
    case None
    then show ?thesis
      using upd gen peers_wfD(1) [OF wf]
      by (auto simp: updatePeerStatus_def peerStatusOf_def newPeerStatus_def peerStatus_def
          known_updateKnownMaxBlockInfo)
  next
    case (Some p)
    obtain b p' where u: "peer_update status p = (b, p')" by force
    show ?thesis
      using upd gen Some u peer_update_announced(1,2) [OF peers_wfD(2) [OF wf Some] gen u]
        updatePeerStatus_known [OF wf gen Some]
      by (auto simp: updatePeerStatus_def peerStatus_def)
  qed
qed (use upd in \<open>simp add: updatePeerStatus_def\<close>)

definition demoConfig :: "BlockNumber \<Rightarrow> DemoSync BlockSyncConfig" where
  "demoConfig n = fst (resetConfig demoFramework (demoLedgerConfig n)
     (setGenesisHash (replicate 32 9) (newBlockSyncConfig demoSync)))"

definition announce :: "BlockNumber \<Rightarrow> BlockSyncStatusImpl" where
  "announce n = createBlockSyncStatusMsg n (replicate 32 (of_int n)) (replicate 32 9) 0"

lemma demoConfig_known [simp]: "c_knownHighestNumber (demoConfig 6) = 6"
  by code_simp

theorem updatePeerStatus_correct_witness:
  "\<exists>ok cfg' st'. updatePeerStatus (demoNode 1) (announce 20) (demoConfig 6) newSyncPeerStatus = (ok, cfg', st') \<and>
    ok = (m_genesisHash (announce 20) = c_genesisHash (demoConfig 6)) \<and>
    (if ok then
       (\<exists>p. peerStatus (demoNode 1) st' = Some p \<and> ps_number p = msg_number (announce 20) \<and>
          ps_hash p = m_hash (announce 20)) \<and>
       (\<forall>other. np_data other \<noteq> np_data (demoNode 1) \<longrightarrow>
          peerStatus other st' = peerStatus other newSyncPeerStatus) \<and>
       c_knownHighestNumber cfg' =
         max (c_knownHighestNumber (demoConfig 6)) (msg_number (announce 20))
     else cfg' = demoConfig 6 \<and> st' = newSyncPeerStatus)"
proof -
  obtain ok cfg' st' where
    "updatePeerStatus (demoNode 1) (announce 20) (demoConfig 6) newSyncPeerStatus = (ok, cfg', st')"
    by (metis prod_cases3)
  with updatePeerStatus_correct [OF peers_wf_new this] show ?thesis by blast
qed

text \<open>
  C33: the table invariant is kept by every operation on it: keys in order and equal to the
  nodes' keys, one request queue per peer, every queue a heap within its bound, every
  announced number at most the known highest one, every genesis hash the group's or unset.
\<close>

theorem peers_wf_preserved:
  assumes "peers_wf cfg st" and "0 \<le> c_knownHighestNumber cfg"
  shows "(case updatePeerStatus peer status cfg st of (ok, cfg', st') \<Rightarrow> peers_wf cfg' st') \<and>
    peers_wf cfg (snd (insertEmptyPeer peer st)) \<and>
    peers_wf cfg (deletePeer peer st) \<and> peers_wf cfg (push_at cfg a from sz st)"
  using assms updatePeerStatus_inv [OF assms(1)] peers_wf_insertEmptyPeer
  by (auto split: prod.split)

theorem peers_wf_preserved_witness:
  "(case updatePeerStatus (demoNode 1) (announce 20) (demoConfig 6) newSyncPeerStatus of
      (ok, cfg', st') \<Rightarrow> peers_wf cfg' st') \<and>
    peers_wf (demoConfig 6) (snd (insertEmptyPeer (demoNode 1) newSyncPeerStatus)) \<and>
    peers_wf (demoConfig 6) (deletePeer (demoNode 1) newSyncPeerStatus) \<and>
    peers_wf (demoConfig 6) (push_at (demoConfig 6) 0 3 4 newSyncPeerStatus)"
  by (rule peers_wf_preserved [OF peers_wf_new]) simp

text \<open>
  C34: \<^verbatim>\<open>foreachPeerRandom\<close> visits every peer exactly once: for any values of \<^verbatim>\<open>rand()\<close> it
  behaves as a visit of the peers of the table in some order, stopping early only when the
  visitor asks for it.
\<close>

theorem foreachPeerRandom_permutes:
  assumes "peers_wf cfg st"
  shows "\<exists>ps. mset ps = mset (map snd (m_peersStatus st)) \<and>
    foreachPeerRandom rnd f st s = visit f ps s"
  by (rule foreachPeerRandom_visit [OF peers_wfD(1) [OF assms]])

theorem foreachPeerRandom_permutes_witness:
  "\<exists>ps. mset ps = mset (map snd (m_peersStatus (snd (insertEmptyPeer (demoNode 2) newSyncPeerStatus)))) \<and>
    foreachPeerRandom (\<lambda>i. 7 * i) (\<lambda>p s. (True, ps_number p # s))
      (snd (insertEmptyPeer (demoNode 2) newSyncPeerStatus)) [] =
    visit (\<lambda>p s. (True, ps_number p # s)) ps []"
proof -
  have "peers_wf (demoConfig 6) (snd (insertEmptyPeer (demoNode 2) newSyncPeerStatus))"
    by (rule peers_wf_insertEmptyPeer [OF peers_wf_new]) simp
  then show ?thesis by (rule foreachPeerRandom_permutes)
qed

end
