(* ===== verification/DownloadingQueue.thy ===== *)
theory DownloadingQueue
  imports SyncPeerStatus
begin

text \<open>
  \<^verbatim>\<open>state/DownloadingQueue.h/.cpp\<close>: downloaded blocks on their way into the ledger. Packets wait
  in \<open>m_blockBuffer\<close>, decoded blocks in the priority queue \<open>m_blocks\<close>, executed blocks in
  \<open>m_commitQueue\<close>. A block is executed (\<open>applyBlock\<close>), verified, checked by the consensus module
  (\<open>checkAndCommitBlock\<close>), its transactions are stored (\<open>commitBlock\<close>), its state committed
  (\<open>commitBlockState\<close>) and the new height announced (\<open>finalizeBlock\<close>).

  Operations that reach the shared configuration or a service work on \<open>dq_world\<close>: the
  configuration, the queue and the calls made so far, in order. \<^verbatim>\<open>BlockSync\<close> extends this
  record, so the operations apply to its state as they are. Each callback passed to a
  service is an operation of its own, named after the service (\<open>onExecuted\<close>,
  \<open>onChecked\<close>, \<open>onStored\<close>, \<open>onCommitted\<close>), with the block its closure holds. The new-block
  handler registered by \<^verbatim>\<open>BlockSync\<close> is a parameter of \<open>finalizeBlock\<close>. The weak pointers
  to the queue are taken to be alive, and each operation runs without interleaving, as the
  queue's locks arrange.
\<close>

section \<open>The queue\<close>

definition BlockCmp :: "Block \<Rightarrow> Block \<Rightarrow> bool" where
  "BlockCmp first second \<longleftrightarrow> block_number first > block_number second"

record DownloadingQueue =
  m_blocks :: "Block list"
  m_blockBuffer :: "BlockSyncMsgImpl list"
  m_commitQueue :: "Block list"

definition newDownloadingQueue :: DownloadingQueue where
  "newDownloadingQueue = \<lparr>m_blocks = [], m_blockBuffer = [], m_commitQueue = []\<rparr>"

definition dq_push :: "'sc BlockSyncConfig \<Rightarrow> BlockSyncMsgImpl \<Rightarrow> DownloadingQueue \<Rightarrow> DownloadingQueue" where
  "dq_push cfg blocksData q =
     (if unat (c_maxDownloadingBlockQueueSize cfg) \<le> length (m_blockBuffer q) then q
      else q\<lparr>m_blockBuffer := m_blockBuffer q @ [blocksData]\<rparr>)"

definition dq_empty :: "DownloadingQueue \<Rightarrow> bool" where
  "dq_empty q \<longleftrightarrow> m_blocks q = [] \<and> m_blockBuffer q = []"

definition dq_size :: "DownloadingQueue \<Rightarrow> nat" where
  "dq_size q = length (m_blockBuffer q) + length (m_blocks q)"

definition dq_pop :: "DownloadingQueue \<Rightarrow> DownloadingQueue" where
  "dq_pop q = (if m_blocks q \<noteq> [] then q\<lparr>m_blocks := pq_pop BlockCmp (m_blocks q)\<rparr> else q)"

text \<open>\<^verbatim>\<open>top()\<close> with its default argument; \<open>dq_topFlush\<close> below is \<^verbatim>\<open>top(true)\<close>.\<close>

definition dq_top :: "DownloadingQueue \<Rightarrow> Block option" where
  "dq_top q = pq_top (m_blocks q)"

definition clearQueue :: "DownloadingQueue \<Rightarrow> DownloadingQueue" where
  "clearQueue q = q\<lparr>m_blocks := []\<rparr>"

definition dq_clear :: "DownloadingQueue \<Rightarrow> DownloadingQueue" where
  "dq_clear q = clearQueue (q\<lparr>m_blockBuffer := []\<rparr>)"

definition isNewerBlock :: "'sc BlockSyncConfig \<Rightarrow> Block \<Rightarrow> bool" where
  "isNewerBlock cfg block = (if block_number block \<le> c_blockNumber cfg then False else True)"

text \<open>The loop body of \<^verbatim>\<open>flushOneShard\<close>: a block that does not decode is skipped.\<close>

definition flushBlock ::
  "'sc Framework \<Rightarrow> 'sc BlockSyncConfig \<Rightarrow> BlockSyncMsgImpl \<Rightarrow> nat \<Rightarrow> DownloadingQueue \<Rightarrow> DownloadingQueue" where
  "flushBlock F cfg blocksData i q =
     (case Option.bind (blockData blocksData i) (fw_createBlock F) of
        None \<Rightarrow> q
      | Some block \<Rightarrow>
          if isNewerBlock cfg block then q\<lparr>m_blocks := pq_push BlockCmp block (m_blocks q)\<rparr> else q)"

definition flushOneShard ::
  "'sc Framework \<Rightarrow> 'sc BlockSyncConfig \<Rightarrow> BlockSyncMsgImpl \<Rightarrow> DownloadingQueue \<Rightarrow> bool \<times> DownloadingQueue" where
  "flushOneShard F cfg blocksData q =
     (if unat (c_maxDownloadingBlockQueueSize cfg) \<le> length (m_blocks q) then (False, q)
      else (True, fold (flushBlock F cfg blocksData) [0 ..< blocksSize blocksData] q))"

lemma flushBlock_buffer [simp]: "m_blockBuffer (flushBlock F cfg msg i q) = m_blockBuffer q"
  by (simp add: flushBlock_def split: option.split)

lemma flushBlocks_buffer [simp]: "m_blockBuffer (fold (flushBlock F cfg msg) is q) = m_blockBuffer q"
  by (induction "is" arbitrary: q) simp_all

lemma flushOneShard_buffer [simp]: "m_blockBuffer (snd (flushOneShard F cfg msg q)) = m_blockBuffer q"
  by (simp add: flushOneShard_def)

text \<open>The loop of \<^verbatim>\<open>flushBufferToQueue\<close>: the shard leaves the buffer before it is flushed.\<close>

function flushBuffer ::
  "'sc Framework \<Rightarrow> 'sc BlockSyncConfig \<Rightarrow> bool \<Rightarrow> DownloadingQueue \<Rightarrow> DownloadingQueue" where
  "flushBuffer F cfg ret q =
     (case m_blockBuffer q of
        [] \<Rightarrow> q
      | blocksShard # rest \<Rightarrow>
          if ret
          then let r = flushOneShard F cfg blocksShard (q\<lparr>m_blockBuffer := rest\<rparr>)
               in flushBuffer F cfg (fst r) (snd r)
          else q)"
  by pat_completeness auto
termination
  by (relation "measure (\<lambda>(F, cfg, ret, q). length (m_blockBuffer q))") (simp_all add: case_prod_unfold)

declare flushBuffer.simps [simp del]

definition flushBufferToQueue ::
  "'sc Framework \<Rightarrow> 'sc BlockSyncConfig \<Rightarrow> DownloadingQueue \<Rightarrow> DownloadingQueue" where
  "flushBufferToQueue F cfg q = flushBuffer F cfg True q"

definition dq_topFlush ::
  "'sc Framework \<Rightarrow> 'sc BlockSyncConfig \<Rightarrow> DownloadingQueue \<Rightarrow> Block option \<times> DownloadingQueue" where
  "dq_topFlush F cfg q = (let q' = flushBufferToQueue F cfg q in (pq_top (m_blocks q'), q'))"

text \<open>
  \<^verbatim>\<open>top()\<close> is read only when the size equals the limit; with a limit of zero that would be the
  top of an empty queue, for which clearing has no effect either way.
\<close>

definition clearFullQueueIfNotHas ::
  "'sc BlockSyncConfig \<Rightarrow> BlockNumber \<Rightarrow> DownloadingQueue \<Rightarrow> DownloadingQueue" where
  "clearFullQueueIfNotHas cfg n q =
     (let needClear = (length (m_blocks q) = unat (c_maxDownloadingBlockQueueSize cfg) \<and>
        (case pq_top (m_blocks q) of None \<Rightarrow> False | Some b \<Rightarrow> block_number b > n))
      in if needClear then clearQueue q else q)"

definition clearExpiredCache :: "'sc BlockSyncConfig \<Rightarrow> Block list \<Rightarrow> Block list" where
  "clearExpiredCache cfg queue =
     pop_while BlockCmp (\<lambda>b. block_number b \<le> c_blockNumber cfg) queue"

definition clearExpiredQueueCache :: "'sc BlockSyncConfig \<Rightarrow> DownloadingQueue \<Rightarrow> DownloadingQueue" where
  "clearExpiredQueueCache cfg q =
     (let q1 = q\<lparr>m_blocks := clearExpiredCache cfg (m_blocks q)\<rparr>
      in q1\<lparr>m_commitQueue := clearExpiredCache cfg (m_commitQueue q1)\<rparr>)"

definition commitQueueSize :: "DownloadingQueue \<Rightarrow> nat" where
  "commitQueueSize q = length (m_commitQueue q)"

section \<open>From the queue to the ledger\<close>

record 'sc dq_world =
  m_config :: "'sc BlockSyncConfig"
  m_downloadingQueue :: DownloadingQueue
  calls :: "call list"

definition emit :: "call \<Rightarrow> ('sc, 'z) dq_world_scheme \<Rightarrow> ('sc, 'z) dq_world_scheme" where
  "emit c w = w\<lparr>calls := calls w @ [c]\<rparr>"

text \<open>\<^verbatim>\<open>m_config->setExecutedBlock(n)\<close>.\<close>

definition setExecuted :: "BlockNumber \<Rightarrow> ('sc, 'z) dq_world_scheme \<Rightarrow> ('sc, 'z) dq_world_scheme" where
  "setExecuted n w = w\<lparr>m_config := setExecutedBlock n (m_config w)\<rparr>"

definition verifyExecutedBlock :: "Block \<Rightarrow> BlockHeader \<Rightarrow> bool" where
  "verifyExecutedBlock block header =
     (if bh_hash (blockHeader block) \<noteq> bh_hash header then False else True)"

definition applyBlock :: "Block \<Rightarrow> ('sc, 'z) dq_world_scheme \<Rightarrow> ('sc, 'z) dq_world_scheme" where
  "applyBlock block w =
     (if block_number block \<le> c_blockNumber (m_config w)
      then setExecuted (c_blockNumber (m_config w)) w
      else emit (ExecuteBlock block) w)"

definition checkAndCommitBlock ::
  "Block \<Rightarrow> ('sc, 'z) dq_world_scheme \<Rightarrow> bool \<times> ('sc, 'z) dq_world_scheme" where
  "checkAndCommitBlock block w =
     (if block_number block \<noteq> c_nextBlock (m_config w)
      then (False, setExecuted (c_blockNumber (m_config w)) w)
      else (True, emit (CheckBlock block) w))"

definition tryToCommitBlockToLedger :: "('sc, 'z) dq_world_scheme \<Rightarrow> ('sc, 'z) dq_world_scheme" where
  "tryToCommitBlockToLedger w =
     (if m_commitQueue (m_downloadingQueue w) = [] then w
      else let q = pop_while BlockCmp (\<lambda>b. block_number b \<le> c_blockNumber (m_config w))
                     (m_commitQueue (m_downloadingQueue w))
           in case pq_top q of
                None \<Rightarrow> w\<lparr>m_downloadingQueue := (m_downloadingQueue w)\<lparr>m_commitQueue := q\<rparr>\<rparr>
              | Some block \<Rightarrow>
                  if block_number block = c_nextBlock (m_config w)
                  then snd (checkAndCommitBlock block
                    (w\<lparr>m_downloadingQueue := (m_downloadingQueue w)\<lparr>m_commitQueue := pq_pop BlockCmp q\<rparr>\<rparr>))
                  else w\<lparr>m_downloadingQueue := (m_downloadingQueue w)\<lparr>m_commitQueue := q\<rparr>\<rparr>)"

definition updateCommitQueue :: "Block \<Rightarrow> ('sc, 'z) dq_world_scheme \<Rightarrow> ('sc, 'z) dq_world_scheme" where
  "updateCommitQueue block w =
     tryToCommitBlockToLedger (w\<lparr>m_downloadingQueue := (m_downloadingQueue w)
       \<lparr>m_commitQueue := pq_push BlockCmp block (m_commitQueue (m_downloadingQueue w))\<rparr>\<rparr>)"

text \<open>The callback of \<^verbatim>\<open>scheduler->executeBlock\<close> in \<^verbatim>\<open>applyBlock\<close>.\<close>

definition onExecuted ::
  "Block \<Rightarrow> BlockHeader answer \<Rightarrow> ('sc, 'z) dq_world_scheme \<Rightarrow> ('sc, 'z) dq_world_scheme" where
  "onExecuted block ans w =
     (case ans of
        Inl _ \<Rightarrow> setExecuted (c_blockNumber (m_config w)) w
      | Inr header \<Rightarrow>
          if \<not> verifyExecutedBlock block header
          then setExecuted (c_blockNumber (m_config w)) w
          else updateCommitQueue block (setExecuted (block_number block) w))"

definition commitBlockState :: "Block \<Rightarrow> ('sc, 'z) dq_world_scheme \<Rightarrow> ('sc, 'z) dq_world_scheme" where
  "commitBlockState block w = emit (CommitBlock block) w"

text \<open>\<^verbatim>\<open>commitBlock\<close> does not return after it has committed the state of an empty block.\<close>

definition commitBlock :: "Block \<Rightarrow> ('sc, 'z) dq_world_scheme \<Rightarrow> ('sc, 'z) dq_world_scheme" where
  "commitBlock block w =
     (let w1 = (if transactionsSize block = 0 then commitBlockState block w else w);
          txsData = map tx_encoded (transactions block);
          txsHashList = map tx_hash (transactions block)
      in emit (StoreTransactions txsData txsHashList block) w1)"

text \<open>The callback of \<^verbatim>\<open>consensus->asyncCheckBlock\<close>.\<close>

definition onChecked ::
  "Block \<Rightarrow> bool answer \<Rightarrow> ('sc, 'z) dq_world_scheme \<Rightarrow> ('sc, 'z) dq_world_scheme" where
  "onChecked block ans w =
     (case ans of
        Inl _ \<Rightarrow> setExecuted (i64 (block_number block - 1)) w
      | Inr ret \<Rightarrow> if ret then commitBlock block w else setExecuted (i64 (block_number block - 1)) w)"

text \<open>The callback of \<^verbatim>\<open>ledger->asyncStoreTransactions\<close>.\<close>

definition onStored ::
  "Block \<Rightarrow> unit answer \<Rightarrow> ('sc, 'z) dq_world_scheme \<Rightarrow> ('sc, 'z) dq_world_scheme" where
  "onStored block ans w =
     (case ans of
        Inl _ \<Rightarrow> setExecuted (i64 (block_number block - 1)) w
      | Inr _ \<Rightarrow> commitBlockState block w)"

definition finalizeBlock ::
  "(LedgerConfig \<Rightarrow> ('sc, 'z) dq_world_scheme \<Rightarrow> ('sc, 'z) dq_world_scheme) option \<Rightarrow> LedgerConfig \<Rightarrow>
   ('sc, 'z) dq_world_scheme \<Rightarrow> ('sc, 'z) dq_world_scheme" where
  "finalizeBlock newBlockHandler lc w =
     tryToCommitBlockToLedger (case newBlockHandler of None \<Rightarrow> w | Some h \<Rightarrow> h lc w)"

text \<open>The callback of \<^verbatim>\<open>scheduler->commitBlock\<close>.\<close>

definition onCommitted ::
  "(LedgerConfig \<Rightarrow> ('sc, 'z) dq_world_scheme \<Rightarrow> ('sc, 'z) dq_world_scheme) option \<Rightarrow> Block \<Rightarrow>
   LedgerConfig answer \<Rightarrow> ('sc, 'z) dq_world_scheme \<Rightarrow> ('sc, 'z) dq_world_scheme" where
  "onCommitted newBlockHandler block ans w =
     (case ans of
        Inl _ \<Rightarrow> setExecuted (i64 (block_number block - 1)) w
      | Inr lc \<Rightarrow>
          let lc1 = lc\<lparr>lc_txsSize := transactionsSize block\<rparr>;
              lc2 = lc1\<lparr>lc_sealerId := bh_sealer (blockHeader block)\<rparr>
          in finalizeBlock newBlockHandler lc2 w)"

section \<open>The order of the blocks\<close>

interpretation blk: strict_weak_order BlockCmp
  by unfold_locales (auto simp: BlockCmp_def)

abbreviation blk_heap :: "Block list \<Rightarrow> bool" where
  "blk_heap \<equiv> is_heap BlockCmp"

lemma blk_top_least: "blk_heap q \<Longrightarrow> pq_top q = Some t \<Longrightarrow> b \<in> set q \<Longrightarrow> block_number t \<le> block_number b"
  using blk.top_maximal [of q t b] by (simp add: BlockCmp_def)

lemma mset_blk_pop_while:
  "blk_heap q \<Longrightarrow> mset (pop_while BlockCmp (\<lambda>b. block_number b \<le> n) q) = filter_mset (\<lambda>b. n < block_number b) (mset q)"
  by (subst blk.mset_pop_while) (auto simp: BlockCmp_def not_le)

lemma set_blk_pop_while:
  "blk_heap q \<Longrightarrow> set (pop_while BlockCmp (\<lambda>b. block_number b \<le> n) q) = {b \<in> set q. n < block_number b}"
  using arg_cong [OF mset_blk_pop_while, of q set_mset n] by simp

section \<open>Flushing\<close>

text \<open>The blocks of a packet that decode and are newer than the ledger, in order.\<close>

definition newBlocksOf :: "'sc Framework \<Rightarrow> 'sc BlockSyncConfig \<Rightarrow> BlockSyncMsgImpl \<Rightarrow> Block list" where
  "newBlocksOf F cfg msg =
     filter (\<lambda>b. c_blockNumber cfg < block_number b)
       (List.map_filter (fw_createBlock F) (pb_blocksData (m_syncMessage msg)))"

definition dq_wf :: "'sc BlockSyncConfig \<Rightarrow> DownloadingQueue \<Rightarrow> bool" where
  "dq_wf cfg q \<longleftrightarrow> blk_heap (m_blocks q) \<and> blk_heap (m_commitQueue q) \<and>
     length (m_blockBuffer q) \<le> unat (c_maxDownloadingBlockQueueSize cfg)"

lemma isNewerBlock_iff [simp]: "isNewerBlock cfg b \<longleftrightarrow> c_blockNumber cfg < block_number b"
  by (simp add: isNewerBlock_def)

lemma flushBlock_commit [simp]: "m_commitQueue (flushBlock F cfg msg i q) = m_commitQueue q"
  by (simp add: flushBlock_def split: option.split)

lemma flushBlocks_commit [simp]: "m_commitQueue (fold (flushBlock F cfg msg) is q) = m_commitQueue q"
  by (induction "is" arbitrary: q) simp_all

lemma flushBlocks_heap: "blk_heap (m_blocks q) \<Longrightarrow> blk_heap (m_blocks (fold (flushBlock F cfg msg) is q))"
proof (induction "is" arbitrary: q)
  case (Cons i "is")
  then have "blk_heap (m_blocks (flushBlock F cfg msg i q))"
    by (simp add: flushBlock_def blk.is_heap_push split: option.split)
  with Cons.IH show ?case by simp
qed simp

lemma flushBlocks_mset:
  "k \<le> blocksSize msg \<Longrightarrow>
   mset (m_blocks (fold (flushBlock F cfg msg) [0 ..< k] q)) =
     mset (m_blocks q) + mset (filter (\<lambda>b. c_blockNumber cfg < block_number b)
       (List.map_filter (fw_createBlock F) (take k (pb_blocksData (m_syncMessage msg)))))"
proof (induction k)
  case (Suc k)
  define d where "d = pb_blocksData (m_syncMessage msg) ! k"
  have k: "k < length (pb_blocksData (m_syncMessage msg))"
    using Suc.prems by (simp add: blocksSize_def)
  then have "blockData msg k = Some d" by (simp add: blockData_def blocksSize_def d_def)
  then show ?case
    using Suc.IH Suc.prems k
    by (auto simp: take_Suc_conv_app_nth map_filter_simps List.map_filter_def flushBlock_def
        d_def [symmetric] split: option.split)
qed (simp add: map_filter_simps)

lemma flushOneShard_mset:
  "flushOneShard F cfg msg q = (True, q') \<Longrightarrow>
   mset (m_blocks q') = mset (m_blocks q) + mset (newBlocksOf F cfg msg)"
  using flushBlocks_mset [of "blocksSize msg" msg F cfg q]
  by (auto simp: flushOneShard_def newBlocksOf_def blocksSize_def split: if_splits)

lemma flushOneShard_heap:
  "blk_heap (m_blocks q) \<Longrightarrow> flushOneShard F cfg msg q = (r, q') \<Longrightarrow> blk_heap (m_blocks q')"
  by (auto simp: flushOneShard_def flushBlocks_heap split: if_splits)

lemma flushOneShard_commit:
  "flushOneShard F cfg msg q = (r, q') \<Longrightarrow> m_commitQueue q' = m_commitQueue q \<and> m_blockBuffer q' = m_blockBuffer q"
  by (auto simp: flushOneShard_def split: if_splits)

lemma flushOneShard_full:
  "flushOneShard F cfg msg q = (False, q') \<Longrightarrow>
   q' = q \<and> unat (c_maxDownloadingBlockQueueSize cfg) \<le> length (m_blocks q)"
  by (auto simp: flushOneShard_def split: if_splits)

lemma flushOneShard_room:
  "flushOneShard F cfg msg q = (True, q') \<Longrightarrow> length (m_blocks q) < unat (c_maxDownloadingBlockQueueSize cfg)"
  by (simp add: flushOneShard_def split: if_splits)

lemma flushBuffer_False [simp]: "flushBuffer F cfg False q = q"
  by (simp add: flushBuffer.simps split: list.split)

lemma flushBuffer_True_Nil [simp]: "m_blockBuffer q = [] \<Longrightarrow> flushBuffer F cfg True q = q"
  by (simp add: flushBuffer.simps)

text \<open>
  What a flush does: the first \<open>n\<close> packets are decoded into the queue, which had room before each
  of them; if some packet is left over, the queue was full, that packet is lost and the ones
  behind it stay.
\<close>

lemma flushBuffer_spec:
  assumes "blk_heap (m_blocks q)" and "flushBuffer F cfg True q = q'"
  shows "\<exists>n \<le> length (m_blockBuffer q).
    mset (m_blocks q') = mset (m_blocks q) + mset (concat (map (newBlocksOf F cfg) (take n (m_blockBuffer q)))) \<and>
    m_blockBuffer q' = drop (Suc n) (m_blockBuffer q) \<and> m_commitQueue q' = m_commitQueue q \<and>
    blk_heap (m_blocks q') \<and>
    (n < length (m_blockBuffer q) \<longrightarrow> unat (c_maxDownloadingBlockQueueSize cfg) \<le> length (m_blocks q')) \<and>
    (\<forall>i < n. length (m_blocks q) + length (concat (map (newBlocksOf F cfg) (take i (m_blockBuffer q)))) <
       unat (c_maxDownloadingBlockQueueSize cfg))"
  using assms
proof (induction "length (m_blockBuffer q)" arbitrary: q)
  case 0
  then show ?case by (auto intro: exI [of _ 0])
next
  case (Suc len)
  then obtain shard rest where buf: "m_blockBuffer q = shard # rest"
    by (cases "m_blockBuffer q") auto
  obtain r q1 where sh: "flushOneShard F cfg shard (q\<lparr>m_blockBuffer := rest\<rparr>) = (r, q1)" by force
  have q': "flushBuffer F cfg r q1 = q'"
    using Suc.prems(2) buf sh by (simp add: flushBuffer.simps [of F cfg True q])
  have buf1: "m_blockBuffer q1 = rest" and com1: "m_commitQueue q1 = m_commitQueue q"
    using flushOneShard_commit [OF sh] by simp_all
  show ?case
  proof (cases r)
    case True
    have heap1: "blk_heap (m_blocks q1)" using flushOneShard_heap [OF _ sh] Suc.prems(1) by simp
    obtain n where n: "n \<le> length rest"
      "mset (m_blocks q') = mset (m_blocks q1) + mset (concat (map (newBlocksOf F cfg) (take n rest)))"
      "m_blockBuffer q' = drop (Suc n) rest" "m_commitQueue q' = m_commitQueue q1"
      "blk_heap (m_blocks q')"
      "n < length rest \<longrightarrow> unat (c_maxDownloadingBlockQueueSize cfg) \<le> length (m_blocks q')"
      "\<forall>i < n. length (m_blocks q1) + length (concat (map (newBlocksOf F cfg) (take i rest))) <
        unat (c_maxDownloadingBlockQueueSize cfg)"
      using Suc.hyps(1) [of q1] Suc.hyps(2) buf buf1 heap1 q' True by auto
    moreover have new: "mset (m_blocks q1) = mset (m_blocks q) + mset (newBlocksOf F cfg shard)"
      using flushOneShard_mset [of F cfg shard "q\<lparr>m_blockBuffer := rest\<rparr>" q1] sh True by simp
    moreover have "length (m_blocks q1) = length (m_blocks q) + length (newBlocksOf F cfg shard)"
      using arg_cong [OF new, of size] by simp
    moreover have "length (m_blocks q) < unat (c_maxDownloadingBlockQueueSize cfg)"
      using flushOneShard_room [of F cfg shard "q\<lparr>m_blockBuffer := rest\<rparr>" q1] sh True by simp
    ultimately show ?thesis
      using buf com1 by (intro exI [of _ "Suc n"]) (simp add: All_less_Suc2 add.assoc [symmetric])
  next
    case False
    then have "q' = q1" using q' by simp
    moreover have "m_blocks q1 = m_blocks q"
      "unat (c_maxDownloadingBlockQueueSize cfg) \<le> length (m_blocks q1)"
      using flushOneShard_full [of F cfg shard "q\<lparr>m_blockBuffer := rest\<rparr>" q1] sh False by auto
    ultimately show ?thesis
      using buf buf1 com1 Suc.prems(1) by (intro exI [of _ 0]) simp
  qed
qed

section \<open>Committing\<close>

lemma emit_simps [simp]:
  "m_config (emit c w) = m_config w" "m_downloadingQueue (emit c w) = m_downloadingQueue w"
  "calls (emit c w) = calls w @ [c]" "dq_world.more (emit c w) = dq_world.more w"
  by (simp_all add: emit_def)

lemma setExecuted_simps [simp]:
  "m_config (setExecuted n w) = setExecutedBlock n (m_config w)"
  "m_downloadingQueue (setExecuted n w) = m_downloadingQueue w"
  "calls (setExecuted n w) = calls w" "dq_world.more (setExecuted n w) = dq_world.more w"
  by (simp_all add: setExecuted_def)

abbreviation with_commitQueue ::
  "Block list \<Rightarrow> ('sc, 'z) dq_world_scheme \<Rightarrow> ('sc, 'z) dq_world_scheme" where
  "with_commitQueue q w \<equiv> w\<lparr>m_downloadingQueue := (m_downloadingQueue w)\<lparr>m_commitQueue := q\<rparr>\<rparr>"

text \<open>The commit queue without the blocks the ledger has already passed.\<close>

abbreviation live_commits :: "('sc, 'z) dq_world_scheme \<Rightarrow> Block multiset" where
  "live_commits w \<equiv> filter_mset (\<lambda>b. c_blockNumber (m_config w) < block_number b)
     (mset (m_commitQueue (m_downloadingQueue w)))"

text \<open>When the queue's top is not the next block, no block of the queue is.\<close>

lemma idle_no_next:
  assumes "mset q = live_commits w" "blk_heap q" "\<And>t. pq_top q = Some t \<Longrightarrow> block_number t \<noteq> c_nextBlock (m_config w)"
    and "c_nextBlock (m_config w) = c_blockNumber (m_config w) + 1"
  shows "\<not> (\<exists>b \<in> set (m_commitQueue (m_downloadingQueue w)). block_number b = c_blockNumber (m_config w) + 1)"
proof
  assume "\<exists>b \<in> set (m_commitQueue (m_downloadingQueue w)). block_number b = c_blockNumber (m_config w) + 1"
  then obtain b where b: "b \<in># live_commits w" "block_number b = c_blockNumber (m_config w) + 1" by force
  then have "b \<in> set q" using assms(1) by (metis set_mset_mset)
  then obtain t where t: "pq_top q = Some t" by (cases "pq_top q") auto
  have "t \<in># live_commits w" using t assms(1) by (metis pq_top_SomeD set_mset_mset)
  moreover have "block_number t \<le> block_number b" by (rule blk_top_least [OF assms(2) t \<open>b \<in> set q\<close>])
  ultimately show False using assms(3) [OF t] b assms(4) by simp
qed

lemma tryToCommit_cases:
  assumes heap: "blk_heap (m_commitQueue (m_downloadingQueue w))"
  obtains
    (idle) q where "tryToCommitBlockToLedger w = with_commitQueue q w" "blk_heap q"
      "mset q = live_commits w" "\<And>t. pq_top q = Some t \<Longrightarrow> block_number t \<noteq> c_nextBlock (m_config w)"
  | (check) q b where "tryToCommitBlockToLedger w = emit (CheckBlock b) (with_commitQueue q w)"
      "blk_heap q" "live_commits w = add_mset b (mset q)" "block_number b = c_nextBlock (m_config w)"
proof -
  let ?cq = "m_commitQueue (m_downloadingQueue w)"
  let ?q = "pop_while BlockCmp (\<lambda>b. block_number b \<le> c_blockNumber (m_config w)) ?cq"
  have q: "blk_heap ?q" "mset ?q = live_commits w"
    using heap by (simp_all add: blk.is_heap_pop_while mset_blk_pop_while)
  show thesis
  proof (cases "\<exists>b. pq_top ?q = Some b \<and> block_number b = c_nextBlock (m_config w)")
    case True
    then obtain b where b: "pq_top ?q = Some b" "block_number b = c_nextBlock (m_config w)" by blast
    then have "?cq \<noteq> []" by auto
    with b have "tryToCommitBlockToLedger w = emit (CheckBlock b) (with_commitQueue (pq_pop BlockCmp ?q) w)"
      by (simp add: tryToCommitBlockToLedger_def checkAndCommitBlock_def)
    moreover have "live_commits w = add_mset b (mset (pq_pop BlockCmp ?q))"
      using blk.mset_top_pop [OF b(1)] q(2) by simp
    ultimately show thesis using check b q blk.is_heap_pop by blast
  next
    case False
    have "tryToCommitBlockToLedger w = with_commitQueue ?q w"
    proof (cases "?cq = []")
      case True
      then have "with_commitQueue ?q w = w" by simp
      with True show ?thesis by (simp add: tryToCommitBlockToLedger_def)
    qed (use False in \<open>auto simp: tryToCommitBlockToLedger_def Let_def split: option.splits\<close>)
    with False q show thesis using idle by blast
  qed
qed

lemma tryToCommit_frame [simp]:
  "m_config (tryToCommitBlockToLedger w) = m_config w"
  "dq_world.more (tryToCommitBlockToLedger w) = dq_world.more w"
  "m_blocks (m_downloadingQueue (tryToCommitBlockToLedger w)) = m_blocks (m_downloadingQueue w)"
  "m_blockBuffer (m_downloadingQueue (tryToCommitBlockToLedger w)) = m_blockBuffer (m_downloadingQueue w)"
  by (simp_all add: tryToCommitBlockToLedger_def checkAndCommitBlock_def Let_def split: option.split)

section \<open>The contract of the operations\<close>

text \<open>
  What every step of the pipeline promises: the configuration only advances, the queue
  stays well-formed, calls are only added.
\<close>

definition dq_safe :: "('sc, 'z) dq_world_scheme \<Rightarrow> ('sc, 'z) dq_world_scheme \<Rightarrow> bool" where
  "dq_safe w w' \<longleftrightarrow> advances (m_config w) (m_config w') \<and>
     (dq_wf (m_config w) (m_downloadingQueue w) \<longrightarrow> dq_wf (m_config w') (m_downloadingQueue w')) \<and>
     (\<exists>cs. calls w' = calls w @ cs)"

lemma dq_safe_refl [simp, intro]: "dq_safe w w"
  by (simp add: dq_safe_def)

lemma dq_safe_trans [trans]: "dq_safe a b \<Longrightarrow> dq_safe b c \<Longrightarrow> dq_safe a c"
  by (auto simp: dq_safe_def intro: advances_trans)

lemma dq_wf_advances: "advances cfg cfg' \<Longrightarrow> dq_wf cfg' q = dq_wf cfg q"
  by (simp add: advances_def dq_wf_def)

lemma dq_safe_emit [intro]: "dq_safe w (emit c w)"
  by (simp add: dq_safe_def)

lemma dq_safe_setExecuted [intro]: "dq_safe w (setExecuted n w)"
  by (simp add: dq_safe_def advances_setExecutedBlock dq_wf_advances [OF advances_setExecutedBlock])

lemma dq_safe_tryToCommit [intro]: "dq_safe w (tryToCommitBlockToLedger w)"
proof (cases "blk_heap (m_commitQueue (m_downloadingQueue w))")
  case True
  then show ?thesis
    by (cases rule: tryToCommit_cases) (auto simp: dq_safe_def dq_wf_def)
next
  case False
  have "\<exists>cs. calls (tryToCommitBlockToLedger w) = calls w @ cs"
    by (simp add: tryToCommitBlockToLedger_def checkAndCommitBlock_def Let_def split: option.split)
  with False show ?thesis by (simp add: dq_safe_def dq_wf_def)
qed

lemma dq_safe_updateCommitQueue [intro]: "dq_safe w (updateCommitQueue b w)"
proof -
  have "dq_safe w (with_commitQueue (pq_push BlockCmp b (m_commitQueue (m_downloadingQueue w))) w)"
    by (auto simp: dq_safe_def dq_wf_def blk.is_heap_push)
  also have "dq_safe \<dots> (updateCommitQueue b w)"
    unfolding updateCommitQueue_def by blast
  finally show ?thesis .
qed

lemma dq_safe_applyBlock [intro]: "dq_safe w (applyBlock b w)"
  by (auto simp: applyBlock_def)

lemma dq_safe_onExecuted [intro]: "dq_safe w (onExecuted b ans w)"
  using dq_safe_trans [OF dq_safe_setExecuted dq_safe_updateCommitQueue]
  by (auto simp: onExecuted_def split: sum.split)

lemma dq_safe_commitBlock [intro]: "dq_safe w (commitBlock b w)"
  using dq_safe_trans [OF dq_safe_emit dq_safe_emit]
  by (auto simp: commitBlock_def commitBlockState_def Let_def)

lemma dq_safe_onChecked [intro]: "dq_safe w (onChecked b ans w)"
  by (auto simp: onChecked_def split: sum.split)

lemma dq_safe_onStored [intro]: "dq_safe w (onStored b ans w)"
  by (auto simp: onStored_def commitBlockState_def split: sum.split)

text \<open>
  What the queue expects of the new-block handler that is registered with it: it is
  itself such a step, it brings the node at least to the height it is given, and it
  takes blocks out of the queues but puts none in.
\<close>

locale new_block_handler =
  fixes handler :: "LedgerConfig \<Rightarrow> ('sc, 'z) dq_world_scheme \<Rightarrow> ('sc, 'z) dq_world_scheme"
  assumes handler_safe:
      "height (lc_blockNumber lc) \<Longrightarrow> 0 \<le> c_blockNumber (m_config w) \<Longrightarrow> dq_safe w (handler lc w)"
    and handler_height: "lc_blockNumber lc \<le> c_blockNumber (m_config (handler lc w))"
    and handler_queue: "blk_heap (m_commitQueue (m_downloadingQueue w)) \<Longrightarrow>
      set (m_commitQueue (m_downloadingQueue (handler lc w))) \<subseteq> set (m_commitQueue (m_downloadingQueue w))"
    and handler_more: "dq_world.more (handler lc w) = dq_world.more w"
begin

lemma dq_safe_onCommitted:
  assumes "0 \<le> c_blockNumber (m_config w)" and "\<And>lc. ans = Inr lc \<Longrightarrow> height (lc_blockNumber lc)"
  shows "dq_safe w (onCommitted (Some handler) b ans w)"
proof (cases ans)
  case (Inr lc)
  let ?lc = "lc\<lparr>lc_txsSize := transactionsSize b, lc_sealerId := bh_sealer (blockHeader b)\<rparr>"
  have "dq_safe w (handler ?lc w)" using assms Inr by (intro handler_safe) simp_all
  also have "dq_safe \<dots> (tryToCommitBlockToLedger (handler ?lc w))" by blast
  finally show ?thesis using Inr by (simp add: onCommitted_def finalizeBlock_def)
qed (auto simp: onCommitted_def)

text \<open>After a successful commit the node has reached the height the scheduler reported.\<close>

lemma onCommitted_height:
  "lc_blockNumber lc \<le> c_blockNumber (m_config (onCommitted (Some handler) b (Inr lc) w))"
  using handler_height [of "lc\<lparr>lc_txsSize := transactionsSize b, lc_sealerId := bh_sealer (blockHeader b)\<rparr>" w]
  by (simp add: onCommitted_def finalizeBlock_def)

lemma onCommitted_more: "dq_world.more (onCommitted (Some handler) b ans w) = dq_world.more w"
  by (simp add: onCommitted_def finalizeBlock_def handler_more split: sum.split)

end

section \<open>Bounds\<close>

lemma newBlocksOf_le: "length (newBlocksOf F cfg msg) \<le> blocksSize msg"
  unfolding newBlocksOf_def blocksSize_def List.map_filter_def
  by (metis (no_types, lifting) length_filter_le length_map order_trans)

text \<open>Packets as \<^verbatim>\<open>fetchAndSendBlock\<close> makes them hold one block.\<close>

definition single_packets :: "DownloadingQueue \<Rightarrow> bool" where
  "single_packets q \<longleftrightarrow> (\<forall>msg \<in> set (m_blockBuffer q). blocksSize msg \<le> 1)"

lemma flushOneShard_bound:
  assumes "flushOneShard F cfg msg q = (r, q')" "blocksSize msg \<le> 1"
    and "length (m_blocks q) \<le> unat (c_maxDownloadingBlockQueueSize cfg)"
  shows "length (m_blocks q') \<le> unat (c_maxDownloadingBlockQueueSize cfg)"
proof (cases r)
  case True
  then have "mset (m_blocks q') = mset (m_blocks q) + mset (newBlocksOf F cfg msg)"
    using assms(1) by (intro flushOneShard_mset) simp
  then have "length (m_blocks q') = length (m_blocks q) + length (newBlocksOf F cfg msg)"
    by (metis mset_append length_append size_mset)
  moreover have "length (m_blocks q) < unat (c_maxDownloadingBlockQueueSize cfg)"
    using assms(1) True by (auto simp: flushOneShard_def split: if_splits)
  ultimately show ?thesis using assms(2) newBlocksOf_le [of F cfg msg] by linarith
next
  case False
  with assms flushOneShard_full [of F cfg msg q q'] show ?thesis by simp
qed

lemma flushBuffer_bound:
  "single_packets q \<Longrightarrow> length (m_blocks q) \<le> unat (c_maxDownloadingBlockQueueSize cfg) \<Longrightarrow>
   length (m_blocks (flushBuffer F cfg ret q)) \<le> unat (c_maxDownloadingBlockQueueSize cfg)"
proof (induction F cfg ret q rule: flushBuffer.induct)
  case (1 F cfg ret q)
  show ?case
  proof (cases "m_blockBuffer q")
    case (Cons shard rest)
    obtain r q1 where sh: "flushOneShard F cfg shard (q\<lparr>m_blockBuffer := rest\<rparr>) = (r, q1)" by force
    have "length (m_blocks q1) \<le> unat (c_maxDownloadingBlockQueueSize cfg)"
      using flushOneShard_bound [OF sh] 1 Cons by (simp add: single_packets_def)
    moreover have "single_packets q1"
      using 1 Cons flushOneShard_commit [OF sh] by (simp add: single_packets_def)
    ultimately show ?thesis
      using 1(1) [OF Cons _ refl] 1(3) Cons sh by (auto simp: flushBuffer.simps [of F cfg ret q])
  qed (use 1 in \<open>simp add: flushBuffer.simps [of F cfg ret q]\<close>)
qed

section \<open>Properties\<close>

text \<open>
  C30: a flush decodes packets from the front of the buffer into the queue, as long as the queue
  is not full: with \<open>n\<close> the number of packets before which the queue held fewer blocks than
  \<^verbatim>\<open>maxDownloadingBlockQueueSize\<close>, the queue gains exactly the decodable blocks of the first \<open>n\<close>
  packets that are newer than the ledger, and stays a heap. If packets are left, the queue
  has reached the limit; the packet after those \<open>n\<close> is dropped and the rest stays buffered. The
  two conditions leave one \<open>n\<close>: every packet before it found room, and it did not.
\<close>

theorem flushBufferToQueue_correct:
  assumes "dq_wf cfg q"
  shows "\<exists>n \<le> length (m_blockBuffer q).
    mset (m_blocks (flushBufferToQueue F cfg q)) =
      mset (m_blocks q) + mset (concat (map (newBlocksOf F cfg) (take n (m_blockBuffer q)))) \<and>
    m_blockBuffer (flushBufferToQueue F cfg q) = drop (Suc n) (m_blockBuffer q) \<and>
    m_commitQueue (flushBufferToQueue F cfg q) = m_commitQueue q \<and>
    is_heap BlockCmp (m_blocks (flushBufferToQueue F cfg q)) \<and>
    (n < length (m_blockBuffer q) \<longrightarrow>
       unat (c_maxDownloadingBlockQueueSize cfg) \<le> length (m_blocks (flushBufferToQueue F cfg q))) \<and>
    (\<forall>i < n. length (m_blocks q) + length (concat (map (newBlocksOf F cfg) (take i (m_blockBuffer q)))) <
       unat (c_maxDownloadingBlockQueueSize cfg))"
  using flushBuffer_spec [OF _ refl, of q F cfg] assms
  by (simp add: dq_wf_def flushBufferToQueue_def)

text \<open>A response packet with the given blocks.\<close>

definition demoPacket :: "Block list \<Rightarrow> BlockSyncMsgImpl" where
  "demoPacket bs = fold (\<lambda>b. appendBlockData (demo_encodeBlock b)) bs newBlocksMsg"

definition demoQueue :: DownloadingQueue where
  "demoQueue = newDownloadingQueue\<lparr>m_blockBuffer := [demoPacket [demoBlock 8 1], demoPacket [demoBlock 7 0]]\<rparr>"

lemma dq_wf_demoQueue: "dq_wf (demoConfig 6) demoQueue"
proof -
  have "unat (c_maxDownloadingBlockQueueSize (demoConfig 6)) = 256" by code_simp
  then show ?thesis
    by (simp add: dq_wf_def demoQueue_def newDownloadingQueue_def blk.is_heap_Nil)
qed

text \<open>A queue with the limit 2: the first packet fills it, the second is lost.\<close>

definition demoSmallConfig :: "DemoSync BlockSyncConfig" where
  "demoSmallConfig = (demoConfig 6)\<lparr>c_maxDownloadingBlockQueueSize := 2\<rparr>"

definition demoFullQueue :: DownloadingQueue where
  "demoFullQueue = newDownloadingQueue\<lparr>m_blockBuffer := [demoPacket [demoBlock 8 1, demoBlock 9 0], demoPacket [demoBlock 7 0]]\<rparr>"

lemma demo_flush_lost:
  "m_blocks (flushBufferToQueue demoFramework demoSmallConfig demoFullQueue) = [demoBlock 8 1, demoBlock 9 0]"
  "m_blockBuffer (flushBufferToQueue demoFramework demoSmallConfig demoFullQueue) = []"
  by code_simp+

theorem flushBufferToQueue_correct_witness:
  "\<exists>n \<le> length (m_blockBuffer demoFullQueue).
    mset [demoBlock 8 1, demoBlock 9 0] =
      mset (m_blocks demoFullQueue) +
      mset (concat (map (newBlocksOf demoFramework demoSmallConfig) (take n (m_blockBuffer demoFullQueue)))) \<and>
    [] = drop (Suc n) (m_blockBuffer demoFullQueue) \<and>
    m_commitQueue (flushBufferToQueue demoFramework demoSmallConfig demoFullQueue) = m_commitQueue demoFullQueue \<and>
    is_heap BlockCmp [demoBlock 8 1, demoBlock 9 0] \<and>
    (n < length (m_blockBuffer demoFullQueue) \<longrightarrow>
       unat (c_maxDownloadingBlockQueueSize demoSmallConfig) \<le> length [demoBlock 8 1, demoBlock 9 0]) \<and>
    (\<forall>i < n. length (m_blocks demoFullQueue) +
         length (concat (map (newBlocksOf demoFramework demoSmallConfig) (take i (m_blockBuffer demoFullQueue)))) <
       unat (c_maxDownloadingBlockQueueSize demoSmallConfig))"
proof -
  have "dq_wf demoSmallConfig demoFullQueue"
    by (simp add: dq_wf_def demoFullQueue_def demoSmallConfig_def newDownloadingQueue_def blk.is_heap_Nil)
  from flushBufferToQueue_correct [OF this, of demoFramework] show ?thesis unfolding demo_flush_lost .
qed

text \<open>
  C36: as long as every packet holds at most one block, the queue of downloaded blocks
  never exceeds \<^verbatim>\<open>maxDownloadingBlockQueueSize\<close>, and the packet buffer never does.
\<close>

theorem downloading_queue_bounded:
  assumes "dq_wf cfg q" "single_packets q" "length (m_blocks q) \<le> unat (c_maxDownloadingBlockQueueSize cfg)"
  shows "length (m_blocks (flushBufferToQueue F cfg q)) \<le> unat (c_maxDownloadingBlockQueueSize cfg) \<and>
    length (m_blockBuffer (dq_push cfg msg q)) \<le> unat (c_maxDownloadingBlockQueueSize cfg)"
  using assms flushBuffer_bound [of q cfg F True]
  by (auto simp: flushBufferToQueue_def dq_push_def dq_wf_def)

theorem downloading_queue_bounded_witness:
  "length (m_blocks (flushBufferToQueue demoFramework (demoConfig 6) demoQueue)) \<le>
      unat (c_maxDownloadingBlockQueueSize (demoConfig 6)) \<and>
    length (m_blockBuffer (dq_push (demoConfig 6) (demoPacket []) demoQueue)) \<le>
      unat (c_maxDownloadingBlockQueueSize (demoConfig 6))"
proof (rule downloading_queue_bounded [OF dq_wf_demoQueue])
  show "single_packets demoQueue" by code_simp
  show "length (m_blocks demoQueue) \<le> unat (c_maxDownloadingBlockQueueSize (demoConfig 6))" by code_simp
qed

text \<open>
  C25: the next block is the only one that is ever handed to the consensus module, and it
  always is. If the commit queue holds the block after the ledger's height, exactly one
  such block leaves the queue and is checked; otherwise no call is made. In both cases
  the blocks the ledger has passed are discarded, all others stay and nothing else changes.
\<close>

theorem tryToCommit_next_block:
  assumes "config_wf (m_config w)" and "dq_wf (m_config w) (m_downloadingQueue w)"
  shows "\<exists>q. is_heap BlockCmp q \<and>
    (if \<exists>b \<in> set (m_commitQueue (m_downloadingQueue w)). block_number b = c_blockNumber (m_config w) + 1
     then \<exists>b. block_number b = c_blockNumber (m_config w) + 1 \<and>
       tryToCommitBlockToLedger w =
         emit (CheckBlock b) (w\<lparr>m_downloadingQueue := (m_downloadingQueue w)\<lparr>m_commitQueue := q\<rparr>\<rparr>) \<and>
       add_mset b (mset q) = filter_mset (\<lambda>b. c_blockNumber (m_config w) < block_number b)
         (mset (m_commitQueue (m_downloadingQueue w)))
     else tryToCommitBlockToLedger w = w\<lparr>m_downloadingQueue := (m_downloadingQueue w)\<lparr>m_commitQueue := q\<rparr>\<rparr> \<and>
       mset q = filter_mset (\<lambda>b. c_blockNumber (m_config w) < block_number b)
         (mset (m_commitQueue (m_downloadingQueue w))))"
proof -
  have next_block: "c_nextBlock (m_config w) = c_blockNumber (m_config w) + 1"
    using assms(1) by (simp add: config_wf_def)
  have "blk_heap (m_commitQueue (m_downloadingQueue w))" using assms(2) by (simp add: dq_wf_def)
  then show ?thesis
  proof (cases rule: tryToCommit_cases)
    case (idle q)
    with idle_no_next [OF idle(3,2,4) next_block] show ?thesis by auto
  next
    case (check q b)
    have "b \<in># live_commits w" by (simp add: check(3))
    then have "\<exists>b \<in> set (m_commitQueue (m_downloadingQueue w)). block_number b = c_blockNumber (m_config w) + 1"
      using check(4) next_block by auto
    with check next_block show ?thesis by auto
  qed
qed

definition demoWorld :: "DemoSync dq_world" where
  "demoWorld = \<lparr>m_config = demoConfig 6,
     m_downloadingQueue = newDownloadingQueue
       \<lparr>m_commitQueue := fold (pq_push BlockCmp) [demoBlock 8 1, demoBlock 7 2, demoBlock 5 0] []\<rparr>, calls = []\<rparr>"

lemma config_wf_demoConfig: "height n \<Longrightarrow> config_wf (demoConfig n)"
  unfolding demoConfig_def
  by (rule resetConfig_wf) (simp_all add: demoLedgerConfig_def setGenesisHash_def newBlockSyncConfig_def
      setKnownLatestHash_def Let_def)

lemma demoWorld_wf: "config_wf (m_config demoWorld)" "dq_wf (m_config demoWorld) (m_downloadingQueue demoWorld)"
  by (simp_all add: demoWorld_def config_wf_demoConfig height_def dq_wf_def newDownloadingQueue_def
      blk.is_heap_push blk.is_heap_Nil)

theorem tryToCommit_next_block_witness:
  "\<exists>q. is_heap BlockCmp q \<and>
    (if \<exists>b \<in> set (m_commitQueue (m_downloadingQueue demoWorld)). block_number b = c_blockNumber (m_config demoWorld) + 1
     then \<exists>b. block_number b = c_blockNumber (m_config demoWorld) + 1 \<and>
       tryToCommitBlockToLedger demoWorld =
         emit (CheckBlock b) (demoWorld\<lparr>m_downloadingQueue := (m_downloadingQueue demoWorld)\<lparr>m_commitQueue := q\<rparr>\<rparr>) \<and>
       add_mset b (mset q) = filter_mset (\<lambda>b. c_blockNumber (m_config demoWorld) < block_number b)
         (mset (m_commitQueue (m_downloadingQueue demoWorld)))
     else tryToCommitBlockToLedger demoWorld =
         demoWorld\<lparr>m_downloadingQueue := (m_downloadingQueue demoWorld)\<lparr>m_commitQueue := q\<rparr>\<rparr> \<and>
       mset q = filter_mset (\<lambda>b. c_blockNumber (m_config demoWorld) < block_number b)
         (mset (m_commitQueue (m_downloadingQueue demoWorld))))"
  by (rule tryToCommit_next_block [OF demoWorld_wf])

text \<open>
  C26: an executed block gets on only if the scheduler computed the header its proposer
  announced. If execution fails or the hashes differ, no call is made, the block enters
  no queue and the executed height falls back to the ledger's. If they agree, the
  executed height becomes the block's number and the block is queued for commit.
\<close>

theorem onExecuted_verifies:
  assumes "config_wf (m_config w)" and "c_blockNumber (m_config w) < block_number b"
  shows "if \<exists>header. ans = Inr header \<and> bh_hash header = bh_hash (blockHeader b)
    then c_executedBlock (m_config (onExecuted b ans w)) = block_number b \<and>
      onExecuted b ans w = updateCommitQueue b (setExecuted (block_number b) w)
    else c_executedBlock (m_config (onExecuted b ans w)) = c_blockNumber (m_config w) \<and>
      calls (onExecuted b ans w) = calls w \<and> m_downloadingQueue (onExecuted b ans w) = m_downloadingQueue w"
  using assms
  by (cases ans) (auto simp: onExecuted_def verifyExecutedBlock_def updateCommitQueue_def setExecutedBlock_def)

definition wrongHeader :: "BlockHeader answer" where
  "wrongHeader = Inr (blockHeader (demoBlock 9 0))"

theorem onExecuted_verifies_witness:
  "if \<exists>header. wrongHeader = Inr header \<and> bh_hash header = bh_hash (blockHeader (demoBlock 7 0))
    then c_executedBlock (m_config (onExecuted (demoBlock 7 0) wrongHeader demoWorld)) =
        block_number (demoBlock 7 0) \<and>
      onExecuted (demoBlock 7 0) wrongHeader demoWorld =
        updateCommitQueue (demoBlock 7 0) (setExecuted (block_number (demoBlock 7 0)) demoWorld)
    else c_executedBlock (m_config (onExecuted (demoBlock 7 0) wrongHeader demoWorld)) =
        c_blockNumber (m_config demoWorld) \<and>
      calls (onExecuted (demoBlock 7 0) wrongHeader demoWorld) = calls demoWorld \<and>
      m_downloadingQueue (onExecuted (demoBlock 7 0) wrongHeader demoWorld) =
        m_downloadingQueue demoWorld"
proof (rule onExecuted_verifies [OF demoWorld_wf(1)])
  show "c_blockNumber (m_config demoWorld) < block_number (demoBlock 7 0)" by code_simp
qed

text \<open>
  C28: when the check, the storing of the transactions or the commit of the next block
  fails, no call is made and the executed height falls back to the ledger's, so that the
  block will be requested and executed again.
\<close>

theorem failure_rolls_back:
  assumes "config_wf (m_config w)" and "block_number b = c_nextBlock (m_config w)"
    and "w' \<in> {onChecked b (Inl e) w, onChecked b (Inr False) w, onStored b (Inl e) w, onCommitted h b (Inl e) w}"
  shows "c_executedBlock (m_config w') = c_blockNumber (m_config w) \<and>
    c_blockNumber (m_config w') = c_blockNumber (m_config w) \<and>
    calls w' = calls w \<and> m_downloadingQueue w' = m_downloadingQueue w"
proof -
  have "i64 (block_number b - 1) = c_blockNumber (m_config w)"
    using assms by (simp add: config_wf_def height_def in_i64_def)
  then have "w' = setExecuted (c_blockNumber (m_config w)) w"
    using assms by (auto simp: onChecked_def onStored_def onCommitted_def)
  then show ?thesis by (simp add: setExecutedBlock_def)
qed

theorem failure_rolls_back_witness:
  "c_executedBlock (m_config (onStored (demoBlock 7 0) (Inl (ServiceError 3)) (setExecuted 8 demoWorld))) =
      c_blockNumber (m_config (setExecuted 8 demoWorld)) \<and>
    c_blockNumber (m_config (onStored (demoBlock 7 0) (Inl (ServiceError 3)) (setExecuted 8 demoWorld))) =
      c_blockNumber (m_config (setExecuted 8 demoWorld)) \<and>
    calls (onStored (demoBlock 7 0) (Inl (ServiceError 3)) (setExecuted 8 demoWorld)) = calls (setExecuted 8 demoWorld) \<and>
    m_downloadingQueue (onStored (demoBlock 7 0) (Inl (ServiceError 3)) (setExecuted 8 demoWorld)) =
      m_downloadingQueue (setExecuted 8 demoWorld)"
proof (rule failure_rolls_back)
  show "config_wf (m_config (setExecuted 8 demoWorld))"
    using demoWorld_wf(1) advances_setExecutedBlock [of "m_config demoWorld" 8] by (simp add: advances_def)
  show "block_number (demoBlock 7 0) = c_nextBlock (m_config (setExecuted 8 demoWorld))" by code_simp
qed (rule insertI2, rule insertI2, rule insertI1)

text \<open>
  C38: what a block that passes every check sends to the services. A block with
  transactions has them stored and then its state committed, once. For an empty block the
  state is committed before the transactions are stored and once more after: \<^verbatim>\<open>commitBlock\<close>
  has no \<^verbatim>\<open>return\<close> after the early call.
\<close>

theorem emptyBlock_committed_twice:
  "calls (onStored b (Inr ()) (onChecked b (Inr True) w)) =
     calls w @ (if transactions b = [] then [CommitBlock b] else []) @
     [StoreTransactions (map tx_encoded (transactions b)) (map tx_hash (transactions b)) b, CommitBlock b]"
  by (simp add: onStored_def onChecked_def commitBlock_def commitBlockState_def Let_def)

text \<open>
  Clearing the cache removes exactly the blocks at or below the ledger's height from
  both queues, keeps the buffer and the heaps.
\<close>

lemma clearExpired_exact:
  assumes "dq_wf cfg q"
  shows "mset (m_blocks (clearExpiredQueueCache cfg q)) =
      filter_mset (\<lambda>b. c_blockNumber cfg < block_number b) (mset (m_blocks q)) \<and>
    mset (m_commitQueue (clearExpiredQueueCache cfg q)) =
      filter_mset (\<lambda>b. c_blockNumber cfg < block_number b) (mset (m_commitQueue q)) \<and>
    m_blockBuffer (clearExpiredQueueCache cfg q) = m_blockBuffer q \<and> dq_wf cfg (clearExpiredQueueCache cfg q)"
  using assms
  by (simp add: clearExpiredQueueCache_def clearExpiredCache_def dq_wf_def mset_blk_pop_while blk.is_heap_pop_while)

end
