(* ===== verification/BlockSync.thy ===== *)
theory BlockSync
  imports DownloadingQueue
begin

text \<open>
  \<^verbatim>\<open>BlockSync.h/.cpp\<close>: the module that ties the components together. Its state extends
  \<open>dq_world\<close> with the peer table, the sync state, the download timer and the tasks waiting in
  the two one-thread pools. Message handlers, notifications, the worker's tasks and the
  callbacks are functions on this state; calls on services are appended to \<open>calls\<close>. Logging
  and the condition variable that wakes the worker early have no counterpart.
\<close>

record 'sc BlockSync = "'sc dq_world" +
  m_syncStatus :: SyncPeerStatus
  m_state :: SyncState
  m_maxRequestNumber :: BlockNumber
  m_timerRunning :: bool
  m_running :: bool
  m_waterMark :: BlockNumber
  m_downloadTasks :: nat
  m_sendTasks :: nat

definition newBlockSync :: "'sc BlockSyncConfig \<Rightarrow> 'sc BlockSync" where
  "newBlockSync cfg =
     \<lparr>m_config = cfg, m_downloadingQueue = newDownloadingQueue, calls = [],
      m_syncStatus = newSyncPeerStatus, m_state = Idle, m_maxRequestNumber = 0,
      m_timerRunning = False, m_running = False, m_waterMark = 10,
      m_downloadTasks = 0, m_sendTasks = 0\<rparr>"

text \<open>\<^verbatim>\<open>BlockSyncFactory::createBlockSync\<close>: a fresh configuration and a module on it.\<close>

definition createBlockSync :: "'sc \<Rightarrow> 'sc BlockSync" where
  "createBlockSync sc = newBlockSync (newBlockSyncConfig sc)"

abbreviation cfg_sync :: "('sc, 'z) dq_world_scheme \<Rightarrow> 'sc" where
  "cfg_sync w \<equiv> c_sync (m_config w)"

section \<open>Start, stop, init\<close>

definition start :: "'sc BlockSync \<Rightarrow> 'sc BlockSync" where
  "start s = (if m_running s then s else (emit StartWorking s)\<lparr>m_running := True\<rparr>)"

text \<open>\<open>working\<close> is what \<^verbatim>\<open>isWorking()\<close> of the worker base class answers.\<close>

definition stop :: "bool \<Rightarrow> 'sc BlockSync \<Rightarrow> 'sc BlockSync" where
  "stop working s =
     (if \<not> m_running s then s
      else let s1 = emit StopDownloadProcessor s;
               s2 = emit StopSendProcessor s1;
               s3 = (emit DestroyTimer s2)\<lparr>m_timerRunning := False\<rparr>;
               s4 = emit FinishWorker (s3\<lparr>m_running := False\<rparr>)
           in if working then emit TerminateWorker (emit StopWorking s4) else s4)"

text \<open>\<open>genesisHash\<close> and \<open>lc\<close> are what the ledger-config fetcher has fetched.\<close>

definition init :: "'sc Framework \<Rightarrow> HashType \<Rightarrow> LedgerConfig \<Rightarrow> 'sc BlockSync \<Rightarrow> 'sc BlockSync" where
  "init F genesisHash lc s =
     (let cfg1 = setGenesisHash genesisHash (m_config s);
          (cfg2, cs) = resetConfig F lc cfg1
      in emit GetNodeIDs (s\<lparr>m_config := cfg2, calls := calls s @ cs\<rparr>))"

text \<open>The callback of \<^verbatim>\<open>frontService->asyncGetNodeIDs\<close>; \<open>None\<close> is a null pointer.\<close>

definition onNodeIDs ::
  "'sc Framework \<Rightarrow> NodeIDPtr list option answer \<Rightarrow> 'sc BlockSync \<Rightarrow> 'sc BlockSync" where
  "onNodeIDs F ans s =
     (case ans of
        Inl _ \<Rightarrow> s
      | Inr None \<Rightarrow> s
      | Inr (Some nodeIDs) \<Rightarrow>
          if length nodeIDs = 0 then s
          else s\<lparr>m_config := (m_config s)\<lparr>c_sync := fw_setConnectedNodeList F nodeIDs (cfg_sync s)\<rparr>\<rparr>)"

definition notifyConnectedNodes ::
  "'sc Framework \<Rightarrow> NodeIDPtr list \<Rightarrow> 'sc BlockSync \<Rightarrow> 'sc BlockSync" where
  "notifyConnectedNodes F nodes s =
     s\<lparr>m_config := (m_config s)\<lparr>c_sync := fw_notifyConnectedNodes F nodes (cfg_sync s)\<rparr>\<rparr>"

definition asyncNotifyCommittedIndex :: "BlockNumber \<Rightarrow> 'sc BlockSync \<Rightarrow> 'sc BlockSync" where
  "asyncNotifyCommittedIndex n s = s\<lparr>m_config := setCommittedProposalNumber n (m_config s)\<rparr>"

section \<open>Sync state\<close>

definition shouldSyncing :: "('sc, 'z) dq_world_scheme \<Rightarrow> bool" where
  "shouldSyncing w =
     (if c_blockNumber (m_config w) \<ge> c_knownHighestNumber (m_config w) then False
      else if c_committedProposalNumber (m_config w) \<ge> c_knownHighestNumber (m_config w) then False
      else if c_executedBlock (m_config w) \<ge> c_knownHighestNumber (m_config w) then False
      else True)"

definition isSyncing :: "'sc BlockSync \<Rightarrow> bool" where
  "isSyncing s \<longleftrightarrow> m_state s = Downloading"

definition onDownloadTimeout :: "'sc BlockSync \<Rightarrow> 'sc BlockSync" where
  "onDownloadTimeout s = s\<lparr>m_timerRunning := False, m_state := Idle\<rparr>"

definition downloadFinish :: "'sc BlockSync \<Rightarrow> 'sc BlockSync" where
  "downloadFinish s = s\<lparr>m_timerRunning := False, m_state := Idle\<rparr>"

section \<open>New blocks\<close>

text \<open>The status message of this node, encoded.\<close>

definition currentStatus :: "'sc BlockSyncConfig \<Rightarrow> BlockSyncStatusImpl" where
  "currentStatus cfg = createBlockSyncStatusMsg (c_blockNumber cfg) (c_hash cfg) (c_genesisHash cfg) 0"

definition sendStatusTo ::
  "'sc Framework \<Rightarrow> NodeIDPtr \<Rightarrow> ('sc, 'z) dq_world_scheme \<Rightarrow> ('sc, 'z) dq_world_scheme" where
  "sendStatusTo F node w =
     (if np_data node = np_data (fw_nodeID F (cfg_sync w)) then w
      else if \<not> fw_connected F (cfg_sync w) node then w
      else emit (SendMessage node (msg_encode (fw_encodePB F) (currentStatus (m_config w)))) w)"

definition broadcastSyncStatus ::
  "'sc Framework \<Rightarrow> ('sc, 'z) dq_world_scheme \<Rightarrow> ('sc, 'z) dq_world_scheme" where
  "broadcastSyncStatus F w = fold (sendStatusTo F) (fw_groupNodeList F (cfg_sync w)) w"

definition onNewBlock ::
  "'sc Framework \<Rightarrow> LedgerConfig \<Rightarrow> ('sc, 'z) dq_world_scheme \<Rightarrow> ('sc, 'z) dq_world_scheme" where
  "onNewBlock F lc w =
     (let (cfg1, cs) = resetConfig F lc (m_config w);
          w1 = w\<lparr>m_config := cfg1, calls := calls w @ cs\<rparr>;
          w2 = broadcastSyncStatus F w1
      in w2\<lparr>m_downloadingQueue := clearExpiredQueueCache (m_config w2) (m_downloadingQueue w2)\<rparr>)"

definition asyncNotifyNewBlock ::
  "'sc Framework \<Rightarrow> LedgerConfig \<Rightarrow> 'sc BlockSync \<Rightarrow> 'sc BlockSync" where
  "asyncNotifyNewBlock F lc s =
     (if lc_blockNumber lc > c_blockNumber (m_config s)
      then tryToCommitBlockToLedger (onNewBlock F lc s)
      else s)"

section \<open>Messages from peers\<close>

definition onPeerStatus ::
  "'sc Framework \<Rightarrow> NodeIDPtr \<Rightarrow> BlockSyncMsgImpl \<Rightarrow> 'sc BlockSync \<Rightarrow> 'sc BlockSync" where
  "onPeerStatus F nodeID syncMsg s =
     (if \<not> fw_existsInGroup F (cfg_sync s) nodeID \<and> msg_number syncMsg \<le> c_blockNumber (m_config s) then s
      else let (_, cfg', st') = updatePeerStatus nodeID (createStatusOfMsg syncMsg) (m_config s) (m_syncStatus s)
           in s\<lparr>m_config := cfg', m_syncStatus := st'\<rparr>)"

definition onPeerBlocks :: "BlockSyncMsgImpl \<Rightarrow> 'sc BlockSync \<Rightarrow> 'sc BlockSync" where
  "onPeerBlocks syncMsg s =
     s\<lparr>m_downloadingQueue := dq_push (m_config s) (createBlocksOfMsg syncMsg) (m_downloadingQueue s)\<rparr>"

definition onPeerBlocksRequest ::
  "'sc Framework \<Rightarrow> NodeIDPtr \<Rightarrow> BlockSyncMsgImpl \<Rightarrow> 'sc BlockSync \<Rightarrow> 'sc BlockSync" where
  "onPeerBlocksRequest F nodeID syncMsg s =
     (let blockRequest = createRequestOfMsg syncMsg;
          found = peerStatus nodeID (m_syncStatus s);
          (peer, st) =
            (if found = None \<and> fw_existsInGroup F (cfg_sync s) nodeID
             then let (ps, st1) = insertEmptyPeer nodeID (m_syncStatus s) in (Some ps, st1)
             else (found, m_syncStatus s))
      in case peer of
           Some ps \<Rightarrow>
             s\<lparr>m_syncStatus := push_at (m_config s) (ps_downloadRequests ps)
                 (msg_number blockRequest) (request_size blockRequest) st\<rparr>
         | None \<Rightarrow> s\<lparr>m_syncStatus := st\<rparr>)"

text \<open>
  The dispatcher called by the front service. A message with an error, one that does not
  decode and one of an unknown type change nothing.
\<close>

definition asyncNotifyBlockSyncMessage ::
  "'sc Framework \<Rightarrow> error option \<Rightarrow> NodeIDPtr \<Rightarrow> bytes \<Rightarrow> 'sc BlockSync \<Rightarrow> 'sc BlockSync" where
  "asyncNotifyBlockSyncMessage F err nodeID data s =
     (if err \<noteq> None then s
      else case createBlockSyncMsg (fw_decodePB F) data of
        None \<Rightarrow> s
      | Some syncMsg \<Rightarrow>
          if msg_packetType syncMsg = packetCode BlockStatusPacket then onPeerStatus F nodeID syncMsg s
          else if msg_packetType syncMsg = packetCode BlockRequestPacket then onPeerBlocksRequest F nodeID syncMsg s
          else if msg_packetType syncMsg = packetCode BlockResponsePacket then onPeerBlocks syncMsg s
          else s)"

section \<open>Requesting blocks\<close>

text \<open>
  The visitor of \<^verbatim>\<open>requestBlocks\<close>. Its closure changes the next shard, the flag \<^verbatim>\<open>findPeer\<close> and
  the module. The bounds of a shard are computed in \<^verbatim>\<open>size_t\<close>.
\<close>

definition shardFrom :: "BlockNumber \<Rightarrow> size_t \<Rightarrow> size_t \<Rightarrow> BlockNumber" where
  "shardFrom from blockSizePerShard shard =
     to_number (to_size (i64 (from + 1)) + shard * blockSizePerShard)"

definition shardTo :: "BlockNumber \<Rightarrow> BlockNumber \<Rightarrow> size_t \<Rightarrow> size_t \<Rightarrow> BlockNumber" where
  "shardTo from to blockSizePerShard shard =
     min (to_number (to_size (shardFrom from blockSizePerShard shard) + blockSizePerShard - 1)) to"

definition shardRequest :: "BlockNumber \<Rightarrow> BlockNumber \<Rightarrow> BlockSyncMsgImpl" where
  "shardRequest from to = request_setSize (to_size (i64 (to - from + 1))) (setNumber from createRequest)"

definition requestShard ::
  "'sc Framework \<Rightarrow> BlockNumber \<Rightarrow> BlockNumber \<Rightarrow> size_t \<Rightarrow> PeerStatus \<Rightarrow>
   size_t \<times> bool \<times> 'sc BlockSync \<Rightarrow> bool \<times> (size_t \<times> bool \<times> 'sc BlockSync)" where
  "requestShard F from to shardNumber p = (\<lambda>(shard, findPeer, s).
     if ps_number p < c_knownHighestNumber (m_config s) then (True, shard, findPeer, s)
     else let f = shardFrom from (c_maxRequestBlocks (m_config s)) shard;
              t = shardTo from to (c_maxRequestBlocks (m_config s)) shard
          in if ps_number p < t then (True, shard, findPeer, s)
             else let s1 = emit (SendMessage (ps_nodeId p) (msg_encode (fw_encodePB F) (shardRequest f t))) s;
                      s2 = s1\<lparr>m_maxRequestNumber := max (m_maxRequestNumber s1) t\<rparr>
                  in (shard + 1 < shardNumber, shard + 1, True, s2))"

text \<open>\<open>rnds n\<close> are the values of \<^verbatim>\<open>rand()\<close> in the round with \<open>n\<close> more rounds to go.\<close>

fun requestLoop ::
  "'sc Framework \<Rightarrow> (nat \<Rightarrow> nat \<Rightarrow> nat) \<Rightarrow> BlockNumber \<Rightarrow> BlockNumber \<Rightarrow> size_t \<Rightarrow> nat \<Rightarrow> size_t \<Rightarrow>
   'sc BlockSync \<Rightarrow> 'sc BlockSync" where
  "requestLoop F rnds from to shardNumber 0 shard s = s"
| "requestLoop F rnds from to shardNumber (Suc n) shard s =
     (if shard < shardNumber
      then let (shard', findPeer, s') =
             foreachPeerRandom (rnds n) (requestShard F from to shardNumber) (m_syncStatus s) (shard, False, s)
           in if findPeer then requestLoop F rnds from to shardNumber n shard' s' else s'
      else s)"

definition shardCount :: "BlockNumber \<Rightarrow> BlockNumber \<Rightarrow> size_t \<Rightarrow> size_t" where
  "shardCount from to blockSizePerShard =
     (to_size (i64 (to - from)) + blockSizePerShard - 1) div blockSizePerShard"

definition requestBlocks ::
  "'sc Framework \<Rightarrow> (nat \<Rightarrow> nat \<Rightarrow> nat) \<Rightarrow> BlockNumber \<Rightarrow> BlockNumber \<Rightarrow> 'sc BlockSync \<Rightarrow> 'sc BlockSync" where
  "requestBlocks F rnds from to s =
     (let s1 = s\<lparr>m_state := Downloading, m_timerRunning := True\<rparr>
      in requestLoop F rnds from to (shardCount from to (c_maxRequestBlocks (m_config s1)))
           (unat (c_maxShardPerPeer (m_config s1))) 0 s1)"

text \<open>The last block to ask for: up to the first downloaded one, if that is not the next.\<close>

definition requestTarget :: "'sc BlockSync \<Rightarrow> BlockNumber" where
  "requestTarget s =
     (let requestToNumber = c_knownHighestNumber (m_config s)
      in case dq_top (m_downloadingQueue s) of
           None \<Rightarrow> requestToNumber
         | Some topBlock \<Rightarrow>
             if block_number topBlock > c_nextBlock (m_config s)
             then min (c_knownHighestNumber (m_config s)) (i64 (block_number topBlock - 1))
             else requestToNumber)"

definition tryToRequestBlocks ::
  "'sc Framework \<Rightarrow> (nat \<Rightarrow> nat \<Rightarrow> nat) \<Rightarrow> 'sc BlockSync \<Rightarrow> 'sc BlockSync" where
  "tryToRequestBlocks F rnds s =
     (if c_blockNumber (m_config s) < c_executedBlock (m_config s) \<and>
         commitQueueSize (m_downloadingQueue s) > 0 then s
      else let s1 = (if m_maxRequestNumber s \<le> c_blockNumber (m_config s) \<or>
                        m_maxRequestNumber s \<le> c_executedBlock (m_config s)
                     then downloadFinish s else s)
           in if \<not> shouldSyncing s1 \<or> isSyncing s1 then s1
              else let s2 = emit (NotifyHighestSyncingNumber (c_knownHighestNumber (m_config s1))) s1;
                       requestToNumber = requestTarget s2;
                       currentNumber = c_blockNumber (m_config s2)
                   in if currentNumber \<ge> requestToNumber then s2
                      else requestBlocks F rnds currentNumber requestToNumber s2)"

section \<open>Executing downloaded blocks\<close>

definition maintainDownloadingBuffer :: "'sc Framework \<Rightarrow> 'sc BlockSync \<Rightarrow> 'sc BlockSync" where
  "maintainDownloadingBuffer F s =
     (if dq_size (m_downloadingQueue s) = 0 then s
      else if \<not> shouldSyncing s then s\<lparr>m_downloadingQueue := dq_clear (m_downloadingQueue s)\<rparr>
      else let q1 = clearFullQueueIfNotHas (m_config s) (c_nextBlock (m_config s)) (m_downloadingQueue s)
           in s\<lparr>m_downloadingQueue := flushBufferToQueue F (m_config s) q1\<rparr>)"

definition maintainDownloadingQueue :: "'sc BlockSync \<Rightarrow> 'sc BlockSync" where
  "maintainDownloadingQueue s =
     (if \<not> shouldSyncing s
      then downloadFinish (s\<lparr>m_downloadingQueue := dq_clear (m_downloadingQueue s)\<rparr>)
      else let s1 = tryToCommitBlockToLedger s;
               executedBlock = c_executedBlock (m_config s1);
               s2 = s1\<lparr>m_downloadingQueue := (m_downloadingQueue s1)
                 \<lparr>m_blocks := pop_while BlockCmp (\<lambda>b. block_number b \<le> executedBlock)
                    (m_blocks (m_downloadingQueue s1))\<rparr>\<rparr>
           in case dq_top (m_downloadingQueue s2) of
                None \<Rightarrow> s2
              | Some block \<Rightarrow>
                  if executedBlock \<ge> i64 (c_blockNumber (m_config s2) + m_waterMark s2) then s2
                  else if block_number block > i64 (executedBlock + 1) then s2
                  else if block_number block = i64 (executedBlock + 1)
                  then applyBlock block (s2\<lparr>m_downloadingQueue := dq_pop (m_downloadingQueue s2),
                         m_state := Downloading\<rparr>)
                  else s2)"

section \<open>Answering requests\<close>

definition fetchAndSendBlock :: "nat \<Rightarrow> NodeIDPtr \<Rightarrow> BlockNumber \<Rightarrow> 'sc BlockSync \<Rightarrow> 'sc BlockSync" where
  "fetchAndSendBlock reqQueue peer number s = emit (GetBlockData reqQueue peer number) s"

text \<open>The callback of \<^verbatim>\<open>ledger->asyncGetBlockDataByNumber\<close>: a failure queues the number again.\<close>

definition onBlockData ::
  "'sc Framework \<Rightarrow> nat \<Rightarrow> NodeIDPtr \<Rightarrow> BlockNumber \<Rightarrow> Block answer \<Rightarrow> 'sc BlockSync \<Rightarrow> 'sc BlockSync" where
  "onBlockData F reqQueue peer number ans s =
     (case ans of
        Inl _ \<Rightarrow> s\<lparr>m_syncStatus := push_at (m_config s) reqQueue number 1 (m_syncStatus s)\<rparr>
      | Inr block \<Rightarrow>
          let blocksReq = setNumber number (appendBlockData (fw_encodeBlock F block) createBlocks)
          in emit (SendMessage peer (msg_encode (fw_encodePB F) blocksReq)) s)"

definition respond :: "nat \<Rightarrow> NodeIDPtr \<Rightarrow> DownloadRequest \<Rightarrow> 'sc BlockSync \<Rightarrow> 'sc BlockSync" where
  "respond reqQueue peer blocksReq s =
     (let numberLimit = to_number (to_size (fromNumber blocksReq) + req_size blocksReq)
      in fold (fetchAndSendBlock reqQueue peer) [fromNumber blocksReq .. numberLimit - 1] s)"

function serveRequests ::
  "nat \<Rightarrow> NodeIDPtr \<Rightarrow> DownloadRequestQueue \<Rightarrow> 'sc BlockSync \<Rightarrow> DownloadRequestQueue \<times> 'sc BlockSync" where
  "serveRequests reqQueue peer q s =
     (case fst (topAndPop q) of
        None \<Rightarrow> (snd (topAndPop q), s)
      | Some blocksReq \<Rightarrow> serveRequests reqQueue peer (snd (topAndPop q)) (respond reqQueue peer blocksReq s))"
  by pat_completeness auto
termination
  by (relation "measure (\<lambda>(a, peer, q, s). length q)")
    (auto intro: length_snd_topAndPop)

declare serveRequests.simps [simp del]

text \<open>The visitor of \<^verbatim>\<open>maintainBlockRequest\<close>.\<close>

definition servePeer :: "PeerStatus \<Rightarrow> 'sc BlockSync \<Rightarrow> bool \<times> 'sc BlockSync" where
  "servePeer p s =
     (let a = ps_downloadRequests p;
          q = req_store (m_syncStatus s) ! a
      in if drq_empty q then (True, s)
         else let (q', s') = serveRequests a (ps_nodeId p) q s
              in (True, s'\<lparr>m_syncStatus := (m_syncStatus s')
                   \<lparr>req_store := (req_store (m_syncStatus s'))[a := q']\<rparr>\<rparr>))"

definition maintainBlockRequest :: "(nat \<Rightarrow> nat) \<Rightarrow> 'sc BlockSync \<Rightarrow> 'sc BlockSync" where
  "maintainBlockRequest rnd s = foreachPeerRandom rnd servePeer (m_syncStatus s) s"

section \<open>Connections\<close>

definition peerToDelete ::
  "'sc Framework \<Rightarrow> 'sc BlockSyncConfig \<Rightarrow> PeerStatus \<Rightarrow> NodeIDPtr list \<Rightarrow> bool \<times> NodeIDPtr list" where
  "peerToDelete F cfg p peersToDelete =
     (if same_ptr (ps_nodeId p) (fw_nodeID F (c_sync cfg)) then (True, peersToDelete)
      else if \<not> fw_connected F (c_sync cfg) (ps_nodeId p) then (True, peersToDelete @ [ps_nodeId p])
      else if \<not> fw_existsInGroup F (c_sync cfg) (ps_nodeId p) \<and> c_blockNumber cfg \<ge> ps_number p
      then (True, peersToDelete @ [ps_nodeId p])
      else (True, peersToDelete))"

definition connectNode :: "'sc Framework \<Rightarrow> NodeIDPtr \<Rightarrow> 'sc BlockSync \<Rightarrow> 'sc BlockSync" where
  "connectNode F node s =
     (if np_data node = np_data (fw_nodeID F (cfg_sync s)) then s
      else if \<not> fw_connected F (cfg_sync s) node then s
      else let status = currentStatus (m_config s);
               (_, cfg', st') = updatePeerStatus (fw_nodeID F (cfg_sync s)) status (m_config s) (m_syncStatus s)
           in emit (SendMessage node (msg_encode (fw_encodePB F) status))
                (s\<lparr>m_config := cfg', m_syncStatus := st'\<rparr>))"

definition maintainPeersConnection :: "'sc Framework \<Rightarrow> 'sc BlockSync \<Rightarrow> 'sc BlockSync" where
  "maintainPeersConnection F s =
     (if \<not> fw_selfInGroup F (cfg_sync s) then s
      else let peersToDelete = foreachPeer (peerToDelete F (m_config s)) (m_syncStatus s) [];
               s1 = s\<lparr>m_syncStatus := fold deletePeer peersToDelete (m_syncStatus s)\<rparr>
           in fold (connectNode F) (fw_groupNodeList F (cfg_sync s1)) s1)"

section \<open>The worker\<close>

text \<open>
  \<^verbatim>\<open>executeWorker\<close> maintains the connections and puts one task into each pool; the tasks
  themselves run later, each on the single thread of its pool.
\<close>

definition executeWorker :: "'sc Framework \<Rightarrow> 'sc BlockSync \<Rightarrow> 'sc BlockSync" where
  "executeWorker F s =
     (let s1 = maintainPeersConnection F s
      in s1\<lparr>m_downloadTasks := m_downloadTasks s1 + 1, m_sendTasks := m_sendTasks s1 + 1\<rparr>)"

definition downloadTask ::
  "'sc Framework \<Rightarrow> (nat \<Rightarrow> nat \<Rightarrow> nat) \<Rightarrow> 'sc BlockSync \<Rightarrow> 'sc BlockSync" where
  "downloadTask F rnds s =
     tryToRequestBlocks F rnds (maintainDownloadingQueue (maintainDownloadingBuffer F s))"

section \<open>Sync information\<close>

record PeerInfo =
  pi_nodeID :: NodeID
  pi_genesisHash :: HashType
  pi_blockNumber :: BlockNumber
  pi_latestHash :: HashType

record SyncInfo =
  si_isSyncing :: bool
  si_genesisHash :: HashType
  si_nodeID :: NodeID
  si_blockNumber :: BlockNumber
  si_latestHash :: HashType
  si_knownHighestNumber :: BlockNumber
  si_knownLatestHash :: HashType
  si_peers :: "PeerInfo list"

definition asyncGetSyncInfo :: "'sc Framework \<Rightarrow> 'sc BlockSync \<Rightarrow> SyncInfo" where
  "asyncGetSyncInfo F s =
     (let addPeer = (\<lambda>p infos.
            if same_ptr (ps_nodeId p) (fw_nodeID F (cfg_sync s)) then (True, infos)
            else (True, infos @ [\<lparr>pi_nodeID = np_data (ps_nodeId p), pi_genesisHash = ps_genesisHash p,
                   pi_blockNumber = ps_number p, pi_latestHash = ps_hash p\<rparr>]))
      in \<lparr>si_isSyncing = isSyncing s, si_genesisHash = c_genesisHash (m_config s),
          si_nodeID = np_data (fw_nodeID F (cfg_sync s)),
          si_blockNumber = c_blockNumber (m_config s), si_latestHash = c_hash (m_config s),
          si_knownHighestNumber = c_knownHighestNumber (m_config s),
          si_knownLatestHash = c_knownLatestHash (m_config s),
          si_peers = foreachPeer addPeer (m_syncStatus s) []\<rparr>)"

section \<open>The new-block handler\<close>

lemma sendStatusTo_frame [simp]:
  "m_config (sendStatusTo F node w) = m_config w"
  "m_downloadingQueue (sendStatusTo F node w) = m_downloadingQueue w"
  "dq_world.more (sendStatusTo F node w) = dq_world.more w"
  by (simp_all add: sendStatusTo_def)

lemma broadcast_frame [simp]:
  "m_config (broadcastSyncStatus F w) = m_config w"
  "m_downloadingQueue (broadcastSyncStatus F w) = m_downloadingQueue w"
  "dq_world.more (broadcastSyncStatus F w) = dq_world.more w"
proof -
  have "m_config (fold (sendStatusTo F) ns w) = m_config w \<and>
      m_downloadingQueue (fold (sendStatusTo F) ns w) = m_downloadingQueue w \<and>
      dq_world.more (fold (sendStatusTo F) ns w) = dq_world.more w" for ns
    by (induction ns arbitrary: w) simp_all
  then show "m_config (broadcastSyncStatus F w) = m_config w"
    "m_downloadingQueue (broadcastSyncStatus F w) = m_downloadingQueue w"
    "dq_world.more (broadcastSyncStatus F w) = dq_world.more w"
    by (simp_all add: broadcastSyncStatus_def)
qed

text \<open>The messages a broadcast sends: one to every connected node of the group but this one.\<close>

definition statusReceivers :: "'sc Framework \<Rightarrow> 'sc \<Rightarrow> NodeIDPtr list" where
  "statusReceivers F sc = filter (\<lambda>n. np_data n \<noteq> np_data (fw_nodeID F sc) \<and> fw_connected F sc n) (fw_groupNodeList F sc)"

lemma broadcast_calls:
  "calls (broadcastSyncStatus F w) = calls w @
     map (\<lambda>n. SendMessage n (msg_encode (fw_encodePB F) (currentStatus (m_config w)))) (statusReceivers F (cfg_sync w))"
proof -
  have "calls (fold (sendStatusTo F) ns w) = calls w @
      map (\<lambda>n. SendMessage n (msg_encode (fw_encodePB F) (currentStatus (m_config w))))
        (filter (\<lambda>n. np_data n \<noteq> np_data (fw_nodeID F (cfg_sync w)) \<and> fw_connected F (cfg_sync w) n) ns)" for ns
    by (induction ns arbitrary: w) (simp_all add: sendStatusTo_def)
  then show ?thesis by (simp add: broadcastSyncStatus_def statusReceivers_def)
qed

lemma onNewBlock_config [simp]: "m_config (onNewBlock F lc w) = fst (resetConfig F lc (m_config w))"
  by (simp add: onNewBlock_def case_prod_unfold Let_def)

lemma onNewBlock_queue [simp]:
  "m_downloadingQueue (onNewBlock F lc w) =
     clearExpiredQueueCache (fst (resetConfig F lc (m_config w))) (m_downloadingQueue w)"
  by (simp add: onNewBlock_def case_prod_unfold Let_def)

lemma onNewBlock_more [simp]: "dq_world.more (onNewBlock F lc w) = dq_world.more w"
  by (simp add: onNewBlock_def case_prod_unfold Let_def)

lemma onNewBlock_calls:
  "calls (onNewBlock F lc w) = calls w @ snd (resetConfig F lc (m_config w)) @
     map (\<lambda>n. SendMessage n (msg_encode (fw_encodePB F) (currentStatus (m_config (onNewBlock F lc w)))))
       (statusReceivers F (cfg_sync (onNewBlock F lc w)))"
  by (simp add: onNewBlock_def case_prod_unfold Let_def broadcast_calls)

lemma dq_wf_clearExpired:
  "dq_wf cfg q \<Longrightarrow> c_maxDownloadingBlockQueueSize cfg' = c_maxDownloadingBlockQueueSize cfg \<Longrightarrow>
   dq_wf cfg' (clearExpiredQueueCache cfg' q)"
  by (simp add: dq_wf_def clearExpiredQueueCache_def clearExpiredCache_def blk.is_heap_pop_while)

lemma set_clearExpired:
  "blk_heap (m_commitQueue q) \<Longrightarrow> set (m_commitQueue (clearExpiredQueueCache cfg q)) \<subseteq> set (m_commitQueue q)"
  by (auto simp: clearExpiredQueueCache_def clearExpiredCache_def set_blk_pop_while)

interpretation nb: new_block_handler "onNewBlock F"
proof
  fix lc :: LedgerConfig and w :: "('a, 'b) dq_world_scheme"
  assume "height (lc_blockNumber lc)" "0 \<le> c_blockNumber (m_config w)"
  then have adv: "advances (m_config w) (fst (resetConfig F lc (m_config w)))"
    by (rule advances_resetConfig)
  moreover have "\<exists>cs. calls (onNewBlock F lc w) = calls w @ cs"
    using onNewBlock_calls by blast
  ultimately show "dq_safe w (onNewBlock F lc w)"
    by (auto simp: dq_safe_def advances_def intro: dq_wf_clearExpired)
next
  show "lc_blockNumber lc \<le> c_blockNumber (m_config (onNewBlock F lc w))"
    for lc and w :: "('a, 'b) dq_world_scheme"
    by (simp add: resetConfig_fst resetBlockInfo_def config_defs Let_def)
next
  show "set (m_commitQueue (m_downloadingQueue (onNewBlock F lc w))) \<subseteq> set (m_commitQueue (m_downloadingQueue w))"
    if "blk_heap (m_commitQueue (m_downloadingQueue w))" for lc and w :: "('a, 'b) dq_world_scheme"
    using that by (simp add: set_clearExpired)
qed simp

section \<open>The invariant and the contract of the handlers\<close>

definition bs_wf :: "'sc BlockSync \<Rightarrow> bool" where
  "bs_wf s \<longleftrightarrow> config_wf (m_config s) \<and> dq_wf (m_config s) (m_downloadingQueue s) \<and>
     peers_wf (m_config s) (m_syncStatus s)"

text \<open>Every handler keeps the invariant, lets the configuration only advance and only adds calls.\<close>

definition bs_safe :: "'sc BlockSync \<Rightarrow> 'sc BlockSync \<Rightarrow> bool" where
  "bs_safe s s' \<longleftrightarrow> (bs_wf s \<longrightarrow> bs_wf s' \<and> advances (m_config s) (m_config s') \<and>
     m_waterMark s' = m_waterMark s \<and> (\<exists>cs. calls s' = calls s @ cs))"

lemma emit_module [simp]:
  "m_syncStatus (emit c s) = m_syncStatus s" "m_state (emit c s) = m_state s"
  "m_maxRequestNumber (emit c s) = m_maxRequestNumber s" "m_waterMark (emit c s) = m_waterMark s"
  "m_timerRunning (emit c s) = m_timerRunning s" "m_running (emit c s) = m_running s"
  by (simp_all add: emit_def)

lemma bs_safe_refl [simp, intro]: "bs_safe s s"
  by (simp add: bs_safe_def)

lemma bs_safe_trans [trans]: "bs_safe a b \<Longrightarrow> bs_safe b c \<Longrightarrow> bs_safe a c"
  by (auto simp: bs_safe_def intro: advances_trans)

lemma bs_safe_wf: "bs_safe s s' \<Longrightarrow> bs_wf s \<Longrightarrow> bs_wf s'"
  by (simp add: bs_safe_def)

text \<open>An operation of the downloading queue leaves the fields of the module alone.\<close>

lemma same_more:
  assumes "dq_world.more s' = dq_world.more (s :: 'sc BlockSync)"
  shows "m_syncStatus s' = m_syncStatus s" "m_state s' = m_state s"
    "m_maxRequestNumber s' = m_maxRequestNumber s" "m_waterMark s' = m_waterMark s"
  using assms by (cases s; cases s'; simp)+

lemma bs_safe_dq:
  assumes "dq_safe s s'" "m_syncStatus s' = m_syncStatus s" "m_waterMark s' = m_waterMark s"
  shows "bs_safe s s'"
  using assms peers_wf_advances [of "m_config s" "m_syncStatus s" "m_config s'"]
  by (auto simp: bs_safe_def dq_safe_def bs_wf_def advances_def)

lemma bs_safe_dq_more: "dq_safe s s' \<Longrightarrow> dq_world.more s' = dq_world.more s \<Longrightarrow> bs_safe s s'"
  by (rule bs_safe_dq [OF _ same_more(1) same_more(4)])

lemma bs_safe_fields:
  assumes "m_config s' = m_config s" "m_downloadingQueue s' = m_downloadingQueue s"
    "m_syncStatus s' = m_syncStatus s" "m_waterMark s' = m_waterMark s" "calls s' = calls s"
  shows "bs_safe s s'"
  using assms by (simp add: bs_safe_def bs_wf_def)

lemma bs_safe_emit [intro]: "bs_safe s (emit c s)"
  by (rule bs_safe_dq_more) auto

lemma bs_safe_queue:
  assumes "dq_wf (m_config s) (m_downloadingQueue s) \<Longrightarrow> dq_wf (m_config s) q"
  shows "bs_safe s (s\<lparr>m_downloadingQueue := q\<rparr>)"
  by (rule bs_safe_dq) (use assms in \<open>simp_all add: dq_safe_def\<close>)

lemma bs_safe_peers:
  assumes "bs_wf s \<Longrightarrow> peers_wf (m_config s) st"
  shows "bs_safe s (s\<lparr>m_syncStatus := st\<rparr>)"
  using assms by (simp add: bs_safe_def bs_wf_def)

lemma dq_wf_sync [simp]: "dq_wf (cfg\<lparr>c_sync := sc\<rparr>) q = dq_wf cfg q"
  by (simp add: dq_wf_def)

lemma advances_sync [simp, intro]: "advances cfg (cfg\<lparr>c_sync := sc\<rparr>)"
  by (simp add: advances_def config_wf_def)

lemma bs_safe_sync [intro]: "bs_safe s (s\<lparr>m_config := (m_config s)\<lparr>c_sync := sc\<rparr>\<rparr>)"
  by (rule bs_safe_dq) (simp_all add: dq_safe_def)

lemma bs_safe_updatePeerStatus:
  assumes "updatePeerStatus peer status (m_config s) (m_syncStatus s) = (ok, cfg', st')"
  shows "bs_safe s (s\<lparr>m_config := cfg', m_syncStatus := st'\<rparr>)"
proof (unfold bs_safe_def, intro impI)
  assume wf: "bs_wf s"
  then have "peers_wf cfg' st'" "advances (m_config s) cfg'"
    using updatePeerStatus_inv [OF _ assms] by (simp_all add: bs_wf_def)
  with wf show "bs_wf (s\<lparr>m_config := cfg', m_syncStatus := st'\<rparr>) \<and>
      advances (m_config s) (m_config (s\<lparr>m_config := cfg', m_syncStatus := st'\<rparr>)) \<and>
      m_waterMark (s\<lparr>m_config := cfg', m_syncStatus := st'\<rparr>) = m_waterMark s \<and>
      (\<exists>cs. calls (s\<lparr>m_config := cfg', m_syncStatus := st'\<rparr>) = calls s @ cs)"
    by (simp add: bs_wf_def dq_wf_advances) (simp add: advances_def)
qed

lemma bs_safe_fold: "(\<And>x s. bs_safe s (f x s)) \<Longrightarrow> bs_safe s (fold f xs s)"
proof (induction xs arbitrary: s)
  case (Cons x xs)
  have "bs_safe s (f x s)" by (rule Cons.prems)
  also have "bs_safe \<dots> (fold f xs (f x s))" by (rule Cons.IH [OF Cons.prems])
  finally show ?case by simp
qed simp

subsection \<open>Handlers\<close>

lemma bs_safe_start [intro]: "bs_safe s (start s)"
proof -
  have "bs_safe s (emit StartWorking s)" by blast
  also have "bs_safe \<dots> ((emit StartWorking s)\<lparr>m_running := True\<rparr>)" by (rule bs_safe_fields) simp_all
  finally show ?thesis by (simp add: start_def)
qed

lemma bs_safe_onNodeIDs [intro]: "bs_safe s (onNodeIDs F ans s)"
  by (auto simp: onNodeIDs_def split: sum.split option.split)

lemma bs_safe_notifyConnectedNodes [intro]: "bs_safe s (notifyConnectedNodes F nodes s)"
  by (auto simp: notifyConnectedNodes_def)

lemma bs_safe_committedIndex [intro]: "bs_safe s (asyncNotifyCommittedIndex n s)"
  unfolding asyncNotifyCommittedIndex_def
  by (rule bs_safe_dq)
    (simp_all add: dq_safe_def advances_setCommittedProposalNumber dq_wf_advances [OF advances_setCommittedProposalNumber])

lemma bs_safe_onDownloadTimeout [intro]: "bs_safe s (onDownloadTimeout s)"
  by (rule bs_safe_fields) (simp_all add: onDownloadTimeout_def)

lemma bs_safe_downloadFinish [intro]: "bs_safe s (downloadFinish s)"
  by (rule bs_safe_fields) (simp_all add: downloadFinish_def)

lemma bs_wf_height: "bs_wf s \<Longrightarrow> 0 \<le> c_blockNumber (m_config s)"
  by (simp add: bs_wf_def config_wf_def height_def)

lemma bs_safe_newBlock [intro]:
  assumes "height (lc_blockNumber lc)"
  shows "bs_safe s (asyncNotifyNewBlock F lc s)"
proof (cases "bs_wf s")
  case True
  have "bs_safe s (onNewBlock F lc s)"
    using assms bs_wf_height [OF True] by (intro bs_safe_dq_more nb.handler_safe) simp_all
  also have "bs_safe \<dots> (tryToCommitBlockToLedger (onNewBlock F lc s))"
    by (intro bs_safe_dq_more) (simp_all add: dq_safe_tryToCommit)
  finally show ?thesis by (simp add: asyncNotifyNewBlock_def)
qed (simp add: bs_safe_def)

lemma bs_safe_onPeerStatus [intro]: "bs_safe s (onPeerStatus F nodeID msg s)"
  using bs_safe_updatePeerStatus [of nodeID "statusOfMsg msg" s]
  by (auto simp: onPeerStatus_def split: prod.split)

lemma bs_safe_onPeerBlocks [intro]: "bs_safe s (onPeerBlocks msg s)"
  unfolding onPeerBlocks_def by (rule bs_safe_queue) (auto simp: dq_push_def dq_wf_def)

lemma bs_wf_known: "bs_wf s \<Longrightarrow> 0 \<le> c_knownHighestNumber (m_config s)"
  by (simp add: bs_wf_def config_wf_def height_def)

lemma bs_safe_onPeerBlocksRequest [intro]: "bs_safe s (onPeerBlocksRequest F nodeID msg s)"
  using peers_wf_insertEmptyPeer [of "m_config s" "m_syncStatus s" nodeID] bs_wf_known [of s]
  by (auto simp: onPeerBlocksRequest_def Let_def bs_wf_def intro!: bs_safe_peers split: prod.split option.split)

lemma bs_safe_message [intro]: "bs_safe s (asyncNotifyBlockSyncMessage F err nodeID data s)"
  by (auto simp: asyncNotifyBlockSyncMessage_def split: option.split)

lemma bs_safe_onBlockData [intro]: "bs_safe s (onBlockData F q peer n ans s)"
  by (auto simp: onBlockData_def Let_def bs_wf_def intro!: bs_safe_peers split: sum.split)

lemma bs_safe_connectNode [intro]: "bs_safe s (connectNode F node s)"
proof -
  obtain ok cfg' st' where upd: "updatePeerStatus (fw_nodeID F (cfg_sync s)) (currentStatus (m_config s))
      (m_config s) (m_syncStatus s) = (ok, cfg', st')"
    by (metis prod_cases3)
  have "bs_safe s (s\<lparr>m_config := cfg', m_syncStatus := st'\<rparr>)" by (rule bs_safe_updatePeerStatus [OF upd])
  also have "bs_safe \<dots> (emit (SendMessage node (msg_encode (fw_encodePB F) (currentStatus (m_config s))))
      (s\<lparr>m_config := cfg', m_syncStatus := st'\<rparr>))" by blast
  finally show ?thesis using upd by (simp add: connectNode_def Let_def)
qed

lemma peers_wf_deletePeers: "peers_wf cfg st \<Longrightarrow> peers_wf cfg (fold deletePeer ps st)"
  by (induction ps arbitrary: st) auto

lemma bs_safe_maintainPeersConnection [intro]: "bs_safe s (maintainPeersConnection F s)"
proof -
  let ?ps = "foreachPeer (peerToDelete F (m_config s)) (m_syncStatus s) []"
  let ?s = "s\<lparr>m_syncStatus := fold deletePeer ?ps (m_syncStatus s)\<rparr>"
  have "bs_safe s ?s"
    by (rule bs_safe_peers) (simp add: bs_wf_def peers_wf_deletePeers)
  also have "bs_safe ?s (fold (connectNode F) (fw_groupNodeList F (cfg_sync ?s)) ?s)"
    by (rule bs_safe_fold) blast
  finally show ?thesis by (simp add: maintainPeersConnection_def Let_def)
qed

lemma bs_safe_executeWorker [intro]: "bs_safe s (executeWorker F s)"
proof -
  have "bs_safe s (maintainPeersConnection F s)" by blast
  also have "bs_safe \<dots> (executeWorker F s)"
    by (rule bs_safe_fields) (simp_all add: executeWorker_def Let_def)
  finally show ?thesis .
qed

subsection \<open>Initialisation\<close>

lemma bs_wf_init:
  assumes "height (lc_blockNumber lc)"
  shows "bs_wf (init F genesisHash lc (createBlockSync sc))"
proof -
  let ?cfg = "setGenesisHash genesisHash (newBlockSyncConfig sc)"
  have "config_wf (fst (resetConfig F lc ?cfg))"
    using assms by (intro resetConfig_wf) (simp_all add: setGenesisHash_def setKnownLatestHash_def newBlockSyncConfig_def Let_def)
  then show ?thesis
    by (simp add: bs_wf_def init_def createBlockSync_def newBlockSync_def case_prod_unfold Let_def
        dq_wf_def newDownloadingQueue_def blk.is_heap_Nil)
qed

text \<open>A node at height 6 that has learnt of a peer at height 40.\<close>

definition demoModule :: "DemoSync BlockSync" where
  "demoModule = asyncNotifyBlockSyncMessage demoFramework None (demoNode 1) (msg_encode demo_encodePB (announce 40))
     (init demoFramework (replicate 32 9) (demoLedgerConfig 6) (createBlockSync demoSync))"

lemma bs_wf_demoModule: "bs_wf demoModule"
proof -
  have "bs_wf (init demoFramework (replicate 32 9) (demoLedgerConfig 6) (createBlockSync demoSync))"
    by (rule bs_wf_init) (simp add: demoLedgerConfig_def height_def)
  then show ?thesis
    unfolding demoModule_def by (rule bs_safe_wf [OF bs_safe_message])
qed

lemma demoModule_heights:
  "c_blockNumber (m_config demoModule) = 6" "c_knownHighestNumber (m_config demoModule) = 40"
  "c_executedBlock (m_config demoModule) = 6" "c_maxRequestBlocks (m_config demoModule) = 8"
  by code_simp+

end
