(* ===== verification/BlockRequests.thy ===== *)
theory BlockRequests
  imports BlockSync
begin

text \<open>
  The requesting side of \<^verbatim>\<open>BlockSync.cpp\<close>: \<open>requestBlocks\<close> splits the missing range into shards
  and asks the peers at the known highest number for one shard each, in up to
  \<^verbatim>\<open>maxShardPerPeer\<close> rounds over the shuffled peers; \<open>tryToRequestBlocks\<close> decides when. The
  lemmas compute what a round sends; the properties state the shards, the receivers and the
  number of requests.
\<close>

section \<open>Shard arithmetic\<close>

lemma to_size_affine: "to_size (n + 1) + of_nat i * w = to_size (n + 1 + int i * uint w)"
  by (simp add: to_size_def)

lemma to_size_add_minus: "to_size n + w - 1 = to_size (n + uint w - 1)"
  by (simp add: to_size_def)

text \<open>A range and a shard size for which no \<^verbatim>\<open>size_t\<close> or \<^verbatim>\<open>BlockNumber\<close> expression wraps.\<close>

definition range_ok :: "BlockNumber \<Rightarrow> BlockNumber \<Rightarrow> size_t \<Rightarrow> bool" where
  "range_ok from to sz \<longleftrightarrow> 0 \<le> from \<and> from < to \<and> 0 < uint sz \<and> to + uint sz < 2 ^ 63"

definition shards :: "BlockNumber \<Rightarrow> BlockNumber \<Rightarrow> size_t \<Rightarrow> nat" where
  "shards from to sz = unat (shardCount from to sz)"

lemma uint_shardCount:
  assumes "range_ok from to sz"
  shows "uint (shardCount from to sz) = (to - from + uint sz - 1) div uint sz"
proof -
  have "to_size (i64 (to - from)) + sz - 1 = to_size (to - from + uint sz - 1)"
    using assms by (simp add: range_ok_def in_i64_def to_size_add_minus)
  moreover have "uint (to_size (to - from + uint sz - 1)) = to - from + uint sz - 1"
    using assms by (intro uint_to_size) (simp_all add: range_ok_def)
  ultimately show ?thesis by (simp add: shardCount_def uint_div)
qed

lemma int_shards: "range_ok from to sz \<Longrightarrow> int (shards from to sz) = (to - from + uint sz - 1) div uint sz"
  by (simp add: shards_def uint_shardCount flip: uint_nat)

lemma shard_within:
  assumes "range_ok from to sz" "i < shards from to sz"
  shows "from + 1 + int i * uint sz \<le> to"
proof -
  let ?B = "uint sz"
  have "int i + 1 \<le> (to - from + ?B - 1) div ?B" using int_shards [OF assms(1)] assms(2) by linarith
  then have "(int i + 1) * ?B \<le> (to - from + ?B - 1) div ?B * ?B"
    by (rule mult_right_mono) simp
  also have "\<dots> \<le> to - from + ?B - 1"
    using pos_mod_sign [of ?B "to - from + ?B - 1"] assms(1)
    unfolding minus_mod_eq_div_mult [symmetric] range_ok_def by linarith
  finally show ?thesis by (simp add: algebra_simps)
qed

lemma shards_all: "range_ok from to sz \<Longrightarrow> to \<le> from + int (shards from to sz) * uint sz"
proof -
  assume ok: "range_ok from to sz"
  let ?B = "uint sz" and ?x = "to - from + uint sz - 1"
  have "?x div ?B * ?B = ?x - ?x mod ?B" by (rule minus_mod_eq_div_mult [symmetric])
  moreover have "?x mod ?B < ?B" using ok by (simp add: range_ok_def)
  ultimately show ?thesis unfolding int_shards [OF ok] by linarith
qed

lemma shardFrom_eq:
  assumes "range_ok from to sz" "i < shards from to sz"
  shows "shardFrom from sz (of_nat i) = from + 1 + int i * uint sz"
proof -
  have "0 \<le> int i * uint sz" by simp
  then have "in_i64 (from + 1 + int i * uint sz)" "in_i64 (from + 1)"
    using shard_within [OF assms] assms(1) by (simp_all add: range_ok_def in_i64_def)
  then show ?thesis by (simp add: shardFrom_def to_size_affine)
qed

lemma shardTo_eq:
  assumes "range_ok from to sz" "i < shards from to sz"
  shows "shardTo from to sz (of_nat i) = min (from + (int i + 1) * uint sz) to"
proof -
  define m where "m = int i * uint sz"
  have "0 \<le> m" "from + 1 + m \<le> to" using shard_within [OF assms] by (simp_all add: m_def)
  then have "in_i64 (from + 1 + m + uint sz - 1)"
    using assms(1) unfolding range_ok_def in_i64_def by linarith
  then have "in_i64 (from + 1 + int i * uint sz + uint sz - 1)" by (simp only: m_def)
  then have "to_number (to_size (shardFrom from sz (of_nat i)) + sz - 1) = from + 1 + int i * uint sz + uint sz - 1"
    by (simp only: shardFrom_eq [OF assms] to_size_add_minus to_number_to_size)
  then show ?thesis by (simp add: shardTo_def algebra_simps)
qed

lemma interval_snoc:
  fixes a b m t :: int
  assumes "0 \<le> m" "0 < b" "a + 1 + m \<le> t"
  shows "{a + 1 .. min (a + m) t} \<union> {a + 1 + m .. min (a + m + b) t} = {a + 1 .. min (a + m + b) t}"
  using assms by (auto simp: min_def)

lemma shards_cover:
  assumes ok: "range_ok from to sz" and n: "n \<le> shards from to sz"
  shows "(\<Union>i<n. {shardFrom from sz (of_nat i) .. shardTo from to sz (of_nat i)}) =
    {from + 1 .. min (from + int n * uint sz) to}"
  using n
proof (induction n)
  case (Suc n)
  have lo: "from + 1 + int n * uint sz \<le> to" using shard_within [OF ok] Suc.prems by simp
  have "0 \<le> int n * uint sz" "0 < uint sz" using ok by (simp_all add: range_ok_def)
  then have "{from + 1 .. min (from + int n * uint sz) to} \<union>
      {from + 1 + int n * uint sz .. min (from + (int n + 1) * uint sz) to} =
      {from + 1 .. min (from + int (Suc n) * uint sz) to}"
    using interval_snoc [OF _ _ lo, of "uint sz"] by (simp add: algebra_simps)
  with Suc show ?case
    by (simp add: lessThan_Suc shardFrom_eq [OF ok] shardTo_eq [OF ok] Un_commute)
qed simp

section \<open>What a round sends\<close>

definition requestCalls ::
  "'sc Framework \<Rightarrow> BlockNumber \<Rightarrow> BlockNumber \<Rightarrow> size_t \<Rightarrow> nat \<Rightarrow> PeerStatus list \<Rightarrow> call list" where
  "requestCalls F from to sz i ps =
     map (\<lambda>(j, p). SendMessage (ps_nodeId p) (msg_encode (fw_encodePB F)
         (shardRequest (shardFrom from sz (of_nat j)) (shardTo from to sz (of_nat j)))))
       (zip [i ..< i + length ps] ps)"

text \<open>The module after the shards from \<open>i\<close> on have been requested from the peers \<open>ps\<close>, in order.\<close>

definition sent ::
  "'sc Framework \<Rightarrow> BlockNumber \<Rightarrow> BlockNumber \<Rightarrow> nat \<Rightarrow> PeerStatus list \<Rightarrow> 'sc BlockSync \<Rightarrow> 'sc BlockSync" where
  "sent F from to i ps s =
     s\<lparr>calls := calls s @ requestCalls F from to (c_maxRequestBlocks (m_config s)) i ps,
       m_maxRequestNumber := fold (\<lambda>j m. max m (shardTo from to (c_maxRequestBlocks (m_config s)) (of_nat j)))
         [i ..< i + length ps] (m_maxRequestNumber s)\<rparr>"

lemma sent_frame [simp]:
  "m_config (sent F from to i ps s) = m_config s" "m_syncStatus (sent F from to i ps s) = m_syncStatus s"
  "m_downloadingQueue (sent F from to i ps s) = m_downloadingQueue s" "m_state (sent F from to i ps s) = m_state s"
  "m_waterMark (sent F from to i ps s) = m_waterMark s"
  "calls (sent F from to i ps s) = calls s @ requestCalls F from to (c_maxRequestBlocks (m_config s)) i ps"
  by (simp_all add: sent_def)

lemma sent_Nil [simp]: "sent F from to i [] s = s"
  by (simp add: sent_def requestCalls_def)

lemma upt_add_append: "[i ..< i + (m + n)] = [i ..< i + m] @ [i + m ..< i + m + n]"
  using upt_add_eq_append [of i "i + m" n] by (simp add: add.assoc)

lemma sent_append: "sent F from to (i + length ps) qs (sent F from to i ps s) = sent F from to i (ps @ qs) s"
  by (simp add: sent_def requestCalls_def upt_add_append)

lemma sent_Cons: "sent F from to (Suc i) ps (sent F from to i [p] s) = sent F from to i (p # ps) s"
  using sent_append [of F "from" to i "[p]" ps s] by simp

text \<open>The peers requests go to: those at the known highest number.\<close>

definition upToDate :: "'sc BlockSyncConfig \<Rightarrow> PeerStatus \<Rightarrow> bool" where
  "upToDate cfg p \<longleftrightarrow> c_knownHighestNumber cfg \<le> ps_number p"

lemma of_nat_less_shards:
  "i \<le> shards from to sz \<Longrightarrow> of_nat i < shardCount from to sz \<longleftrightarrow> i < shards from to sz"
proof -
  assume "i \<le> shards from to sz"
  also have "\<dots> < 2 ^ 64" unfolding shards_def using unsigned_less [of "shardCount from to sz", where 'a = nat] by simp
  finally have "unat (of_nat i :: size_t) = i" by (simp add: unat_of_nat)
  then show ?thesis by (simp add: word_less_nat_alt shards_def)
qed

lemma requestShard_eq:
  assumes ok: "range_ok from to (c_maxRequestBlocks (m_config s))" "to \<le> c_knownHighestNumber (m_config s)"
    and i: "i < shards from to (c_maxRequestBlocks (m_config s))"
  shows "requestShard F from to (shardCount from to (c_maxRequestBlocks (m_config s))) p (of_nat i, fp, s) =
    (if upToDate (m_config s) p
     then (Suc i < shards from to (c_maxRequestBlocks (m_config s)), of_nat (Suc i), True, sent F from to i [p] s)
     else (True, of_nat i, fp, s))"
proof -
  have "shardTo from to (c_maxRequestBlocks (m_config s)) (of_nat i) \<le> to" by (simp add: shardTo_def)
  then have "\<not> ps_number p < shardTo from to (c_maxRequestBlocks (m_config s)) (of_nat i)"
    if "upToDate (m_config s) p"
    using that ok(2) by (simp add: upToDate_def)
  moreover have "of_nat i + 1 < shardCount from to (c_maxRequestBlocks (m_config s)) \<longleftrightarrow>
      Suc i < shards from to (c_maxRequestBlocks (m_config s))"
    using of_nat_less_shards [of "Suc i" "from" to "c_maxRequestBlocks (m_config s)"] i by (simp add: add.commute)
  ultimately show ?thesis
    by (auto simp: requestShard_def upToDate_def sent_def requestCalls_def emit_def Let_def add.commute)
qed

lemma visit_requests:
  assumes "range_ok from to (c_maxRequestBlocks (m_config s))" "to \<le> c_knownHighestNumber (m_config s)"
    and "i < shards from to (c_maxRequestBlocks (m_config s))"
  shows "\<exists>qs. qs = take (shards from to (c_maxRequestBlocks (m_config s)) - i) (filter (upToDate (m_config s)) ps) \<and>
    visit (requestShard F from to (shardCount from to (c_maxRequestBlocks (m_config s)))) ps (of_nat i, fp, s) =
      (of_nat (i + length qs), fp \<or> qs \<noteq> [], sent F from to i qs s)"
  using assms
proof (induction ps arbitrary: i fp s)
  case (Cons p ps)
  let ?N = "shards from to (c_maxRequestBlocks (m_config s))"
  note eq = requestShard_eq [OF Cons.prems]
  show ?case
  proof (cases "upToDate (m_config s) p \<and> Suc i < ?N")
    case True
    then have d: "?N - i = Suc (?N - Suc i)" by linarith
    from True Cons.prems Cons.IH [of "sent F from to i [p] s" "Suc i" True] show ?thesis
      by (simp add: eq sent_Cons d)
  next
    case False
    then have "?N - i = 1 \<or> \<not> upToDate (m_config s) p" using Cons.prems(3) by auto
    with False Cons.prems Cons.IH [of s i fp] show ?thesis
      by (auto simp: eq)
  qed
qed simp

lemma requestLoop_sent:
  assumes "range_ok from to (c_maxRequestBlocks (m_config s))" "to \<le> c_knownHighestNumber (m_config s)"
    and "i \<le> shards from to (c_maxRequestBlocks (m_config s))" and "map_sorted (m_peersStatus (m_syncStatus s))"
    and g: "G = filter_mset (upToDate (m_config s)) (mset (map snd (m_peersStatus (m_syncStatus s))))"
  shows "\<exists>ps. requestLoop F rnds from to (shardCount from to (c_maxRequestBlocks (m_config s))) n (of_nat i) s =
      sent F from to i ps s \<and> length ps = min (n * size G) (shards from to (c_maxRequestBlocks (m_config s)) - i) \<and>
    (\<forall>p. count (mset ps) p \<le> n * count G p)"
  using assms
proof (induction n arbitrary: i s)
  case (Suc n)
  let ?sz = "c_maxRequestBlocks (m_config s)"
  let ?N = "shards from to ?sz"
  show ?case
  proof (cases "i < ?N")
    case i: True
    obtain peers where peers: "mset peers = mset (map snd (m_peersStatus (m_syncStatus s)))"
      and rnd: "foreachPeerRandom (rnds n) (requestShard F from to (shardCount from to ?sz)) (m_syncStatus s)
          (of_nat i, False, s) = visit (requestShard F from to (shardCount from to ?sz)) peers (of_nat i, False, s)"
      using foreachPeerRandom_visit [OF Suc.prems(4), of "rnds n"
        "requestShard F from to (shardCount from to ?sz)" "(of_nat i, False, s)"]
      by (elim exE conjE) (rule that)
    define qs where "qs = take (?N - i) (filter (upToDate (m_config s)) peers)"
    have G: "G = mset (filter (upToDate (m_config s)) peers)" using Suc.prems(5) peers by simp
    have "size G = length (filter (upToDate (m_config s)) peers)" by (simp only: G size_mset)
    then have len: "length qs = min (size G) (?N - i)" by (simp add: qs_def)
    have "G = mset qs + mset (drop (?N - i) (filter (upToDate (m_config s)) peers))"
      unfolding G qs_def by (simp only: append_take_drop_id flip: mset_append)
    then have cnt: "count (mset qs) p \<le> count G p" for p by simp
    have step: "requestLoop F rnds from to (shardCount from to ?sz) (Suc n) (of_nat i) s =
        (if qs \<noteq> [] then requestLoop F rnds from to (shardCount from to ?sz) n (of_nat (i + length qs)) (sent F from to i qs s)
         else sent F from to i qs s)"
      using visit_requests [OF Suc.prems(1,2) i, of peers F False] rnd i Suc.prems(3)
      by (simp add: of_nat_less_shards qs_def)
    show ?thesis
    proof (cases "qs = []")
      case True
      then have "size G = 0" using len i by (simp add: min_def split: if_splits)
      with True step show ?thesis by (intro exI [of _ "[]"]) simp
    next
      case False
      have le: "i + length qs \<le> ?N" using len i by simp
      obtain ps where ps: "requestLoop F rnds from to (shardCount from to ?sz) n (of_nat (i + length qs)) (sent F from to i qs s) =
          sent F from to (i + length qs) ps (sent F from to i qs s)"
        "length ps = min (n * size G) (?N - (i + length qs))" "\<forall>p. count (mset ps) p \<le> n * count G p"
        using Suc.IH [of "sent F from to i qs s" "i + length qs", unfolded sent_frame,
            OF Suc.prems(1,2) le Suc.prems(4,5)] by blast
      have "count (mset (qs @ ps)) p \<le> Suc n * count G p" for p using cnt [of p] ps(3) by (simp add: add_mono)
      moreover have "length (qs @ ps) = min (Suc n * size G) (?N - i)" using ps(2) len by (auto simp: min_def)
      ultimately show ?thesis using False step ps(1) sent_append by metis
    qed
  next
    case False
    with Suc.prems show ?thesis by (intro exI [of _ "[]"]) (simp add: of_nat_less_shards)
  qed
qed (intro exI [of _ "[]"], simp)

lemma fold_max: "fold (\<lambda>j m. max m (f j)) [a ..< b] x = Max (insert x (f ` {a ..< b}))" for x :: int
proof (induction b)
  case (Suc b)
  then show ?case
    by (cases "a \<le> b") (simp_all add: atLeastLessThanSuc insert_commute [of x] max.commute)
qed simp

text \<open>The peers of the table that are at the known highest number.\<close>

definition sources :: "'sc BlockSync \<Rightarrow> PeerStatus multiset" where
  "sources s = filter_mset (upToDate (m_config s)) (mset (map snd (m_peersStatus (m_syncStatus s))))"

lemma senders_among:
  assumes "\<And>p. count (mset ps) p \<le> n * count M p"
  shows "set ps \<subseteq> set_mset M"
proof
  fix p assume "p \<in> set ps"
  then have "0 < count (mset ps) p" by (simp add: count_greater_zero_iff)
  with assms [of p] have "0 < n * count M p" by (rule less_le_trans [rotated])
  then show "p \<in># M" by (simp flip: count_greater_zero_iff)
qed

lemma requestBlocks_sent:
  assumes "bs_wf s" "range_ok from to (c_maxRequestBlocks (m_config s))" "to \<le> c_knownHighestNumber (m_config s)"
  shows "\<exists>ps. requestBlocks F rnds from to s =
      sent F from to 0 ps (s\<lparr>m_state := Downloading, m_timerRunning := True\<rparr>) \<and>
    length ps = min (unat (c_maxShardPerPeer (m_config s)) * size (sources s))
      (shards from to (c_maxRequestBlocks (m_config s))) \<and>
    (\<forall>p. count (mset ps) p \<le> unat (c_maxShardPerPeer (m_config s)) * count (sources s) p)"
  using requestLoop_sent [of "from" to "s\<lparr>m_state := Downloading, m_timerRunning := True\<rparr>" 0 "sources s" F rnds
      "unat (c_maxShardPerPeer (m_config s))"] assms
  by (simp add: requestBlocks_def sources_def bs_wf_def peers_wf_def)

lemma count_sources_le: "bs_wf s \<Longrightarrow> count (sources s) p \<le> 1"
proof -
  assume "bs_wf s"
  then have wf: "peers_wf (m_config s) (m_syncStatus s)" by (simp add: bs_wf_def)
  let ?m = "m_peersStatus (m_syncStatus s)"
  have dist: "distinct (map fst ?m)" using map_sorted_distinct [OF peers_wfD(1) [OF wf]] .
  have key: "np_data (ps_nodeId (snd e)) = fst e" if "e \<in> set ?m" for e
    using peers_wfD(2) [OF wf, of "fst e" "snd e"] that dist by (simp add: peer_ok_def)
  have "map fst ?m = map (\<lambda>p. np_data (ps_nodeId p)) (map snd ?m)" using key by simp
  then have "distinct (map snd ?m)" using dist by (metis distinct_map)
  then have "count (mset (map snd ?m)) p \<le> 1" unfolding distinct_count_atmost_1 by simp
  then show ?thesis by (simp add: sources_def)
qed

section \<open>The contract\<close>

text \<open>What each message, the notification and the change of state keep, requesting keeps.\<close>

lemma requestBlocks_inv:
  assumes send: "\<And>s n d m. P s \<Longrightarrow> P ((emit (SendMessage n d) s)\<lparr>m_maxRequestNumber := m\<rparr>)"
    and "P (s\<lparr>m_state := Downloading, m_timerRunning := True\<rparr>)"
  shows "P (requestBlocks F rnds from to s)"
proof -
  have shard: "P (snd (snd r)) \<Longrightarrow> P (snd (snd (snd (requestShard F from to k p r))))" for k p r
    by (cases r) (auto simp: requestShard_def Let_def intro: send)
  have "P s \<Longrightarrow> P (requestLoop F rnds from to k n shard s)" for k n shard s
  proof (induction n arbitrary: shard s)
    case (Suc n)
    have "P (snd (snd (foreachPeerRandom (rnds n) (requestShard F from to k) (m_syncStatus s) (shard, False, s))))"
      by (rule foreachPeerRandom_inv [where P = "\<lambda>r. P (snd (snd r))"]) (simp_all add: shard Suc.prems)
    with Suc show ?case by (auto split: prod.split)
  qed simp
  with assms(2) show ?thesis by (simp add: requestBlocks_def Let_def)
qed

lemma tryToRequestBlocks_inv:
  assumes send: "\<And>s n d m. P s \<Longrightarrow> P ((emit (SendMessage n d) s)\<lparr>m_maxRequestNumber := m\<rparr>)"
    and tell: "\<And>s n. P s \<Longrightarrow> P (emit (NotifyHighestSyncingNumber n) s)"
    and state: "\<And>s st. P s \<Longrightarrow> P (s\<lparr>m_state := st\<rparr>)" and timer: "\<And>s t. P s \<Longrightarrow> P (s\<lparr>m_timerRunning := t\<rparr>)"
    and "P s"
  shows "P (tryToRequestBlocks F rnds s)"
proof -
  have "P (downloadFinish s)" unfolding downloadFinish_def by (intro state timer \<open>P s\<close>)
  moreover have "P (requestBlocks F rnds f t s)" if "P s" for f t s
    by (rule requestBlocks_inv) (intro send state timer that | assumption)+
  ultimately show ?thesis using \<open>P s\<close> tell by (simp add: tryToRequestBlocks_def Let_def)
qed

lemma bs_safe_tryToRequestBlocks [intro]: "bs_safe s (tryToRequestBlocks F rnds s)"
  by (rule tryToRequestBlocks_inv) (auto simp: bs_safe_def bs_wf_def)

section \<open>Properties\<close>

text \<open>
  C22: the shards split the missing range: the \<^verbatim>\<open>[from, to]\<close> of the first \<open>n\<close> shards cover
  exactly the blocks after \<^verbatim>\<open>_from\<close> up to the end of shard \<open>n\<close>, all of them up to \<^verbatim>\<open>_to\<close>, each
  shard is non-empty, has at most \<^verbatim>\<open>maxRequestBlocks\<close> blocks and starts right after the one
  before it; no \<^verbatim>\<open>size_t\<close> expression wraps.
\<close>

theorem shards_partition:
  assumes "range_ok from to sz" and "n \<le> shards from to sz"
  shows "(\<Union>i<n. {shardFrom from sz (of_nat i) .. shardTo from to sz (of_nat i)}) =
      {from + 1 .. min (from + int n * uint sz) to} \<and>
    (\<Union>i\<in>{..<shards from to sz}. {shardFrom from sz (of_nat i) .. shardTo from to sz (of_nat i)}) = {from + 1 .. to} \<and>
    (\<forall>i < shards from to sz. shardFrom from sz (of_nat i) \<le> shardTo from to sz (of_nat i) \<and>
       shardTo from to sz (of_nat i) < shardFrom from sz (of_nat i) + uint sz) \<and>
    (\<forall>i. Suc i < shards from to sz \<longrightarrow>
       shardFrom from sz (of_nat (Suc i)) = shardTo from to sz (of_nat i) + 1)"
proof (intro conjI allI impI)
  show "(\<Union>i<n. {shardFrom from sz (of_nat i) .. shardTo from to sz (of_nat i)}) =
      {from + 1 .. min (from + int n * uint sz) to}"
    by (rule shards_cover [OF assms])
  show "(\<Union>i\<in>{..<shards from to sz}. {shardFrom from sz (of_nat i) .. shardTo from to sz (of_nat i)}) = {from + 1 .. to}"
    unfolding shards_cover [OF assms(1) order_refl] using shards_all [OF assms(1)] by simp
next
  fix i assume i: "i < shards from to sz"
  show "shardFrom from sz (of_nat i) \<le> shardTo from to sz (of_nat i)"
    "shardTo from to sz (of_nat i) < shardFrom from sz (of_nat i) + uint sz"
    unfolding shardFrom_eq [OF assms(1) i] shardTo_eq [OF assms(1) i]
    using shard_within [OF assms(1) i] assms(1) by (auto simp: range_ok_def algebra_simps)
next
  fix i assume i: "Suc i < shards from to sz"
  show "shardFrom from sz (of_nat (Suc i)) = shardTo from to sz (of_nat i) + 1"
    using shard_within [OF assms(1) i] i
    unfolding shardFrom_eq [OF assms(1) i] shardTo_eq [OF assms(1) Suc_lessD [OF i]]
    by (simp add: algebra_simps min_def)
qed

theorem shards_partition_witness:
  "\<exists>m. m = shards 6 40 8 \<and>
    (\<Union>i<2. {shardFrom 6 8 (of_nat i) .. shardTo 6 40 8 (of_nat i)}) = {6 + 1 .. min (6 + int 2 * uint (8 :: size_t)) 40} \<and>
    (\<Union>i<m. {shardFrom 6 8 (of_nat i) .. shardTo 6 40 8 (of_nat i)}) = {6 + 1 .. 40} \<and>
    (\<forall>i < m. shardFrom 6 8 (of_nat i) \<le> shardTo 6 40 8 (of_nat i) \<and>
       shardTo 6 40 8 (of_nat i) < shardFrom 6 8 (of_nat i) + uint (8 :: size_t)) \<and>
    (\<forall>i. Suc i < m \<longrightarrow> shardFrom 6 8 (of_nat (Suc i)) = shardTo 6 40 8 (of_nat i) + 1)"
proof -
  have "range_ok 6 40 8" by (simp add: range_ok_def)
  moreover have "2 \<le> shards 6 40 8" by code_simp
  ultimately show ?thesis using shards_partition [of 6 40 8 2] by blast
qed

text \<open>
  C21: who is asked for what. \<^verbatim>\<open>requestBlocks\<close> sends the requests for the shards 0, 1, 2, ...
  in order, one per message, only to peers of the table that are at the known highest
  number, to each at most \<^verbatim>\<open>maxShardPerPeer\<close> times; it sends exactly as many as there are
  shards or, if fewer, places at such peers, whatever \<^verbatim>\<open>rand()\<close> returns. It enters the
  downloading state, records the greatest number requested and changes nothing else.
\<close>

theorem requestBlocks_correct:
  assumes "bs_wf s" and "range_ok from to (c_maxRequestBlocks (m_config s))"
    and "to \<le> c_knownHighestNumber (m_config s)" and "s' = requestBlocks F rnds from to s"
  shows "\<exists>ps. calls s' = calls s @ requestCalls F from to (c_maxRequestBlocks (m_config s)) 0 ps \<and>
      length ps = min (unat (c_maxShardPerPeer (m_config s)) * size (sources s))
        (shards from to (c_maxRequestBlocks (m_config s))) \<and>
      (\<forall>p. count (mset ps) p \<le> (if p \<in># sources s then unat (c_maxShardPerPeer (m_config s)) else 0)) \<and>
      m_maxRequestNumber s' = Max (insert (m_maxRequestNumber s)
        ((\<lambda>j. shardTo from to (c_maxRequestBlocks (m_config s)) (of_nat j)) ` {0 ..< length ps})) \<and>
      m_state s' = Downloading \<and> m_timerRunning s' \<and>
      m_config s' = m_config s \<and> m_downloadingQueue s' = m_downloadingQueue s \<and> m_syncStatus s' = m_syncStatus s"
proof -
  obtain ps where ps: "s' = sent F from to 0 ps (s\<lparr>m_state := Downloading, m_timerRunning := True\<rparr>)"
    "length ps = min (unat (c_maxShardPerPeer (m_config s)) * size (sources s))
      (shards from to (c_maxRequestBlocks (m_config s)))"
    "\<forall>p. count (mset ps) p \<le> unat (c_maxShardPerPeer (m_config s)) * count (sources s) p"
    using requestBlocks_sent [OF assms(1-3), of F rnds] assms(4) by blast
  have "count (mset ps) p \<le> (if p \<in># sources s then unat (c_maxShardPerPeer (m_config s)) else 0)" for p
  proof -
    have "count (mset ps) p \<le> unat (c_maxShardPerPeer (m_config s)) * count (sources s) p" using ps(3) by blast
    also have "\<dots> \<le> (if p \<in># sources s then unat (c_maxShardPerPeer (m_config s)) else 0)"
      using count_sources_le [OF assms(1), of p] by (simp add: not_in_iff)
    finally show ?thesis .
  qed
  then show ?thesis using ps by (intro exI [of _ ps]) (simp add: fold_max sent_def)
qed

lemma demoModule_range: "range_ok 6 40 (c_maxRequestBlocks (m_config demoModule))"
  by (simp add: range_ok_def demoModule_heights)

theorem requestBlocks_correct_witness:
  "\<exists>s' ps. s' = requestBlocks demoFramework (\<lambda>_ i. i) 6 40 demoModule \<and>
      calls s' = calls demoModule @ requestCalls demoFramework 6 40 (c_maxRequestBlocks (m_config demoModule)) 0 ps \<and>
      length ps = min (unat (c_maxShardPerPeer (m_config demoModule)) * size (sources demoModule))
        (shards 6 40 (c_maxRequestBlocks (m_config demoModule))) \<and>
      (\<forall>p. count (mset ps) p \<le>
        (if p \<in># sources demoModule then unat (c_maxShardPerPeer (m_config demoModule)) else 0)) \<and>
      m_maxRequestNumber s' = Max (insert (m_maxRequestNumber demoModule)
        ((\<lambda>j. shardTo 6 40 (c_maxRequestBlocks (m_config demoModule)) (of_nat j)) ` {0 ..< length ps})) \<and>
      m_state s' = Downloading \<and> m_timerRunning s' \<and> m_config s' = m_config demoModule \<and>
      m_downloadingQueue s' = m_downloadingQueue demoModule \<and> m_syncStatus s' = m_syncStatus demoModule"
proof -
  have "40 \<le> c_knownHighestNumber (m_config demoModule)" by (simp add: demoModule_heights)
  from requestBlocks_correct [OF bs_wf_demoModule demoModule_range this refl, of demoFramework "\<lambda>_ i. i"]
  show ?thesis by blast
qed

text \<open>When \<^verbatim>\<open>tryToRequestBlocks\<close> does nothing.\<close>

definition requestBlocked :: "'sc BlockSync \<Rightarrow> bool" where
  "requestBlocked s \<longleftrightarrow>
     c_blockNumber (m_config s) < c_executedBlock (m_config s) \<and> m_commitQueue (m_downloadingQueue s) \<noteq> [] \<or>
     \<not> shouldSyncing s \<or>
     m_state s = Downloading \<and> c_blockNumber (m_config s) < m_maxRequestNumber s \<and>
       c_executedBlock (m_config s) < m_maxRequestNumber s"

lemma requestTarget_le: "requestTarget s \<le> c_knownHighestNumber (m_config s)"
  by (simp add: requestTarget_def Let_def split: option.split)

text \<open>
  The last block of the range asked for: the known highest block, or the one before the lowest
  downloaded block, if that is not the next one of the ledger.
\<close>

definition rangeEnd :: "BlockNumber \<Rightarrow> BlockNumber \<Rightarrow> Block set \<Rightarrow> BlockNumber" where
  "rangeEnd n known bs =
     (if bs \<noteq> {} \<and> n + 1 < Min (block_number ` bs) then min known (Min (block_number ` bs) - 1) else known)"

lemma requestTarget_rangeEnd:
  assumes wf: "bs_wf s" and range: "\<forall>b \<in> set (m_blocks (m_downloadingQueue s)). in_i64 (block_number b)"
  shows "requestTarget s =
    rangeEnd (c_blockNumber (m_config s)) (c_knownHighestNumber (m_config s)) (set (m_blocks (m_downloadingQueue s)))"
proof (cases "dq_top (m_downloadingQueue s)")
  case None
  then show ?thesis by (simp add: requestTarget_def rangeEnd_def dq_top_def)
next
  case (Some b)
  let ?bs = "m_blocks (m_downloadingQueue s)"
  have heap: "blk_heap ?bs" and top: "pq_top ?bs = Some b"
    using wf Some by (simp_all add: bs_wf_def dq_wf_def dq_top_def)
  have b: "b \<in> set ?bs" using pq_top_SomeD [OF top] by simp
  have "Min (block_number ` set ?bs) = block_number b"
    using b blk_top_least [OF heap top] by (intro Min_eqI) auto
  moreover have "c_nextBlock (m_config s) = c_blockNumber (m_config s) + 1" "0 \<le> c_blockNumber (m_config s)"
    using wf by (simp_all add: bs_wf_def config_wf_def height_def)
  moreover have "i64 (block_number b - 1) = block_number b - 1" if "0 < block_number b"
    using range b that by (intro i64_id) (auto simp: in_i64_def)
  moreover have "set ?bs \<noteq> {}" using b by auto
  ultimately show ?thesis using Some by (simp add: requestTarget_def rangeEnd_def)
qed

lemma rangeEnd_le: "rangeEnd n known bs \<le> known"
  by (simp add: rangeEnd_def)

lemma downloadFinish_frame [simp]:
  "m_config (downloadFinish s) = m_config s" "m_downloadingQueue (downloadFinish s) = m_downloadingQueue s"
  "m_syncStatus (downloadFinish s) = m_syncStatus s" "calls (downloadFinish s) = calls s"
  "m_maxRequestNumber (downloadFinish s) = m_maxRequestNumber s" "m_state (downloadFinish s) = Idle"
  by (simp_all add: downloadFinish_def)

lemma shouldSyncing_cong: "m_config s' = m_config s \<Longrightarrow> shouldSyncing s' = shouldSyncing s"
  by (simp add: shouldSyncing_def)

text \<open>The two outcomes, with the module \<open>s1\<close> at the point where the target is computed.\<close>

lemma tryToRequestBlocks_blocked: "requestBlocked s \<Longrightarrow> calls (tryToRequestBlocks F rnds s) = calls s"
  by (auto simp: tryToRequestBlocks_def requestBlocked_def commitQueueSize_def isSyncing_def Let_def
      shouldSyncing_cong [of "downloadFinish s" s])

lemma tryToRequestBlocks_active:
  assumes "\<not> requestBlocked s"
  obtains s1 where "m_config s1 = m_config s" "m_downloadingQueue s1 = m_downloadingQueue s"
    "m_syncStatus s1 = m_syncStatus s"
    "calls s1 = calls s @ [NotifyHighestSyncingNumber (c_knownHighestNumber (m_config s))]"
    "tryToRequestBlocks F rnds s =
       (if requestTarget s \<le> c_blockNumber (m_config s) then s1
        else requestBlocks F rnds (c_blockNumber (m_config s)) (requestTarget s) s1)"
proof -
  define s0 where "s0 = (if m_maxRequestNumber s \<le> c_blockNumber (m_config s) \<or>
    m_maxRequestNumber s \<le> c_executedBlock (m_config s) then downloadFinish s else s)"
  have s0: "m_config s0 = m_config s" "m_downloadingQueue s0 = m_downloadingQueue s"
    "m_syncStatus s0 = m_syncStatus s" "calls s0 = calls s"
    by (simp_all add: s0_def)
  have idle: "m_state s0 = Idle"
    using assms by (cases "m_state s") (auto simp: requestBlocked_def s0_def)
  define s1 where "s1 = emit (NotifyHighestSyncingNumber (c_knownHighestNumber (m_config s))) s0"
  have "requestTarget s1 = requestTarget s" by (simp add: requestTarget_def s1_def s0 Let_def split: option.split)
  with assms have "tryToRequestBlocks F rnds s =
      (if requestTarget s \<le> c_blockNumber (m_config s) then s1
       else requestBlocks F rnds (c_blockNumber (m_config s)) (requestTarget s) s1)"
    using shouldSyncing_cong [OF s0(1)] idle s0
    by (auto simp: tryToRequestBlocks_def requestBlocked_def commitQueueSize_def isSyncing_def
        s0_def [symmetric] s1_def Let_def)
  then show thesis by (rule that [rotated -1]) (simp_all add: s1_def s0)
qed

text \<open>
  C23: when blocks are requested, and which. Nothing is sent while executed blocks wait for their
  commit, while nobody is known to be ahead, or while an earlier request is still being
  worked off. Otherwise the consensus module is told the known highest number, and the blocks
  above the ledger's height are requested in shards, up to the block before the lowest
  downloaded one, if that is not the next block (never beyond the known highest), and up to the
  known highest block in all other cases; no message is sent if that leaves nothing to ask for.
\<close>

theorem tryToRequestBlocks_correct:
  assumes wf: "bs_wf s" and sz: "0 < uint (c_maxRequestBlocks (m_config s))"
    and top: "c_knownHighestNumber (m_config s) + uint (c_maxRequestBlocks (m_config s)) < 2 ^ 63"
    and range: "\<forall>b \<in> set (m_blocks (m_downloadingQueue s)). in_i64 (block_number b)"
    and n: "n = c_blockNumber (m_config s)"
    and t: "t = rangeEnd n (c_knownHighestNumber (m_config s)) (set (m_blocks (m_downloadingQueue s)))"
  shows "if requestBlocked s then calls (tryToRequestBlocks F rnds s) = calls s
    else \<exists>ps. set ps \<subseteq> {p. p \<in># sources s} \<and>
      length ps = (if t \<le> n then 0
        else min (unat (c_maxShardPerPeer (m_config s)) * size (sources s)) (shards n t (c_maxRequestBlocks (m_config s)))) \<and>
      calls (tryToRequestBlocks F rnds s) = calls s @
        NotifyHighestSyncingNumber (c_knownHighestNumber (m_config s)) #
        requestCalls F n t (c_maxRequestBlocks (m_config s)) 0 ps"
proof (cases "requestBlocked s")
  case True
  then show ?thesis by (simp add: tryToRequestBlocks_blocked)
next
  case False
  then obtain s1 where s1: "m_config s1 = m_config s" "m_downloadingQueue s1 = m_downloadingQueue s"
      "m_syncStatus s1 = m_syncStatus s"
      "calls s1 = calls s @ [NotifyHighestSyncingNumber (c_knownHighestNumber (m_config s))]"
    and eq: "tryToRequestBlocks F rnds s =
       (if requestTarget s \<le> c_blockNumber (m_config s) then s1
        else requestBlocks F rnds (c_blockNumber (m_config s)) (requestTarget s) s1)"
    by (rule tryToRequestBlocks_active)
  let ?sz = "c_maxRequestBlocks (m_config s)"
  have wf1: "bs_wf s1" using wf s1 by (simp add: bs_wf_def)
  have src: "sources s1 = sources s" by (simp add: sources_def s1)
  have n0: "0 \<le> n" using wf n by (simp add: bs_wf_def config_wf_def height_def)
  have target: "requestTarget s = t"
    using requestTarget_rangeEnd [OF wf range] by (simp add: t n)
  show ?thesis
  proof (cases "t \<le> n")
    case True
    then show ?thesis using False eq s1 n target by (auto simp: requestCalls_def intro!: exI [of _ "[]"])
  next
    case t_above: False
    have le: "t \<le> c_knownHighestNumber (m_config s)" by (simp add: t rangeEnd_le)
    have "range_ok n t ?sz" using t_above n0 sz top le by (simp add: range_ok_def)
    then obtain ps where ps: "requestBlocks F rnds n t s1 = sent F n t 0 ps (s1\<lparr>m_state := Downloading, m_timerRunning := True\<rparr>)"
      "length ps = min (unat (c_maxShardPerPeer (m_config s)) * size (sources s)) (shards n t ?sz)"
      "\<forall>p. count (mset ps) p \<le> unat (c_maxShardPerPeer (m_config s)) * count (sources s) p"
      using requestBlocks_sent [OF wf1, of n t F rnds] le by (auto simp: s1 src)
    moreover from this(3) have "set ps \<subseteq> set_mset (sources s)" by (intro senders_among) blast
    ultimately show ?thesis using False t_above eq s1 n target by (auto intro!: exI [of _ ps])
  qed
qed

text \<open>
  The node of the example at height 6 with block 9 downloaded: it asks for the blocks 7 and 8.
\<close>

definition demoGap :: "DemoSync BlockSync" where
  "demoGap = demoModule\<lparr>m_downloadingQueue := newDownloadingQueue\<lparr>m_blocks := [demoBlock 9 0]\<rparr>\<rparr>"

lemma bs_wf_demoGap: "bs_wf demoGap"
  using bs_wf_demoModule
  by (simp add: bs_wf_def demoGap_def dq_wf_def newDownloadingQueue_def blk.is_heap_Nil)

theorem tryToRequestBlocks_correct_witness:
  "\<not> requestBlocked demoGap \<and>
    (\<exists>ps. set ps \<subseteq> {p. p \<in># sources demoGap} \<and>
      length ps = min (unat (c_maxShardPerPeer (m_config demoGap)) * size (sources demoGap))
        (shards 6 8 (c_maxRequestBlocks (m_config demoGap))) \<and>
      calls (tryToRequestBlocks demoFramework (\<lambda>_ i. i) demoGap) = calls demoGap @
        NotifyHighestSyncingNumber 40 # requestCalls demoFramework 6 8 (c_maxRequestBlocks (m_config demoGap)) 0 ps)"
proof -
  have demo: "c_blockNumber (m_config demoGap) = 6" "c_knownHighestNumber (m_config demoGap) = 40"
    "uint (c_maxRequestBlocks (m_config demoGap)) = uint (c_maxRequestBlocks (m_config demoModule))"
    "m_blocks (m_downloadingQueue demoGap) = [demoBlock 9 0]"
    by (simp_all add: demoGap_def demoModule_heights)
  have nine: "block_number (demoBlock 9 0) = 9" by code_simp
  have "\<not> requestBlocked demoGap" by code_simp
  then show ?thesis
    using tryToRequestBlocks_correct [OF bs_wf_demoGap _ _ _ refl refl, of demoFramework "\<lambda>_ i. i"]
    by (simp add: demo nine demoModule_heights in_i64_def rangeEnd_def)
qed

end
