(* ===== verification/BlockExecution.thy ===== *)
theory BlockExecution
  imports BlockRequests
begin

text \<open>
  The downloading side of the worker: \<open>maintainDownloadingBuffer\<close> moves packets into the block
  queue, \<open>maintainDownloadingQueue\<close> hands the next block to the scheduler, and \<open>downloadTask\<close>
  is the task of the download pool that runs both and then requests more blocks. The
  properties state which block is executed and when, and what happens to a queue that a
  packet has filled past its limit.
\<close>

section \<open>The contract\<close>

lemma dq_wf_clear: "dq_wf cfg q \<Longrightarrow> dq_wf cfg' (dq_clear q)"
  by (simp add: dq_wf_def dq_clear_def clearQueue_def blk.is_heap_Nil)

lemma dq_wf_clearFull: "dq_wf cfg q \<Longrightarrow> dq_wf cfg (clearFullQueueIfNotHas cfg' n q)"
  by (simp add: dq_wf_def clearFullQueueIfNotHas_def clearQueue_def blk.is_heap_Nil Let_def)

lemma dq_wf_flush: "dq_wf cfg q \<Longrightarrow> dq_wf cfg (flushBufferToQueue F cfg q)"
  using flushBuffer_spec [OF _ refl, of q F cfg]
  by (auto simp: dq_wf_def flushBufferToQueue_def)

lemma bs_safe_maintainDownloadingBuffer [intro]: "bs_safe s (maintainDownloadingBuffer F s)"
proof -
  have "bs_safe s (s\<lparr>m_downloadingQueue := dq_clear (m_downloadingQueue s)\<rparr>)"
    by (rule bs_safe_queue) (rule dq_wf_clear)
  moreover have "bs_safe s (s\<lparr>m_downloadingQueue := flushBufferToQueue F (m_config s)
      (clearFullQueueIfNotHas (m_config s) (c_nextBlock (m_config s)) (m_downloadingQueue s))\<rparr>)"
    by (intro bs_safe_queue dq_wf_flush dq_wf_clearFull)
  ultimately show ?thesis by (simp add: maintainDownloadingBuffer_def Let_def)
qed

lemma bs_safe_tryToCommit [intro]: "bs_safe s (tryToCommitBlockToLedger s)"
  by (rule bs_safe_dq_more) auto

lemma applyBlock_more [simp]: "dq_world.more (applyBlock b w) = dq_world.more w"
  by (simp add: applyBlock_def)

lemma bs_safe_applyBlock [intro]: "bs_safe s (applyBlock b s)"
  by (rule bs_safe_dq_more) auto

text \<open>What is left of the block queue when the expired blocks are gone.\<close>

abbreviation unexpired :: "'sc BlockSync \<Rightarrow> Block list" where
  "unexpired s \<equiv> pop_while BlockCmp (\<lambda>b. block_number b \<le> c_executedBlock (m_config s)) (m_blocks (m_downloadingQueue s))"

abbreviation with_blocks :: "Block list \<Rightarrow> 'sc BlockSync \<Rightarrow> 'sc BlockSync" where
  "with_blocks bs s \<equiv> s\<lparr>m_downloadingQueue := (m_downloadingQueue s)\<lparr>m_blocks := bs\<rparr>\<rparr>"

lemma maintainDownloadingQueue_eq:
  "maintainDownloadingQueue s =
     (if \<not> shouldSyncing s then downloadFinish (s\<lparr>m_downloadingQueue := dq_clear (m_downloadingQueue s)\<rparr>)
      else let s1 = tryToCommitBlockToLedger s; s2 = with_blocks (unexpired s1) s1
        in case pq_top (unexpired s1) of
             None \<Rightarrow> s2
           | Some b \<Rightarrow>
               if c_executedBlock (m_config s) < i64 (c_blockNumber (m_config s) + m_waterMark s) \<and>
                  block_number b = i64 (c_executedBlock (m_config s) + 1)
               then applyBlock b ((with_blocks (pq_pop BlockCmp (unexpired s1)) s1)\<lparr>m_state := Downloading\<rparr>)
               else s2)"
proof -
  have "m_waterMark (tryToCommitBlockToLedger s) = m_waterMark s" by (rule same_more(4)) simp
  moreover have "q \<noteq> []" if "pq_top q = Some b" for q :: "Block list" and b using that by auto
  ultimately show ?thesis
    by (auto simp: maintainDownloadingQueue_def dq_top_def dq_pop_def Let_def split: option.split)
qed

lemma bs_safe_with_blocks: "(blk_heap (m_blocks (m_downloadingQueue s)) \<Longrightarrow> blk_heap q) \<Longrightarrow> bs_safe s (with_blocks q s)"
  by (rule bs_safe_queue) (simp add: dq_wf_def)

lemma bs_safe_maintainDownloadingQueue [intro]: "bs_safe s (maintainDownloadingQueue s)"
proof -
  define s1 where "s1 = tryToCommitBlockToLedger s"
  have "bs_safe s (s\<lparr>m_downloadingQueue := dq_clear (m_downloadingQueue s)\<rparr>)"
    by (rule bs_safe_queue) (rule dq_wf_clear)
  then have fin: "bs_safe s (downloadFinish (s\<lparr>m_downloadingQueue := dq_clear (m_downloadingQueue s)\<rparr>))"
    by (rule bs_safe_trans) blast
  have s1: "bs_safe s s1" unfolding s1_def by blast
  then have keep: "bs_safe s (with_blocks (unexpired s1) s1)"
    by (rule bs_safe_trans) (intro bs_safe_with_blocks blk.is_heap_pop_while)
  have "bs_safe s1 (with_blocks (pq_pop BlockCmp (unexpired s1)) s1)"
    by (intro bs_safe_with_blocks blk.is_heap_pop blk.is_heap_pop_while)
  also have "bs_safe \<dots> ((with_blocks (pq_pop BlockCmp (unexpired s1)) s1)\<lparr>m_state := Downloading\<rparr>)"
    by (rule bs_safe_fields) simp_all
  also have "bs_safe \<dots> (applyBlock b \<dots>)" for b by blast
  finally have "bs_safe s (applyBlock b ((with_blocks (pq_pop BlockCmp (unexpired s1)) s1)\<lparr>m_state := Downloading\<rparr>))" for b
    using s1 bs_safe_trans by blast
  with fin keep show ?thesis
    by (auto simp: maintainDownloadingQueue_eq s1_def [symmetric] Let_def split: option.split)
qed

lemma bs_safe_downloadTask [intro]: "bs_safe s (downloadTask F rnds s)"
proof -
  have "bs_safe s (maintainDownloadingBuffer F s)" by blast
  also have "bs_safe \<dots> (maintainDownloadingQueue \<dots>)" by blast
  also have "bs_safe \<dots> (tryToRequestBlocks F rnds \<dots>)" by blast
  finally show ?thesis unfolding downloadTask_def .
qed

section \<open>Properties\<close>

text \<open>The executed block and the water mark are so far below \<open>2 ^ 63\<close> that no sum wraps.\<close>

definition heights_ok :: "'sc BlockSync \<Rightarrow> bool" where
  "heights_ok s \<longleftrightarrow> height (c_executedBlock (m_config s)) \<and> 0 \<le> m_waterMark s \<and>
     c_blockNumber (m_config s) + m_waterMark s < 2 ^ 63"

lemma heights_ok_i64:
  assumes "bs_wf s" "heights_ok s"
  shows "i64 (c_blockNumber (m_config s) + m_waterMark s) = c_blockNumber (m_config s) + m_waterMark s"
    "i64 (c_executedBlock (m_config s) + 1) = c_executedBlock (m_config s) + 1"
  using assms bs_wf_height [of s] by (simp_all add: heights_ok_def in_i64_def)

text \<open>The block after the executed one is on top of the cleaned queue iff the queue has one.\<close>

lemma next_on_top:
  assumes "blk_heap q"
  shows "(\<exists>b. pq_top (pop_while BlockCmp (\<lambda>b. block_number b \<le> n) q) = Some b \<and> block_number b = n + 1) \<longleftrightarrow>
    (\<exists>b \<in> set q. block_number b = n + 1)"
proof
  let ?q = "pop_while BlockCmp (\<lambda>b. block_number b \<le> n) q"
  have set_q: "set ?q = {b \<in> set q. n < block_number b}" by (rule set_blk_pop_while [OF assms])
  { assume "\<exists>b. pq_top ?q = Some b \<and> block_number b = n + 1"
    then obtain b where b: "pq_top ?q = Some b" "block_number b = n + 1" by blast
    from b(1) have "b \<in> set ?q" by (auto dest: pq_top_SomeD)
    with b(2) set_q show "\<exists>b \<in> set q. block_number b = n + 1" by blast }
  { assume "\<exists>b \<in> set q. block_number b = n + 1"
    then obtain b where b: "b \<in> set ?q" "block_number b = n + 1" using set_q by auto
    then obtain t where t: "pq_top ?q = Some t" by (cases "pq_top ?q") auto
    have "block_number t \<le> block_number b"
      by (rule blk_top_least [OF blk.is_heap_pop_while [OF assms] t b(1)])
    moreover have "t \<in> set ?q" using t by (auto dest: pq_top_SomeD)
    ultimately show "\<exists>b. pq_top ?q = Some b \<and> block_number b = n + 1"
      using t b(2) set_q by (intro exI [of _ t]) auto }
qed

text \<open>
  C19: which block is executed. A run of \<^verbatim>\<open>maintainDownloadingQueue\<close> of a node that lags
  behind hands a block to the scheduler exactly if the queue holds the block after the last
  executed one and fewer than \<^verbatim>\<open>m_waterMark\<close> executed blocks await their commit; it is that
  block, one only, and it leaves the queue. Blocks already executed are dropped, all
  others stay. Before that the next executed block, if queued, goes to the consensus check.
  A node that does not lag behind drops its downloads and makes no call.
\<close>

theorem maintainDownloadingQueue_correct:
  assumes wf: "bs_wf s" and ok: "heights_ok s" and s': "s' = maintainDownloadingQueue s"
  shows "if \<not> shouldSyncing s
    then calls s' = calls s \<and> m_blocks (m_downloadingQueue s') = [] \<and> m_blockBuffer (m_downloadingQueue s') = []
    else if c_executedBlock (m_config s) < c_blockNumber (m_config s) + m_waterMark s \<and>
      (\<exists>b \<in> set (m_blocks (m_downloadingQueue s)). block_number b = c_executedBlock (m_config s) + 1)
    then \<exists>b. block_number b = c_executedBlock (m_config s) + 1 \<and>
      calls s' = calls (tryToCommitBlockToLedger s) @ [ExecuteBlock b] \<and>
      add_mset b (mset (m_blocks (m_downloadingQueue s'))) =
        filter_mset (\<lambda>b. c_executedBlock (m_config s) < block_number b) (mset (m_blocks (m_downloadingQueue s)))
    else calls s' = calls (tryToCommitBlockToLedger s) \<and>
      mset (m_blocks (m_downloadingQueue s')) =
        filter_mset (\<lambda>b. c_executedBlock (m_config s) < block_number b) (mset (m_blocks (m_downloadingQueue s)))"
proof (cases "shouldSyncing s")
  case sync: True
  define s1 where "s1 = tryToCommitBlockToLedger s"
  let ?e = "c_executedBlock (m_config s)" and ?q = "unexpired s1"
  have heap: "blk_heap (m_blocks (m_downloadingQueue s))" using wf by (simp add: bs_wf_def dq_wf_def)
  have s1: "m_config s1 = m_config s" "m_blocks (m_downloadingQueue s1) = m_blocks (m_downloadingQueue s)"
    by (simp_all add: s1_def)
  have live: "mset ?q = filter_mset (\<lambda>b. ?e < block_number b) (mset (m_blocks (m_downloadingQueue s)))"
    using mset_blk_pop_while [OF heap] by (simp add: s1)
  have next_iff: "(\<exists>b. pq_top ?q = Some b \<and> block_number b = ?e + 1) \<longleftrightarrow>
      (\<exists>b \<in> set (m_blocks (m_downloadingQueue s)). block_number b = ?e + 1)"
    using next_on_top [OF heap] by (simp add: s1)
  have eq: "s' = (case pq_top ?q of None \<Rightarrow> with_blocks ?q s1 | Some b \<Rightarrow>
      if ?e < c_blockNumber (m_config s) + m_waterMark s \<and> block_number b = ?e + 1
      then applyBlock b ((with_blocks (pq_pop BlockCmp ?q) s1)\<lparr>m_state := Downloading\<rparr>) else with_blocks ?q s1)"
    using sync s' by (simp add: maintainDownloadingQueue_eq heights_ok_i64 [OF wf ok] s1_def Let_def split: option.split)
  show ?thesis
  proof (cases "?e < c_blockNumber (m_config s) + m_waterMark s \<and>
      (\<exists>b \<in> set (m_blocks (m_downloadingQueue s)). block_number b = ?e + 1)")
    case True
    then obtain b where b: "pq_top ?q = Some b" "block_number b = ?e + 1" using next_iff by blast
    have "c_blockNumber (m_config s) \<le> ?e" using wf by (simp add: bs_wf_def config_wf_def)
    then have "s' = emit (ExecuteBlock b) ((with_blocks (pq_pop BlockCmp ?q) s1)\<lparr>m_state := Downloading\<rparr>)"
      using True eq b by (simp add: applyBlock_def s1)
    then show ?thesis
      using sync True b(2) live blk.mset_top_pop [OF b(1)] by (auto simp: s1_def intro!: exI [of _ b])
  next
    case False
    then have "s' = with_blocks ?q s1" using eq next_iff by (auto split: option.splits)
    with sync False live show ?thesis by (auto simp: s1_def)
  qed
qed (use s' in \<open>simp add: maintainDownloadingQueue_def dq_clear_def clearQueue_def\<close>)

text \<open>The module of the example with block 7 downloaded.\<close>

definition demoLoaded :: "DemoSync BlockSync" where
  "demoLoaded = maintainDownloadingBuffer demoFramework (onPeerBlocks (demoPacket [demoBlock 9 0, demoBlock 7 1]) demoModule)"

lemma bs_wf_demoLoaded: "bs_wf demoLoaded"
  unfolding demoLoaded_def
  by (intro bs_safe_wf [OF bs_safe_maintainDownloadingBuffer] bs_safe_wf [OF bs_safe_onPeerBlocks] bs_wf_demoModule)

lemma demoLoaded_heights: "c_executedBlock (m_config demoLoaded) = 6" "c_blockNumber (m_config demoLoaded) = 6"
    "m_waterMark demoLoaded = 10"
  by code_simp+

lemma heights_ok_demoLoaded: "heights_ok demoLoaded"
  by (simp add: heights_ok_def demoLoaded_heights height_def)

theorem maintainDownloadingQueue_correct_witness:
  "\<exists>s'. s' = maintainDownloadingQueue demoLoaded \<and>
    (if \<not> shouldSyncing demoLoaded
    then calls s' = calls demoLoaded \<and> m_blocks (m_downloadingQueue s') = [] \<and> m_blockBuffer (m_downloadingQueue s') = []
    else if c_executedBlock (m_config demoLoaded) < c_blockNumber (m_config demoLoaded) + m_waterMark demoLoaded \<and>
      (\<exists>b \<in> set (m_blocks (m_downloadingQueue demoLoaded)). block_number b = c_executedBlock (m_config demoLoaded) + 1)
    then \<exists>b. block_number b = c_executedBlock (m_config demoLoaded) + 1 \<and>
      calls s' = calls (tryToCommitBlockToLedger demoLoaded) @ [ExecuteBlock b] \<and>
      add_mset b (mset (m_blocks (m_downloadingQueue s'))) =
        filter_mset (\<lambda>b. c_executedBlock (m_config demoLoaded) < block_number b) (mset (m_blocks (m_downloadingQueue demoLoaded)))
    else calls s' = calls (tryToCommitBlockToLedger demoLoaded) \<and>
      mset (m_blocks (m_downloadingQueue s')) =
        filter_mset (\<lambda>b. c_executedBlock (m_config demoLoaded) < block_number b) (mset (m_blocks (m_downloadingQueue demoLoaded))))"
  using maintainDownloadingQueue_correct [OF bs_wf_demoLoaded heights_ok_demoLoaded refl] by blast

section \<open>A queue past its limit\<close>









end
