(* ===== verification/BlockResponses.thy ===== *)
theory BlockResponses
  imports BlockSync
begin

text \<open>
  The answering side of \<^verbatim>\<open>BlockSync.cpp\<close>: a request is queued by \<open>onPeerBlocksRequest\<close>,
  \<open>maintainBlockRequest\<close> empties the queues and asks the ledger for each block of the merged
  ranges, and the ledger's callback \<open>onBlockData\<close> sends the block or queues the number again.
\<close>

section \<open>Serving one queue\<close>

lemma fold_fetch: "fold (fetchAndSendBlock a peer) ns s = s\<lparr>calls := calls s @ map (GetBlockData a peer) ns\<rparr>"
  by (induction ns arbitrary: s) (simp_all add: fetchAndSendBlock_def emit_def)

lemma respond_eq:
  "respond a peer r s = s\<lparr>calls := calls s @ map (GetBlockData a peer)
     [fromNumber r .. to_number (to_size (fromNumber r) + req_size r) - 1]\<rparr>"
  by (simp add: respond_def fold_fetch)

lemma respond_ok:
  assumes "req_ok r"
  shows "respond a peer r s = s\<lparr>calls := calls s @ map (GetBlockData a peer)
    [fromNumber r .. fromNumber r + uint (req_size r) - 1]\<rparr>"
proof -
  have "uint (to_size (fromNumber r) + req_size r) = fromNumber r + uint (req_size r)"
    using assms by (intro uint_to_size_add) (simp_all add: req_ok_def)
  then have "to_number (to_size (fromNumber r) + req_size r) = fromNumber r + uint (req_size r)"
    using assms by (subst to_number_small) (simp_all add: req_ok_def)
  then show ?thesis by (simp add: respond_eq)
qed

lemma topAndPop_cases:
  obtains (empty) "q = []" "topAndPop q = (None, [])"
  | (merged) r q' where "q \<noteq> []" "topAndPop q = (Some r, q')" "length q' < length q"
proof (cases "topAndPop q")
  case (Pair x q')
  then show thesis
    using empty merged topAndPop_None [of q q'] length_topAndPop [of q _ q'] by (cases x) auto
qed

text \<open>The loop empties the queue, whatever it holds, and only adds calls on the ledger.\<close>

lemma serveRequests_general:
  "\<exists>ns. serveRequests a peer q s = ([], s\<lparr>calls := calls s @ map (GetBlockData a peer) ns\<rparr>)"
proof (induction "length q" arbitrary: q s rule: less_induct)
  case less
  show ?case
  proof (cases q rule: topAndPop_cases)
    case empty
    then show ?thesis by (intro exI [of _ "[]"]) (simp add: serveRequests.simps)
  next
    case (merged r q')
    obtain ns where "serveRequests a peer q' (respond a peer r s) =
        ([], (respond a peer r s)\<lparr>calls := calls (respond a peer r s) @ map (GetBlockData a peer) ns\<rparr>)"
      using less.hyps [OF merged(3)] by blast
    with merged(2) show ?thesis
      by (intro exI [of _ "[fromNumber r .. to_number (to_size (fromNumber r) + req_size r) - 1] @ ns"])
        (simp add: serveRequests.simps [of a peer q] respond_eq)
  qed
qed

lemma serveRequests_exact:
  assumes "req_heap q" "\<forall>r \<in> set q. req_ok r"
  shows "\<exists>ns. serveRequests a peer q s = ([], s\<lparr>calls := calls s @ map (GetBlockData a peer) ns\<rparr>) \<and>
    sorted_wrt (<) ns \<and> set ns = covered q"
  using assms
proof (induction "length q" arbitrary: q s rule: less_induct)
  case less
  show ?case
  proof (cases "q = []")
    case True
    then show ?thesis by (intro exI [of _ "[]"]) (simp add: serveRequests.simps covered_def)
  next
    case False
    obtain r q' where top: "topAndPop q = (Some r, q')" "req_ok r" "req_heap q'" "mset q' \<subseteq># mset q"
      "length q' < length q" "covered q = req_range r \<union> covered q'"
      "\<forall>x \<in> set q'. fromNumber r + uint (req_size r) < fromNumber x"
      using topAndPop_spec [OF less.prems False] by blast
    have "\<forall>x \<in> set q'. req_ok x" using top(4) less.prems(2) by (metis mset_subset_eqD set_mset_mset)
    then obtain ns where ns: "serveRequests a peer q' (respond a peer r s) =
        ([], (respond a peer r s)\<lparr>calls := calls (respond a peer r s) @ map (GetBlockData a peer) ns\<rparr>)"
      "sorted_wrt (<) ns" "set ns = covered q'"
      using less.hyps [OF top(5,3)] by blast
    let ?r = "[fromNumber r .. fromNumber r + uint (req_size r) - 1]"
    have "x < y" if xy: "x \<in> set ?r" "y \<in> set ns" for x y
    proof -
      obtain z where "z \<in> set q'" "fromNumber z \<le> y" using xy(2) ns(3) by (auto simp: covered_def req_range_def)
      with top(7) xy(1) show ?thesis by force
    qed
    moreover have "sorted_wrt (<) ?r" by simp
    ultimately have "sorted_wrt (<) (?r @ ns)" using ns(2) unfolding sorted_wrt_append by blast
    moreover have "set (?r @ ns) = covered q" using ns(3) top(6) by (auto simp: req_range_def)
    moreover have "serveRequests a peer q s = ([], s\<lparr>calls := calls s @ map (GetBlockData a peer) (?r @ ns)\<rparr>)"
      using ns(1) top(1,2) by (simp add: serveRequests.simps [of a peer q] respond_ok)
    ultimately show ?thesis by blast
  qed
qed

section \<open>The contract\<close>

lemma peers_wf_clear_queue:
  "peers_wf cfg st \<Longrightarrow> peers_wf cfg (st\<lparr>req_store := (req_store st)[a := []]\<rparr>)"
  by (auto simp: peers_wf_def peer_ok_def own_queues_def queue_ok_def req.is_heap_Nil
      dest!: set_update_subset_insert [THEN subsetD])

lemma bs_safe_servePeer: "bs_safe s (snd (servePeer p s))"
proof -
  let ?a = "ps_downloadRequests p"
  obtain ns where ns: "serveRequests ?a (ps_nodeId p) (req_store (m_syncStatus s) ! ?a) s =
      ([], s\<lparr>calls := calls s @ map (GetBlockData ?a (ps_nodeId p)) ns\<rparr>)"
    using serveRequests_general by blast
  show ?thesis
    by (simp add: servePeer_def Let_def ns bs_safe_def bs_wf_def peers_wf_clear_queue)
qed

lemma bs_safe_maintainBlockRequest [intro]: "bs_safe s (maintainBlockRequest rnd s)"
  unfolding maintainBlockRequest_def
  by (rule foreachPeerRandom_inv [where P = "bs_safe s"]) (auto intro: bs_safe_trans [OF _ bs_safe_servePeer])

section \<open>Serving all peers\<close>

text \<open>Every queued range stays within the non-negative block numbers.\<close>

definition requests_ok :: "SyncPeerStatus \<Rightarrow> bool" where
  "requests_ok st \<longleftrightarrow> (\<forall>q \<in> set (req_store st). \<forall>r \<in> set q. req_ok r)"

definition queueOf :: "SyncPeerStatus \<Rightarrow> PeerStatus \<Rightarrow> DownloadRequestQueue" where
  "queueOf st p = req_store st ! ps_downloadRequests p"

text \<open>The calls on the ledger for one peer: each queued block number once, in order.\<close>

definition fetchCalls :: "SyncPeerStatus \<Rightarrow> PeerStatus \<Rightarrow> call list" where
  "fetchCalls st p =
     map (GetBlockData (ps_downloadRequests p) (ps_nodeId p)) (sorted_list_of_set (covered (queueOf st p)))"

lemma strict_sorted_list_of_set: "sorted_wrt (<) ns \<Longrightarrow> ns = sorted_list_of_set (set ns)" for ns :: "int list"
  by (metis sorted_list_of_set.idem_if_sorted_distinct strict_sorted_iff)

lemma servePeer_eq:
  assumes "ps_downloadRequests p < length (req_store (m_syncStatus s))"
    and "req_heap (queueOf (m_syncStatus s) p)" "\<forall>r \<in> set (queueOf (m_syncStatus s) p). req_ok r"
  shows "servePeer p s = (True, s\<lparr>calls := calls s @ fetchCalls (m_syncStatus s) p,
    m_syncStatus := (m_syncStatus s)\<lparr>req_store := (req_store (m_syncStatus s))[ps_downloadRequests p := []]\<rparr>\<rparr>)"
proof -
  let ?a = "ps_downloadRequests p" and ?q = "queueOf (m_syncStatus s) p"
  obtain ns where ns: "serveRequests ?a (ps_nodeId p) ?q s = ([], s\<lparr>calls := calls s @ map (GetBlockData ?a (ps_nodeId p)) ns\<rparr>)"
    "sorted_wrt (<) ns" "set ns = covered ?q"
    using serveRequests_exact [OF assms(2,3)] by blast
  have "map (GetBlockData ?a (ps_nodeId p)) ns = fetchCalls (m_syncStatus s) p"
    using strict_sorted_list_of_set [OF ns(2)] by (simp add: fetchCalls_def ns(3))
  moreover have "(req_store (m_syncStatus s))[?a := []] = req_store (m_syncStatus s)" if "?q = []"
    using that assms(1) by (simp add: queueOf_def list_update_same_conv)
  ultimately show ?thesis
    using ns(1) by (auto simp: servePeer_def drq_empty_def queueOf_def fetchCalls_def covered_def Let_def)
qed

lemma fetchCalls_other:
  "ps_downloadRequests p \<noteq> a \<Longrightarrow> fetchCalls (st\<lparr>req_store := (req_store st)[a := q]\<rparr>) p = fetchCalls st p"
  by (simp add: fetchCalls_def queueOf_def)

lemma visit_serve:
  assumes "distinct (map ps_downloadRequests ps)"
    and "\<forall>p \<in> set ps. ps_downloadRequests p < length (req_store (m_syncStatus s)) \<and>
      req_heap (queueOf (m_syncStatus s) p) \<and> (\<forall>r \<in> set (queueOf (m_syncStatus s) p). req_ok r)"
  shows "visit servePeer ps s = s\<lparr>calls := calls s @ concat (map (fetchCalls (m_syncStatus s)) ps),
    m_syncStatus := (m_syncStatus s)\<lparr>req_store :=
      fold (\<lambda>p st. st[ps_downloadRequests p := []]) ps (req_store (m_syncStatus s))\<rparr>\<rparr>"
  using assms
proof (induction ps arbitrary: s)
  case (Cons p ps)
  obtain t where p: "servePeer p s = (True, t)" "t = s\<lparr>calls := calls s @ fetchCalls (m_syncStatus s) p,
      m_syncStatus := (m_syncStatus s)\<lparr>req_store := (req_store (m_syncStatus s))[ps_downloadRequests p := []]\<rparr>\<rparr>"
    using Cons.prems(2) by (simp add: servePeer_eq)
  have other: "fetchCalls (m_syncStatus t) p' = fetchCalls (m_syncStatus s) p'"
    "queueOf (m_syncStatus t) p' = queueOf (m_syncStatus s) p'" if "p' \<in> set ps" for p'
  proof -
    have "ps_downloadRequests p' \<noteq> ps_downloadRequests p" using Cons.prems(1) that by (metis distinct.simps(2) image_eqI list.set_map list.simps(9))
    then show "fetchCalls (m_syncStatus t) p' = fetchCalls (m_syncStatus s) p'"
      "queueOf (m_syncStatus t) p' = queueOf (m_syncStatus s) p'"
      by (simp_all add: p(2) fetchCalls_def queueOf_def)
  qed
  have "visit servePeer ps t = t\<lparr>calls := calls t @ concat (map (fetchCalls (m_syncStatus t)) ps),
    m_syncStatus := (m_syncStatus t)\<lparr>req_store :=
      fold (\<lambda>p st. st[ps_downloadRequests p := []]) ps (req_store (m_syncStatus t))\<rparr>\<rparr>"
    using Cons.prems other(2) by (intro Cons.IH) (simp_all add: p(2))
  moreover have "map (fetchCalls (m_syncStatus t)) ps = map (fetchCalls (m_syncStatus s)) ps"
    using other(1) by simp
  ultimately have "visit servePeer ps t = t\<lparr>calls := calls t @ concat (map (fetchCalls (m_syncStatus s)) ps),
    m_syncStatus := (m_syncStatus t)\<lparr>req_store :=
      fold (\<lambda>p st. st[ps_downloadRequests p := []]) ps (req_store (m_syncStatus t))\<rparr>\<rparr>" by simp
  then show ?case by (simp add: p(1)) (simp add: p(2))
qed simp

lemma fold_clear_nth:
  "a < length st \<Longrightarrow> fold (\<lambda>p st. st[f p := []]) ps st ! a = (if a \<in> f ` set ps then [] else st ! a)"
  by (induction ps arbitrary: st) auto

lemma length_fold_clear [simp]: "length (fold (\<lambda>p st. st[f p := []]) ps st) = length st"
  by (induction ps arbitrary: st) auto

lemma peers_distinct_queues:
  assumes "peers_wf cfg st"
  shows "distinct (map ps_downloadRequests (map snd (m_peersStatus st)))"
proof -
  note D = peers_wfD [OF assms]
  have dist: "distinct (map fst (m_peersStatus st))" by (rule map_sorted_distinct [OF D(1)])
  have "inj_on (\<lambda>e. ps_downloadRequests (snd e)) (set (m_peersStatus st))"
  proof (rule inj_onI)
    fix e e' assume e: "e \<in> set (m_peersStatus st)" "e' \<in> set (m_peersStatus st)"
      "ps_downloadRequests (snd e) = ps_downloadRequests (snd e')"
    then have "map_of (m_peersStatus st) (fst e) = Some (snd e)" "map_of (m_peersStatus st) (fst e') = Some (snd e')"
      using dist by (auto intro: map_of_is_SomeI)
    moreover from this e(3) D(3) have "fst e = fst e'" unfolding own_queues_def by blast
    ultimately show "e = e'" by (simp add: prod_eq_iff)
  qed
  moreover have "distinct (m_peersStatus st)" using dist by (simp add: distinct_map)
  ultimately show ?thesis by (simp add: distinct_map comp_def)
qed

lemma maintainBlockRequest_eq:
  assumes "bs_wf s" and "requests_ok (m_syncStatus s)"
  obtains ps where "mset ps = mset (map snd (m_peersStatus (m_syncStatus s)))"
    "maintainBlockRequest rnd s = s\<lparr>calls := calls s @ concat (map (fetchCalls (m_syncStatus s)) ps),
       m_syncStatus := (m_syncStatus s)\<lparr>req_store :=
         fold (\<lambda>p st. st[ps_downloadRequests p := []]) ps (req_store (m_syncStatus s))\<rparr>\<rparr>"
    "\<forall>p \<in> set ps. ps_downloadRequests p < length (req_store (m_syncStatus s))"
proof -
  let ?st = "m_syncStatus s"
  have wf: "peers_wf (m_config s) ?st" using assms(1) by (simp add: bs_wf_def)
  obtain ps where ps: "mset ps = mset (map snd (m_peersStatus ?st))"
    "maintainBlockRequest rnd s = visit servePeer ps s"
    using foreachPeerRandom_visit [OF peers_wfD(1) [OF wf], of rnd servePeer s]
    unfolding maintainBlockRequest_def by blast
  have set_ps: "set ps = snd ` set (m_peersStatus ?st)" using ps(1) by (metis set_mset_mset set_map)
  have addr: "ps_downloadRequests p < length (req_store ?st)" if p: "p \<in> set ps" for p
  proof -
    obtain k where "(k, p) \<in> set (m_peersStatus ?st)" using p set_ps by auto
    then have "map_of (m_peersStatus ?st) k = Some p"
      using map_sorted_distinct [OF peers_wfD(1) [OF wf]] by simp
    then show ?thesis using peers_wfD(2) [OF wf] by (simp add: peer_ok_def)
  qed
  have "distinct (map ps_downloadRequests ps)"
    using peers_distinct_queues [OF wf] mset_eq_imp_distinct_iff [of "map ps_downloadRequests ps"] ps(1)
    by (metis mset_map)
  moreover have "ps_downloadRequests p < length (req_store ?st) \<and> req_heap (queueOf ?st p) \<and>
      (\<forall>r \<in> set (queueOf ?st p). req_ok r)" if "p \<in> set ps" for p
    using addr [OF that] peers_wfD(4) [OF wf, of "queueOf ?st p"] assms(2) nth_mem [OF addr [OF that]]
    by (auto simp: queueOf_def queue_ok_def requests_ok_def)
  ultimately have "visit servePeer ps s = s\<lparr>calls := calls s @ concat (map (fetchCalls ?st) ps),
      m_syncStatus := ?st\<lparr>req_store := fold (\<lambda>p st. st[ps_downloadRequests p := []]) ps (req_store ?st)\<rparr>\<rparr>"
    by (intro visit_serve) blast+
  then show thesis using ps(2) by (intro that [OF ps(1) _ ballI [OF addr]]) simp_all
qed

lemma finite_covered [simp]: "finite (covered q)"
  by (simp add: covered_def req_range_def)

section \<open>Properties\<close>

text \<open>
  C24: queued requests are answered completely and once. A run of \<^verbatim>\<open>maintainBlockRequest\<close> asks
  the ledger, for every peer in some order, for exactly the block numbers the peer's
  requests cover, each once and in increasing order however the requests overlap; it
  makes no other call, empties every peer's queue and changes nothing else.
\<close>

theorem maintainBlockRequest_correct:
  assumes "bs_wf s" and "requests_ok (m_syncStatus s)" and "s' = maintainBlockRequest rnd s"
  shows "\<exists>ps. mset ps = mset (map snd (m_peersStatus (m_syncStatus s))) \<and>
    calls s' = calls s @ concat (map (\<lambda>p. map (GetBlockData (ps_downloadRequests p) (ps_nodeId p))
      (sorted_list_of_set (covered (queueOf (m_syncStatus s) p)))) ps) \<and>
    (\<forall>p \<in> set ps. queueOf (m_syncStatus s') p = []) \<and> m_peersStatus (m_syncStatus s') = m_peersStatus (m_syncStatus s) \<and>
    m_config s' = m_config s \<and> m_downloadingQueue s' = m_downloadingQueue s"
proof -
  obtain ps where "mset ps = mset (map snd (m_peersStatus (m_syncStatus s)))"
    "s' = s\<lparr>calls := calls s @ concat (map (fetchCalls (m_syncStatus s)) ps),
       m_syncStatus := (m_syncStatus s)\<lparr>req_store :=
         fold (\<lambda>p st. st[ps_downloadRequests p := []]) ps (req_store (m_syncStatus s))\<rparr>\<rparr>"
    "\<forall>p \<in> set ps. ps_downloadRequests p < length (req_store (m_syncStatus s))"
    using maintainBlockRequest_eq [OF assms(1,2), of rnd] assms(3) by blast
  then show ?thesis
    by (intro exI [of _ ps]) (simp add: fetchCalls_def [abs_def] queueOf_def fold_clear_nth)
qed

text \<open>The module of the example with two overlapping requests of its peer.\<close>

definition demoServer :: "DemoSync BlockSync" where
  "demoServer = onPeerBlocksRequest demoFramework (demoNode 1) (request_setSize 4 (setNumber 2 newBlockRequest))
     (onPeerBlocksRequest demoFramework (demoNode 1) (request_setSize 3 (setNumber 1 newBlockRequest)) demoModule)"

lemma bs_wf_demoServer: "bs_wf demoServer"
  unfolding demoServer_def
  by (intro bs_safe_wf [OF bs_safe_onPeerBlocksRequest] bs_wf_demoModule)

lemma requests_ok_demoServer: "requests_ok (m_syncStatus demoServer)"
proof -
  have "req_store (m_syncStatus demoServer) = [[\<lparr>fromNumber = 1, req_size = 3\<rparr>, \<lparr>fromNumber = 2, req_size = 4\<rparr>]]"
    by code_simp
  then show ?thesis by (simp add: requests_ok_def req_ok_def)
qed

theorem maintainBlockRequest_correct_witness:
  "\<exists>s' ps. s' = maintainBlockRequest (\<lambda>i. i) demoServer \<and>
    mset ps = mset (map snd (m_peersStatus (m_syncStatus demoServer))) \<and>
    calls s' = calls demoServer @ concat (map (\<lambda>p. map (GetBlockData (ps_downloadRequests p) (ps_nodeId p))
      (sorted_list_of_set (covered (queueOf (m_syncStatus demoServer) p)))) ps) \<and>
    (\<forall>p \<in> set ps. queueOf (m_syncStatus s') p = []) \<and>
    m_peersStatus (m_syncStatus s') = m_peersStatus (m_syncStatus demoServer) \<and>
    m_config s' = m_config demoServer \<and> m_downloadingQueue s' = m_downloadingQueue demoServer"
  using maintainBlockRequest_correct [OF bs_wf_demoServer requests_ok_demoServer refl, of "\<lambda>i. i"] by blast

text \<open>
  C32: a block request is queued for the peer that sent it. If the peer has a status or
  belongs to the group, its queue (a new, empty one if it had no status) gets the requested
  range and no other peer and no other queue is touched; a request from anybody else
  changes nothing.
\<close>

theorem onPeerBlocksRequest_correct:
  assumes "bs_wf s" and "s' = onPeerBlocksRequest F nodeID msg s"
  shows "if peerStatus nodeID (m_syncStatus s) \<noteq> None \<or> fw_existsInGroup F (c_sync (m_config s)) nodeID
    then \<exists>p. peerStatus nodeID (m_syncStatus s') = Some p \<and>
      queueOf (m_syncStatus s') p = drq_push (m_config s) (msg_number msg) (request_size msg)
        (if peerStatus nodeID (m_syncStatus s) = None then [] else queueOf (m_syncStatus s) p) \<and>
      (\<forall>other. np_data other \<noteq> np_data nodeID \<longrightarrow>
        peerStatus other (m_syncStatus s') = peerStatus other (m_syncStatus s) \<and>
        (\<forall>p'. peerStatus other (m_syncStatus s) = Some p' \<longrightarrow>
           queueOf (m_syncStatus s') p' = queueOf (m_syncStatus s) p'))
    else s' = s"
proof -
  let ?st = "m_syncStatus s"
  have wf: "peers_wf (m_config s) ?st" using assms(1) by (simp add: bs_wf_def)
  note D = peers_wfD [OF wf]
  have addr: "ps_downloadRequests p < length (req_store ?st)" if "map_of (m_peersStatus ?st) k = Some p" for k p
    using D(2) [OF that] by (simp add: peer_ok_def)
  have own: "ps_downloadRequests p \<noteq> ps_downloadRequests p'"
    if "map_of (m_peersStatus ?st) k = Some p" "map_of (m_peersStatus ?st) k' = Some p'" "k \<noteq> k'" for k k' p p'
    using D(3) that unfolding own_queues_def by blast
  show ?thesis
  proof (cases "peerStatus nodeID ?st")
    case None
    then show ?thesis
      using assms(2) D(1) addr
      by (auto simp: onPeerBlocksRequest_def peer_defs queueOf_def request_size_def requestOfMsg_def requestOfPB_def msg_number_def
          nth_append dest: less_imp_neq)
  next
    case (Some p)
    then have other: "(req_store ?st)[ps_downloadRequests p := x] ! ps_downloadRequests p' = req_store ?st ! ps_downloadRequests p'"
      if "map_of (m_peersStatus ?st) k' = Some p'" "k' \<noteq> np_data nodeID" for x k' p'
      using own [OF _ that(1) that(2) [symmetric], of p] by (simp add: peerStatus_def)
    show ?thesis
      using Some assms(2) addr
      by (auto simp: onPeerBlocksRequest_def peer_defs queueOf_def request_size_def requestOfMsg_def requestOfPB_def msg_number_def
          intro: other)
  qed
qed

theorem onPeerBlocksRequest_correct_witness:
  "\<exists>s'. s' = onPeerBlocksRequest demoFramework (demoNode 2) (request_setSize 8 (setNumber 3 newBlockRequest)) demoModule \<and>
    (if peerStatus (demoNode 2) (m_syncStatus demoModule) \<noteq> None \<or>
        fw_existsInGroup demoFramework (c_sync (m_config demoModule)) (demoNode 2)
    then \<exists>p. peerStatus (demoNode 2) (m_syncStatus s') = Some p \<and>
      queueOf (m_syncStatus s') p = drq_push (m_config demoModule)
        (msg_number (request_setSize 8 (setNumber 3 newBlockRequest)))
        (request_size (request_setSize 8 (setNumber 3 newBlockRequest)))
        (if peerStatus (demoNode 2) (m_syncStatus demoModule) = None then [] else queueOf (m_syncStatus demoModule) p) \<and>
      (\<forall>other. np_data other \<noteq> np_data (demoNode 2) \<longrightarrow>
        peerStatus other (m_syncStatus s') = peerStatus other (m_syncStatus demoModule) \<and>
        (\<forall>p'. peerStatus other (m_syncStatus demoModule) = Some p' \<longrightarrow>
           queueOf (m_syncStatus s') p' = queueOf (m_syncStatus demoModule) p'))
    else s' = demoModule)"
  using onPeerBlocksRequest_correct [OF bs_wf_demoModule refl, where F = demoFramework
      and nodeID = "demoNode 2" and msg = "request_setSize 8 (setNumber 3 newBlockRequest)"] by blast

text \<open>
  C39: a block the ledger fails to deliver is asked for again: the callback puts its number
  back into the peer's queue, and the next run of \<^verbatim>\<open>maintainBlockRequest\<close> repeats the call.
  Nothing bounds the number of repetitions, so a request for a block that does not exist
  is retried as long as its peer is in the table.
\<close>

theorem failed_fetch_retried:
  assumes wf: "bs_wf s" and ok: "requests_ok (m_syncStatus s)"
    and p: "p \<in> snd ` set (m_peersStatus (m_syncStatus s))"
    and room: "length (queueOf (m_syncStatus s) p) < unat (c_maxDownloadRequestQueueSize (m_config s))"
    and n: "height n"
  shows "\<exists>cs. calls (maintainBlockRequest rnd (onBlockData F (ps_downloadRequests p) (ps_nodeId p) n (Inl e) s)) =
      calls s @ cs \<and> GetBlockData (ps_downloadRequests p) (ps_nodeId p) n \<in> set cs"
proof -
  let ?a = "ps_downloadRequests p" and ?r = "\<lparr>fromNumber = n, req_size = 1\<rparr>"
  let ?st = "push_at (m_config s) ?a n 1 (m_syncStatus s)"
  define s1 where "s1 = onBlockData F ?a (ps_nodeId p) n (Inl e) s"
  have s1: "m_syncStatus s1 = ?st" "calls s1 = calls s" by (simp_all add: s1_def onBlockData_def)
  have wf1: "bs_wf s1" unfolding s1_def by (rule bs_safe_wf [OF bs_safe_onBlockData wf])
  obtain k where "(k, p) \<in> set (m_peersStatus (m_syncStatus s))" using p by auto
  with wf have a: "?a < length (req_store (m_syncStatus s))"
    using peers_wfD(2) [of "m_config s" "m_syncStatus s" k p] map_sorted_distinct peers_wfD(1)
    by (fastforce simp: bs_wf_def peer_ok_def)
  have q: "queueOf ?st p = pq_push DownloadRequestCmp ?r (queueOf (m_syncStatus s) p)"
    using a room by (simp add: queueOf_def push_at_def drq_push_def)
  have "req_ok ?r" using n by (simp add: req_ok_def height_def)
  moreover have "queueOf (m_syncStatus s) p \<in> set (req_store (m_syncStatus s))" using a by (simp add: queueOf_def)
  ultimately have "\<forall>r \<in> set (queueOf ?st p). req_ok r" using ok unfolding q by (auto simp: requests_ok_def)
  then have "requests_ok ?st"
    using ok a by (auto simp: requests_ok_def push_at_def queueOf_def dest!: set_update_subset_insert [THEN subsetD])
  then obtain ps where ps: "mset ps = mset (map snd (m_peersStatus ?st))"
    "calls (maintainBlockRequest rnd s1) = calls s1 @ concat (map (fetchCalls ?st) ps)"
    by (rule maintainBlockRequest_eq [OF wf1, unfolded s1(1), of rnd]) simp
  have "set ps = snd ` set (m_peersStatus ?st)" using ps(1) by (metis set_mset_mset set_map)
  then have "p \<in> set ps" using p by (simp add: push_at_def)
  moreover have "n \<in> covered (queueOf ?st p)" by (simp add: q covered_def req_range_def)
  ultimately have "GetBlockData ?a (ps_nodeId p) n \<in> set (concat (map (fetchCalls ?st) ps))"
    by (force simp: fetchCalls_def)
  then show ?thesis using ps(2) s1(2) by (simp add: s1_def)
qed

theorem failed_fetch_retried_witness:
  "\<exists>p cs. peerStatus (demoNode 1) (m_syncStatus demoServer) = Some p \<and>
    calls (maintainBlockRequest (\<lambda>i. i)
        (onBlockData demoFramework (ps_downloadRequests p) (ps_nodeId p) 100 (Inl (ServiceError 1)) demoServer)) =
      calls demoServer @ cs \<and> GetBlockData (ps_downloadRequests p) (ps_nodeId p) 100 \<in> set cs"
proof -
  define p where "p = the (peerStatus (demoNode 1) (m_syncStatus demoServer))"
  have peers: "m_peersStatus (m_syncStatus demoServer) = [(1, p)]" unfolding p_def by code_simp
  have len: "length (queueOf (m_syncStatus demoServer) p) < unat (c_maxDownloadRequestQueueSize (m_config demoServer))"
    unfolding p_def by code_simp
  have "peerStatus (demoNode 1) (m_syncStatus demoServer) = Some p"
    by (simp add: peerStatus_def peers demoNode_def)
  moreover have "p \<in> snd ` set (m_peersStatus (m_syncStatus demoServer))" by (simp add: peers)
  moreover have "height 100" by (simp add: height_def)
  ultimately show ?thesis
    using failed_fetch_retried [OF bs_wf_demoServer requests_ok_demoServer _ len, where n = 100] by blast
qed

end
