(* ===== verification/EventSystem.thy ===== *)
theory EventSystem
  imports Main
begin

text \<open>
  Labelled transition systems, for the module as a whole: the reachable states of an
  initial-state predicate and a step relation, the rule that an inductive invariant holds
  in every reachable state, and forward simulations, which carry runs of a detailed system
  over to runs of an abstract one.
\<close>

inductive reach :: "('s \<Rightarrow> bool) \<Rightarrow> ('s \<Rightarrow> 'e \<Rightarrow> 's \<Rightarrow> bool) \<Rightarrow> 's \<Rightarrow> bool"
  for I :: "'s \<Rightarrow> bool" and step :: "'s \<Rightarrow> 'e \<Rightarrow> 's \<Rightarrow> bool" where
  reach_init: "I s \<Longrightarrow> reach I step s"
| reach_step: "reach I step s \<Longrightarrow> step s e s' \<Longrightarrow> reach I step s'"

inductive run :: "('s \<Rightarrow> 'e \<Rightarrow> 's \<Rightarrow> bool) \<Rightarrow> 's \<Rightarrow> 'e list \<Rightarrow> 's \<Rightarrow> bool"
  for step :: "'s \<Rightarrow> 'e \<Rightarrow> 's \<Rightarrow> bool" where
  run_Nil: "run step s [] s"
| run_Cons: "step s e s' \<Longrightarrow> run step s' es s'' \<Longrightarrow> run step s (e # es) s''"

inductive_cases run_NilE: "run step s [] s'"
inductive_cases run_ConsE: "run step s (e # es) s''"

lemma run_append: "run step s es s' \<Longrightarrow> run step s' es' s'' \<Longrightarrow> run step s (es @ es') s''"
  by (induction rule: run.induct) (auto intro: run_Cons)

lemma reach_run: "run step s es s' \<Longrightarrow> reach I step s \<Longrightarrow> reach I step s'"
  by (induction rule: run.induct) (auto intro: reach_step)

locale inductive_invariant =
  fixes I :: "'s \<Rightarrow> bool" and step :: "'s \<Rightarrow> 'e \<Rightarrow> 's \<Rightarrow> bool" and inv :: "'s \<Rightarrow> bool"
  assumes init_inv: "I s \<Longrightarrow> inv s"
    and step_inv: "inv s \<Longrightarrow> step s e s' \<Longrightarrow> inv s'"
begin

lemma reach_inv: "reach I step s \<Longrightarrow> inv s"
  by (induction rule: reach.induct) (auto intro: init_inv step_inv)

end

text \<open>A simulation may use an invariant of the detailed system.\<close>

locale simulation = inductive_invariant I step inv
  for I :: "'s \<Rightarrow> bool" and step :: "'s \<Rightarrow> 'e \<Rightarrow> 's \<Rightarrow> bool" and inv :: "'s \<Rightarrow> bool" +
  fixes aI :: "'a \<Rightarrow> bool" and astep :: "'a \<Rightarrow> 'e \<Rightarrow> 'a \<Rightarrow> bool" and abs :: "'s \<Rightarrow> 'a"
  assumes abs_init: "I s \<Longrightarrow> aI (abs s)"
    and abs_step: "inv s \<Longrightarrow> step s e s' \<Longrightarrow> astep (abs s) e (abs s')"
begin

lemma reach_abs: "reach I step s \<Longrightarrow> reach aI astep (abs s)"
proof (induction rule: reach.induct)
  case (reach_init s)
  then show ?case by (intro reach.reach_init abs_init)
next
  case (reach_step s e s')
  then show ?case using abs_step [OF reach_inv] by (blast intro: reach.reach_step)
qed

lemma run_abs: "run step s es s' \<Longrightarrow> inv s \<Longrightarrow> run astep (abs s) es (abs s')"
  by (induction rule: run.induct) (auto intro: run.intros abs_step step_inv)

end

end
