(* ===== verification/SyncSystem.thy ===== *)
theory SyncSystem
  imports BlockExecution BlockResponses EventSystem
begin

text \<open>
  The module in its environment. An event is one entry into the module: a notification, a
  message, the timer, a round of the worker, a task of one of the two pools, or the callback
  of an earlier call on a service. Events run one at a time, in any order the environment
  chooses; a callback runs at most once and only for a call that was made. The theory proves
  the invariants that hold whatever that order is.
\<close>

section \<open>Events and steps\<close>

datatype event =
  NewBlock LedgerConfig
| CommittedIndex BlockNumber
| ConnectedNodes "NodeIDPtr list"
| Message "error option" NodeIDPtr bytes
| DownloadTimeout
| WorkerRound
| DownloadRun "nat \<Rightarrow> nat \<Rightarrow> nat"
| SendRun "nat \<Rightarrow> nat"
| NodeIDs "NodeIDPtr list option answer"
| Executed Block "BlockHeader answer"
| Checked Block "bool answer"
| Stored Block "unit answer"
| Committed Block "LedgerConfig answer"
| BlockData nat NodeIDPtr BlockNumber "Block answer"

text \<open>A pool runs a task that \<^verbatim>\<open>executeWorker\<close> has put into it.\<close>

definition takeDownloadTask :: "'sc BlockSync \<Rightarrow> 'sc BlockSync" where
  "takeDownloadTask s = s\<lparr>m_downloadTasks := m_downloadTasks s - 1\<rparr>"

definition takeSendTask :: "'sc BlockSync \<Rightarrow> 'sc BlockSync" where
  "takeSendTask s = s\<lparr>m_sendTasks := m_sendTasks s - 1\<rparr>"

fun handle :: "'sc Framework \<Rightarrow> event \<Rightarrow> 'sc BlockSync \<Rightarrow> 'sc BlockSync" where
  "handle F (NewBlock lc) s = asyncNotifyNewBlock F lc s"
| "handle F (CommittedIndex n) s = asyncNotifyCommittedIndex n s"
| "handle F (ConnectedNodes ns) s = notifyConnectedNodes F ns s"
| "handle F (Message err node data) s = asyncNotifyBlockSyncMessage F err node data s"
| "handle F DownloadTimeout s = onDownloadTimeout s"
| "handle F WorkerRound s = executeWorker F s"
| "handle F (DownloadRun rnds) s = downloadTask F rnds (takeDownloadTask s)"
| "handle F (SendRun rnd) s = maintainBlockRequest rnd (takeSendTask s)"
| "handle F (NodeIDs ans) s = onNodeIDs F ans s"
| "handle F (Executed b ans) s = onExecuted b ans s"
| "handle F (Checked b ans) s = onChecked b ans s"
| "handle F (Stored b ans) s = onStored b ans s"
| "handle F (Committed b ans) s = onCommitted (Some (onNewBlock F)) b ans s"
| "handle F (BlockData q peer n ans) s = onBlockData F q peer n ans s"

text \<open>The call a callback belongs to; a notification belongs to none.\<close>

definition storeCall :: "Block \<Rightarrow> call" where
  "storeCall b = StoreTransactions (map tx_encoded (transactions b)) (map tx_hash (transactions b)) b"

definition call_of :: "event \<Rightarrow> call option" where
  "call_of e =
     (case e of
        NodeIDs _ \<Rightarrow> Some GetNodeIDs
      | Executed b _ \<Rightarrow> Some (ExecuteBlock b)
      | Checked b _ \<Rightarrow> Some (CheckBlock b)
      | Stored b _ \<Rightarrow> Some (storeCall b)
      | Committed b _ \<Rightarrow> Some (CommitBlock b)
      | BlockData q peer n _ \<Rightarrow> Some (GetBlockData q peer n)
      | _ \<Rightarrow> None)"

fun enabled :: "event \<Rightarrow> 'sc BlockSync \<Rightarrow> bool" where
  "enabled DownloadTimeout s = m_timerRunning s"
| "enabled (DownloadRun _) s = (0 < m_downloadTasks s)"
| "enabled (SendRun _) s = (0 < m_sendTasks s)"
| "enabled _ s = True"

text \<open>
  What the environment promises: the heights that the consensus module and the scheduler
  report are those of a chain of realistic length.
\<close>

definition chain_height :: "BlockNumber \<Rightarrow> bool" where
  "chain_height n \<longleftrightarrow> 0 \<le> n \<and> n < 2 ^ 62"

fun event_ok :: "event \<Rightarrow> bool" where
  "event_ok (NewBlock lc) = chain_height (lc_blockNumber lc)"
| "event_ok (Committed _ (Inr lc)) = chain_height (lc_blockNumber lc)"
| "event_ok _ = True"

record 'sc system =
  node :: "'sc BlockSync"
  pending :: "call multiset"
  history :: "event list"

definition new_calls :: "'sc BlockSync \<Rightarrow> 'sc BlockSync \<Rightarrow> call list" where
  "new_calls s s' = drop (length (calls s)) (calls s')"

definition after :: "'sc Framework \<Rightarrow> event \<Rightarrow> call multiset \<Rightarrow> 'sc system \<Rightarrow> 'sc system" where
  "after F e left sys =
     \<lparr>node = handle F e (node sys), pending = left + mset (new_calls (node sys) (handle F e (node sys))),
      history = history sys @ [e]\<rparr>"

inductive sync_step :: "'sc Framework \<Rightarrow> 'sc system \<Rightarrow> event \<Rightarrow> 'sc system \<Rightarrow> bool" for F where
  notify: "call_of e = None \<Longrightarrow> enabled e (node sys) \<Longrightarrow> event_ok e \<Longrightarrow> sync_step F sys e (after F e (pending sys) sys)"
| reply: "call_of e = Some c \<Longrightarrow> c \<in># pending sys \<Longrightarrow> event_ok e \<Longrightarrow>
    sync_step F sys e (after F e (pending sys - {#c#}) sys)"

inductive_cases sync_stepE: "sync_step F sys e sys'"

inductive sync_init :: "'sc Framework \<Rightarrow> 'sc system \<Rightarrow> bool" for F where
  "chain_height (lc_blockNumber lc) \<Longrightarrow> s = start (init F genesisHash lc (createBlockSync sc)) \<Longrightarrow>
   sync_init F \<lparr>node = s, pending = mset (calls s), history = []\<rparr>"

text \<open>The reachable states of the module over a framework.\<close>

abbreviation reachable :: "'sc Framework \<Rightarrow> 'sc system \<Rightarrow> bool" where
  "reachable F \<equiv> reach (sync_init F) (sync_step F)"

lemma sync_step_node:
  assumes "sync_step F sys e sys'"
  shows "node sys' = handle F e (node sys)" "history sys' = history sys @ [e]" "event_ok e"
    "set_mset (pending sys') \<subseteq> set_mset (pending sys) \<union> set (new_calls (node sys) (node sys'))"
    "call_of e = Some c \<Longrightarrow> c \<in># pending sys"
  using assms by (cases rule: sync_step.cases; auto simp: after_def dest: in_diffD)+

section \<open>Well-formedness\<close>

lemma chain_height_height: "chain_height n \<Longrightarrow> height n"
  by (simp add: chain_height_def height_def)

lemma bs_safe_task [intro]: "bs_safe s (takeDownloadTask s)" "bs_safe s (takeSendTask s)"
  by (rule bs_safe_fields; simp add: takeDownloadTask_def takeSendTask_def)+

lemma onExecuted_more [simp]: "dq_world.more (onExecuted b ans w) = dq_world.more w"
  by (simp add: onExecuted_def updateCommitQueue_def split: sum.split)

lemma onChecked_more [simp]: "dq_world.more (onChecked b ans w) = dq_world.more w"
  by (simp add: onChecked_def commitBlock_def commitBlockState_def Let_def split: sum.split)

lemma onStored_more [simp]: "dq_world.more (onStored b ans w) = dq_world.more w"
  by (simp add: onStored_def commitBlockState_def split: sum.split)

lemma bs_safe_onCommitted:
  assumes "\<And>lc. ans = Inr lc \<Longrightarrow> height (lc_blockNumber lc)"
  shows "bs_safe s (onCommitted (Some (onNewBlock F)) b ans s)"
proof (cases "bs_wf s")
  case True
  then show ?thesis
    using assms by (intro bs_safe_dq_more nb.dq_safe_onCommitted nb.onCommitted_more bs_wf_height)
qed (simp add: bs_safe_def)

lemma bs_safe_handle: "event_ok e \<Longrightarrow> bs_safe s (handle F e s)"
proof (cases e)
  case (DownloadRun rnds)
  have "bs_safe s (takeDownloadTask s)" by blast
  also have "bs_safe \<dots> (downloadTask F rnds \<dots>)" by blast
  finally show ?thesis by (simp add: DownloadRun)
next
  case (SendRun rnd)
  have "bs_safe s (takeSendTask s)" by blast
  also have "bs_safe \<dots> (maintainBlockRequest rnd \<dots>)" by blast
  finally show ?thesis by (simp add: SendRun)
next
  case (Committed b ans)
  assume "event_ok e"
  then have "height (lc_blockNumber lc)" if "ans = Inr lc" for lc
    using that by (simp add: Committed chain_height_height)
  then show ?thesis unfolding Committed handle.simps by (rule bs_safe_onCommitted)
next
  case (NewBlock lc)
  assume "event_ok e"
  then show ?thesis by (auto simp: NewBlock intro: chain_height_height)
qed (auto intro: bs_safe_dq_more)

section \<open>Steps outside the pipeline\<close>

text \<open>
  The calls of the execution pipeline, and the steps that leave it alone: they keep
  the heights, put no block into the commit queue and make none of these calls, except that
  a queued block may be handed to the consensus check.
\<close>

fun pipeline_call :: "call \<Rightarrow> bool" where
  "pipeline_call (ExecuteBlock _) = True"
| "pipeline_call (CheckBlock _) = True"
| "pipeline_call (StoreTransactions _ _ _) = True"
| "pipeline_call (CommitBlock _) = True"
| "pipeline_call _ = False"

abbreviation commits :: "('sc, 'z) dq_world_scheme \<Rightarrow> Block set" where
  "commits w \<equiv> set (m_commitQueue (m_downloadingQueue w))"

definition adds_calls :: "call set \<Rightarrow> ('sc, 'z) dq_world_scheme \<Rightarrow> ('sc, 'z) dq_world_scheme \<Rightarrow> bool" where
  "adds_calls C w w' \<longleftrightarrow> (\<exists>cs. calls w' = calls w @ cs \<and> (\<forall>c \<in> set cs. pipeline_call c \<longrightarrow> c \<in> C))"

definition calm :: "('sc, 'z) dq_world_scheme \<Rightarrow> ('sc, 'z) dq_world_scheme \<Rightarrow> bool" where
  "calm w w' \<longleftrightarrow> commits w' \<subseteq> commits w \<and> adds_calls (CheckBlock ` commits w) w w'"

definition silent :: "('sc, 'z) dq_world_scheme \<Rightarrow> ('sc, 'z) dq_world_scheme \<Rightarrow> bool" where
  "silent w w' \<longleftrightarrow> calm w w' \<and> c_blockNumber (m_config w') = c_blockNumber (m_config w) \<and>
     c_executedBlock (m_config w') = c_executedBlock (m_config w) \<and> c_hash (m_config w') = c_hash (m_config w)"

lemma adds_calls_refl [simp]: "adds_calls C w w"
  by (simp add: adds_calls_def)

lemma adds_calls_trans: "adds_calls C a b \<Longrightarrow> adds_calls D b c \<Longrightarrow> C \<subseteq> E \<Longrightarrow> D \<subseteq> E \<Longrightarrow> adds_calls E a c"
  unfolding adds_calls_def by (auto simp: subset_iff)

lemma calm_refl [simp, intro]: "calm w w"
  by (simp add: calm_def)

lemma calm_trans [trans]: "calm a b \<Longrightarrow> calm b c \<Longrightarrow> calm a c"
  using adds_calls_trans [of "CheckBlock ` commits a" a b "CheckBlock ` commits b" c "CheckBlock ` commits a"]
  by (auto simp: calm_def image_mono)

lemma silent_calm: "silent w w' \<Longrightarrow> calm w w'"
  by (simp add: silent_def)

lemma silent_refl [simp, intro]: "silent w w"
  by (simp add: silent_def)

lemma silent_trans [trans]: "silent a b \<Longrightarrow> silent b c \<Longrightarrow> silent a c"
  using calm_trans [of a b c] by (simp add: silent_def)

lemma silent_same:
  "m_config w' = m_config w \<Longrightarrow> m_commitQueue (m_downloadingQueue w') = m_commitQueue (m_downloadingQueue w) \<Longrightarrow>
   calls w' = calls w \<Longrightarrow> silent w w'"
  by (simp add: silent_def calm_def adds_calls_def)

lemma silent_emit [intro]: "\<not> pipeline_call c \<Longrightarrow> silent w (emit c w)"
  by (simp add: silent_def calm_def adds_calls_def)

lemma silent_fold: "(\<And>x s. silent s (f x s)) \<Longrightarrow> silent s (fold f xs s)"
proof (induction xs arbitrary: s)
  case (Cons x xs)
  have "silent s (f x s)" by (rule Cons.prems)
  also have "silent \<dots> (fold f xs (f x s))" by (rule Cons.IH [OF Cons.prems])
  finally show ?case by simp
qed simp

lemma set_pop_while_subset: "set (pop_while cmp P q) \<subseteq> set q"
proof (induction cmp P q rule: pop_while.induct)
  case (1 cmp P q)
  then show ?case
    using set_pq_pop_subset [of cmp q] by (auto simp: pop_while.simps [of cmp P q] split: option.split)
qed

lemma silent_tryToCommit [intro]: "silent w (tryToCommitBlockToLedger w)"
proof -
  let ?q = "pop_while BlockCmp (\<lambda>b. block_number b \<le> c_blockNumber (m_config w)) (m_commitQueue (m_downloadingQueue w))"
  have q: "set ?q \<subseteq> commits w" by (rule set_pop_while_subset)
  have "set (pq_pop BlockCmp ?q) \<subseteq> commits w" using set_pq_pop_subset q by (rule subset_trans)
  moreover have "b \<in> commits w" if "pq_top ?q = Some b" for b
    using q pq_top_SomeD [OF that] by blast
  ultimately show ?thesis
    using q by (auto simp: silent_def calm_def adds_calls_def tryToCommitBlockToLedger_def checkAndCommitBlock_def Let_def
        split: option.split)
qed

subsection \<open>Handlers outside the pipeline\<close>

lemma heights_updatePeerStatus:
  "updatePeerStatus peer status cfg st = (ok, cfg', st') \<Longrightarrow>
   c_blockNumber cfg' = c_blockNumber cfg \<and> c_executedBlock cfg' = c_executedBlock cfg \<and> c_hash cfg' = c_hash cfg"
  by (auto simp: updatePeerStatus_def updateKnownMaxBlockInfo_def config_defs Let_def
      split: if_splits option.splits prod.splits)

lemma silent_message [intro]: "silent s (asyncNotifyBlockSyncMessage F err peer data s)"
proof -
  have "silent s (onPeerStatus F peer msg s)" for msg
    using heights_updatePeerStatus [of peer "statusOfMsg msg" "m_config s" "m_syncStatus s"]
    by (auto simp: onPeerStatus_def silent_def calm_def adds_calls_def split: prod.split)
  moreover have "silent s (onPeerBlocks msg s)" for msg
    by (rule silent_same) (simp_all add: onPeerBlocks_def dq_push_def)
  moreover have "silent s (onPeerBlocksRequest F peer msg s)" for msg
    by (rule silent_same) (simp_all add: onPeerBlocksRequest_def Let_def split: prod.split option.split)
  ultimately show ?thesis by (auto simp: asyncNotifyBlockSyncMessage_def split: option.split)
qed

lemma silent_executeWorker [intro]: "silent s (executeWorker F s)"
proof -
  have con: "silent s (connectNode F n s)" for n and s :: "'a BlockSync"
    using heights_updatePeerStatus [of "fw_nodeID F (cfg_sync s)" "currentStatus (m_config s)" "m_config s" "m_syncStatus s"]
    by (auto simp: connectNode_def silent_def calm_def adds_calls_def Let_def split: prod.split)
  let ?s = "s\<lparr>m_syncStatus := fold deletePeer (foreachPeer (peerToDelete F (m_config s)) (m_syncStatus s) []) (m_syncStatus s)\<rparr>"
  have "silent s ?s" by (rule silent_same) simp_all
  also have "silent ?s (fold (connectNode F) (fw_groupNodeList F (cfg_sync ?s)) ?s)" by (rule silent_fold) (rule con)
  finally have "silent s (maintainPeersConnection F s)" by (simp add: maintainPeersConnection_def Let_def)
  also have "silent \<dots> (executeWorker F s)" by (rule silent_same) (simp_all add: executeWorker_def Let_def)
  finally show ?thesis .
qed

lemma silent_maintainBlockRequest [intro]: "silent s (maintainBlockRequest rnd s)"
proof -
  have "silent s (snd (servePeer p s))" for p and s :: "'a BlockSync"
  proof -
    obtain ns where ns: "serveRequests (ps_downloadRequests p) (ps_nodeId p)
        (req_store (m_syncStatus s) ! ps_downloadRequests p) s =
        ([], s\<lparr>calls := calls s @ map (GetBlockData (ps_downloadRequests p) (ps_nodeId p)) ns\<rparr>)"
      using serveRequests_general by blast
    show ?thesis by (auto simp: servePeer_def Let_def ns silent_def calm_def adds_calls_def)
  qed
  then show ?thesis
    unfolding maintainBlockRequest_def
    by (intro foreachPeerRandom_inv [where P = "silent s"]) (auto intro: silent_trans)
qed

lemma silent_tryToRequestBlocks [intro]: "silent s (tryToRequestBlocks F rnds s)"
  by (rule tryToRequestBlocks_inv) (auto simp: silent_def calm_def adds_calls_def)

lemma silent_onBlockData [intro]: "silent s (onBlockData F q peer n ans s)"
  by (auto simp: onBlockData_def Let_def intro: silent_same split: sum.split)

lemma silent_maintainDownloadingBuffer: "bs_wf s \<Longrightarrow> silent s (maintainDownloadingBuffer F s)"
proof (rule silent_same)
  assume "bs_wf s"
  then have "blk_heap (m_blocks (clearFullQueueIfNotHas (m_config s) (c_nextBlock (m_config s)) (m_downloadingQueue s)))"
    using dq_wf_clearFull [of "m_config s"] by (auto simp: bs_wf_def dq_wf_def)
  from flushBuffer_spec [OF this refl, of F "m_config s"]
  show "m_commitQueue (m_downloadingQueue (maintainDownloadingBuffer F s)) = m_commitQueue (m_downloadingQueue s)"
    by (auto simp: maintainDownloadingBuffer_def flushBufferToQueue_def clearFullQueueIfNotHas_def clearQueue_def
        dq_clear_def Let_def)
qed (simp_all add: maintainDownloadingBuffer_def Let_def)

text \<open>A download task is silent up to at most one new execution, of the block after the executed one.\<close>

definition may_execute :: "'sc BlockSync \<Rightarrow> 'sc BlockSync \<Rightarrow> bool" where
  "may_execute s s' \<longleftrightarrow> s' = s \<or> (\<exists>b. s' = emit (ExecuteBlock b) s \<and>
     block_number b = c_executedBlock (m_config s) + 1 \<and>
     c_executedBlock (m_config s) < c_blockNumber (m_config s) + m_waterMark s)"

lemma maintainDownloadingQueue_shape:
  assumes wf: "bs_wf s" and ok: "heights_ok s"
  shows "\<exists>s1. silent s s1 \<and> m_waterMark s1 = m_waterMark s \<and> may_execute s1 (maintainDownloadingQueue s)"
proof (cases "shouldSyncing s")
  case True
  define s1 where "s1 = tryToCommitBlockToLedger s"
  define s2 where "s2 q = with_blocks q s1" for q
  have wm: "m_waterMark s1 = m_waterMark s" unfolding s1_def by (rule same_more(4)) simp
  have "silent s s1" unfolding s1_def by blast
  then have s2: "silent s (s2 q)" "silent s ((s2 q)\<lparr>m_state := Downloading\<rparr>)" for q
    by (rule silent_trans, intro silent_same; simp add: s2_def)+
  have h: "c_executedBlock (m_config s1) = c_executedBlock (m_config s)" "m_config s1 = m_config s"
    "c_blockNumber (m_config s) \<le> c_executedBlock (m_config s)"
    using wf by (simp_all add: s1_def bs_wf_def config_wf_def)
  have eq: "maintainDownloadingQueue s = (case pq_top (unexpired s1) of None \<Rightarrow> s2 (unexpired s1) | Some b \<Rightarrow>
      if c_executedBlock (m_config s) < c_blockNumber (m_config s) + m_waterMark s \<and>
        block_number b = c_executedBlock (m_config s) + 1
      then emit (ExecuteBlock b) ((s2 (pq_pop BlockCmp (unexpired s1)))\<lparr>m_state := Downloading\<rparr>) else s2 (unexpired s1))"
    using True h by (auto simp: maintainDownloadingQueue_eq heights_ok_i64 [OF wf ok] s1_def s2_def Let_def
        applyBlock_def split: option.split)
  show ?thesis
  proof (cases "maintainDownloadingQueue s = s2 (unexpired s1)")
    case True
    then show ?thesis using s2(1) wm by (intro exI [of _ "s2 (unexpired s1)"]) (simp add: may_execute_def s2_def)
  next
    case False
    then obtain b where b: "c_executedBlock (m_config s) < c_blockNumber (m_config s) + m_waterMark s"
      "block_number b = c_executedBlock (m_config s) + 1"
      "maintainDownloadingQueue s = emit (ExecuteBlock b) ((s2 (pq_pop BlockCmp (unexpired s1)))\<lparr>m_state := Downloading\<rparr>)"
      using eq by (auto split: option.splits if_splits)
    then show ?thesis
      using s2(2) wm h by (intro exI [of _ "(s2 (pq_pop BlockCmp (unexpired s1)))\<lparr>m_state := Downloading\<rparr>"])
        (auto simp: may_execute_def s2_def)
  qed
next
  case False
  then have "silent s (maintainDownloadingQueue s)" "m_waterMark (maintainDownloadingQueue s) = m_waterMark s"
    by (auto simp: maintainDownloadingQueue_def dq_clear_def clearQueue_def intro: silent_same) (simp add: downloadFinish_def)
  then show ?thesis by (intro exI [of _ "maintainDownloadingQueue s"]) (simp add: may_execute_def)
qed

lemma downloadTask_shape:
  assumes wf: "bs_wf s" and ok: "heights_ok s"
  shows "\<exists>s1 s2. silent s s1 \<and> m_waterMark s1 = m_waterMark s \<and> may_execute s1 s2 \<and> silent s2 (downloadTask F rnds s)"
proof -
  let ?s = "maintainDownloadingBuffer F s"
  have s: "silent s ?s" by (rule silent_maintainDownloadingBuffer [OF wf])
  have wm: "m_waterMark ?s = m_waterMark s" by (simp add: maintainDownloadingBuffer_def Let_def)
  have wf': "bs_wf ?s" by (rule bs_safe_wf [OF bs_safe_maintainDownloadingBuffer wf])
  have "heights_ok ?s" using ok s wm by (simp add: heights_ok_def silent_def)
  then obtain s1 where s1: "silent ?s s1" "m_waterMark s1 = m_waterMark ?s" "may_execute s1 (maintainDownloadingQueue ?s)"
    using maintainDownloadingQueue_shape [OF wf'] by blast
  have "silent s s1" using s s1(1) by (rule silent_trans)
  moreover have "silent (maintainDownloadingQueue ?s) (downloadTask F rnds s)"
    unfolding downloadTask_def by blast
  ultimately show ?thesis using s1(2,3) wm by metis
qed

text \<open>The events that do not touch the pipeline.\<close>

fun outside :: "event \<Rightarrow> bool" where
  "outside (CommittedIndex _) = True"
| "outside (ConnectedNodes _) = True"
| "outside (Message _ _ _) = True"
| "outside DownloadTimeout = True"
| "outside WorkerRound = True"
| "outside (SendRun _) = True"
| "outside (NodeIDs _) = True"
| "outside (BlockData _ _ _ _) = True"
| "outside _ = False"

lemma silent_outside: "outside e \<Longrightarrow> silent s (handle F e s)"
proof (cases e)
  case (SendRun rnd)
  have "silent s (takeSendTask s)" by (rule silent_same) (simp_all add: takeSendTask_def)
  also have "silent \<dots> (maintainBlockRequest rnd \<dots>)" by blast
  finally show ?thesis by (simp add: SendRun)
next
  case (CommittedIndex n)
  then show ?thesis
    by (simp add: asyncNotifyCommittedIndex_def setCommittedProposalNumber_def silent_def calm_def adds_calls_def)
next
  case (ConnectedNodes ns)
  then show ?thesis by (simp add: notifyConnectedNodes_def silent_def calm_def adds_calls_def)
next
  case (NodeIDs ans)
  then show ?thesis by (auto simp: onNodeIDs_def silent_def calm_def adds_calls_def split: sum.split option.split)
next
  case DownloadTimeout
  then show ?thesis by (auto simp: onDownloadTimeout_def intro: silent_same)
qed auto

end
