(* ===== verification/Interleaving.thy ===== *)
theory Interleaving
  imports EventSystem
begin

text \<open>
  Threads that share a state. The program of a thread is a function that takes a program point
  and the shared state to the next ones; \<open>None\<close> means that the thread has ended or has to wait.
  A step of the whole is a step of one thread. Three contracts of such programs carry over to
  every interleaving: a rank that falls with each step bounds the runs, and assertions at the
  program points that no other thread destroys hold throughout. A third one lets threads add to
  each other's work within a budget.
\<close>

type_synonym ('t, 's) program = "'t \<Rightarrow> 's \<Rightarrow> ('t \<times> 's) option"

inductive interleave :: "('t, 's) program \<Rightarrow> 't list \<times> 's \<Rightarrow> nat \<Rightarrow> 't list \<times> 's \<Rightarrow> bool" for step where
  turn: "i < length ts \<Longrightarrow> step (ts ! i) sh = Some (t, sh') \<Longrightarrow> interleave step (ts, sh) i (ts[i := t], sh')"

inductive_cases interleaveE: "interleave step (ts, sh) i st"

fun takeTurn :: "('t, 's) program \<Rightarrow> nat \<Rightarrow> 't list \<times> 's \<Rightarrow> ('t list \<times> 's) option" where
  "takeTurn step i (ts, sh) =
     (if i < length ts then map_option (\<lambda>(t, sh'). (ts[i := t], sh')) (step (ts ! i) sh) else None)"

lemma interleave_iff: "interleave step st i st' \<longleftrightarrow> takeTurn step i st = Some st'"
  by (cases st) (auto elim!: interleaveE intro: turn split: if_splits)

fun takeTurns :: "('t, 's) program \<Rightarrow> nat list \<Rightarrow> 't list \<times> 's \<Rightarrow> ('t list \<times> 's) option" where
  "takeTurns step [] st = Some st"
| "takeTurns step (i # is) st = Option.bind (takeTurn step i st) (takeTurns step is)"

lemma takeTurns_append: "takeTurns step (is @ js) st = Option.bind (takeTurns step is st) (takeTurns step js)"
  by (induction "is" arbitrary: st) (auto split: bind_splits)

lemma takeTurns_run: "takeTurns step is st = Some st' \<Longrightarrow> run (interleave step) st is st'"
  by (induction "is" arbitrary: st) (auto simp: interleave_iff bind_eq_Some_conv intro: run.intros)

lemma stuck_iff: "(\<forall>i st. \<not> interleave step (ts, sh) i st) \<longleftrightarrow> (\<forall>t \<in> set ts. step t sh = None)"
proof
  assume "\<forall>i st. \<not> interleave step (ts, sh) i st"
  then show "\<forall>t \<in> set ts. step t sh = None"
    by (auto simp: in_set_conv_nth) (metis not_None_eq surj_pair turn)
qed (auto elim: interleaveE)

section \<open>A thread that runs alone\<close>

definition alone :: "('t, 's) program \<Rightarrow> 't \<Rightarrow> 's \<Rightarrow> 't \<Rightarrow> 's \<Rightarrow> bool" where
  "alone step t sh t' sh' \<longleftrightarrow> (\<exists>n. run (interleave step) ([t], sh) (replicate n 0) ([t'], sh'))"

lemma alone_refl: "alone step t sh t sh"
  unfolding alone_def by (rule exI [of _ 0]) (simp add: run_Nil)

lemma alone_step:
  assumes "t \<noteq> t'"
  shows "alone step t sh t' sh' \<longleftrightarrow> (case step t sh of None \<Rightarrow> False | Some (u, sh1) \<Rightarrow> alone step u sh1 t' sh')"
proof
  assume "alone step t sh t' sh'"
  then obtain n where n: "run (interleave step) ([t], sh) (replicate n 0) ([t'], sh')" by (auto simp: alone_def)
  with assms obtain m where "n = Suc m" by (cases n) (auto elim: run_NilE)
  with n show "case step t sh of None \<Rightarrow> False | Some (u, sh1) \<Rightarrow> alone step u sh1 t' sh'"
    by (auto simp: alone_def elim!: run_ConsE interleaveE)
next
  assume "case step t sh of None \<Rightarrow> False | Some (u, sh1) \<Rightarrow> alone step u sh1 t' sh'"
  then obtain u sh1 n where "step t sh = Some (u, sh1)" "run (interleave step) ([u], sh1) (replicate n 0) ([t'], sh')"
    by (auto simp: alone_def split: option.splits)
  then have "run (interleave step) ([t], sh) (replicate (Suc n) 0) ([t'], sh')"
    using turn [of 0 "[t]" step sh u sh1] by (auto intro: run_Cons)
  then show "alone step t sh t' sh'" unfolding alone_def by blast
qed

section \<open>Ranked programs\<close>

text \<open>The rank of a program point may depend on the shared state, if no step of another thread raises it.\<close>

locale ranked_program =
  fixes step :: "('t, 's) program" and rank :: "'t \<Rightarrow> 's \<Rightarrow> nat"
  assumes rank_own: "step t sh = Some (t', sh') \<Longrightarrow> rank t' sh' < rank t sh"
    and rank_other: "step t sh = Some (t', sh') \<Longrightarrow> rank u sh' \<le> rank u sh"
begin

lemma total_rank:
  assumes "interleave step (ts, sh) i (ts', sh')"
  shows "sum_list (map (\<lambda>t. rank t sh') ts') < sum_list (map (\<lambda>t. rank t sh) ts) \<and> length ts' = length ts"
proof -
  obtain t where t: "i < length ts" "step (ts ! i) sh = Some (t, sh')" "ts' = ts[i := t]"
    using assms by (auto elim: interleaveE)
  have "sum_list (map (\<lambda>t. rank t sh') (take i ts)) \<le> sum_list (map (\<lambda>t. rank t sh) (take i ts))"
    "sum_list (map (\<lambda>t. rank t sh') (drop (Suc i) ts)) \<le> sum_list (map (\<lambda>t. rank t sh) (drop (Suc i) ts))"
    by (rule sum_list_mono, rule rank_other [OF t(2)])+
  moreover have "rank t sh' < rank (ts ! i) sh" by (rule rank_own [OF t(2)])
  moreover have "sum_list (map f ts) = sum_list (map f (take i ts)) + f (ts ! i) + sum_list (map f (drop (Suc i) ts))"
    for f :: "'t \<Rightarrow> nat" by (subst id_take_nth_drop [OF t(1)]) simp
  ultimately have "sum_list (map (\<lambda>t. rank t sh') ts') < sum_list (map (\<lambda>t. rank t sh) ts)"
    by (simp add: t(3) upd_conv_take_nth_drop [OF t(1)])
  then show ?thesis by (simp add: t(3))
qed

lemma run_length:
  "run (interleave step) st is st' \<Longrightarrow>
   length is + sum_list (map (\<lambda>t. rank t (snd st')) (fst st')) \<le> sum_list (map (\<lambda>t. rank t (snd st)) (fst st)) \<and>
   length (fst st') = length (fst st)"
proof (induction rule: run.induct)
  case (run_Cons st i st1 "is" st2)
  then show ?case using total_rank [of "fst st" "snd st" i "fst st1" "snd st1"] by simp
qed simp

end

section \<open>Assertions at program points\<close>

text \<open>
  \<open>G\<close> holds of the shared state, \<open>A\<close> between a program point and the shared state, and \<open>C\<close> says
  which program points may be taken by two threads at once. A step keeps the assertion of
  its own thread and does not interfere with the assertion of a compatible one.
\<close>

locale asserted_program =
  fixes step :: "('t, 's) program" and G :: "'s \<Rightarrow> bool" and A :: "'t \<Rightarrow> 's \<Rightarrow> bool" and C :: "'t \<Rightarrow> 't \<Rightarrow> bool"
  assumes own: "G sh \<Longrightarrow> A t sh \<Longrightarrow> step t sh = Some (t', sh') \<Longrightarrow> G sh' \<and> A t' sh'"
    and noninterference: "G sh \<Longrightarrow> A t sh \<Longrightarrow> A u sh \<Longrightarrow> C t u \<Longrightarrow> step t sh = Some (t', sh') \<Longrightarrow> A u sh'"
    and compatible: "C t u \<Longrightarrow> step t sh = Some (t', sh') \<Longrightarrow> C t' u"
    and compatible_sym: "C t u \<Longrightarrow> C u t"
begin

definition annotated :: "'t list \<times> 's \<Rightarrow> bool" where
  "annotated st \<longleftrightarrow> G (snd st) \<and> (\<forall>t \<in> set (fst st). A t (snd st)) \<and>
     (\<forall>i j. i < length (fst st) \<longrightarrow> j < length (fst st) \<longrightarrow> i \<noteq> j \<longrightarrow> C (fst st ! i) (fst st ! j))"

lemma annotated_step:
  assumes "annotated st" "interleave step st i st'"
  shows "annotated st'"
proof -
  obtain ts sh where st: "st = (ts, sh)" by (cases st)
  with assms(2) obtain t sh' where t: "i < length ts" "step (ts ! i) sh = Some (t, sh')" "st' = (ts[i := t], sh')"
    by (auto elim: interleaveE)
  have g: "G sh" and a: "\<And>j. j < length ts \<Longrightarrow> A (ts ! j) sh"
    and c: "\<And>j k. j < length ts \<Longrightarrow> k < length ts \<Longrightarrow> j \<noteq> k \<Longrightarrow> C (ts ! j) (ts ! k)"
    using assms(1) by (auto simp: annotated_def st)
  have "G sh'" "A t sh'" using own [OF g a [OF t(1)] t(2)] by auto
  moreover have "A (ts ! j) sh'" if "j < length ts" "j \<noteq> i" for j
    using noninterference [OF g a [OF t(1)] a [OF that(1)] c t(2)] t(1) that by simp
  moreover have "C t (ts ! j)" if "j < length ts" "j \<noteq> i" for j using compatible [OF c t(2)] t(1) that by simp
  ultimately show ?thesis
    using t(1) c by (auto simp: annotated_def t(3) all_set_conv_all_nth nth_list_update intro: compatible_sym)
qed

end

sublocale asserted_program \<subseteq> inductive_invariant annotated "interleave step" annotated
  by unfold_locales (auto intro: annotated_step)

context asserted_program
begin

lemma run_annotated: "run (interleave step) st is st' \<Longrightarrow> annotated st \<Longrightarrow> annotated st'"
  using reach_inv reach_run [of "interleave step" st "is" st' annotated] by (blast intro: reach_init)

end

section \<open>Programs with a budget\<close>

text \<open>
  A step may add to the work of other threads when its own thread pays for it. The potential of the shared
  state is work that is stored there, and what a thread still has to do may depend on a size \<open>n\<close> to which the
  threads can make the state grow.
\<close>

lemma sum_list_update_nat: "i < length ts \<Longrightarrow> sum_list (map f (ts[i := t])) + f (ts ! i) = sum_list (map f ts) + f t" for f :: "'a \<Rightarrow> nat"
  by (induction ts arbitrary: i) (auto split: nat.split simp: algebra_simps)

locale budgeted_program = asserted_program step G A C
  for step :: "('t, 's) program" and G A C +
  fixes grows :: "'t \<Rightarrow> nat" and extent :: "'s \<Rightarrow> nat" and rank :: "nat \<Rightarrow> 't \<Rightarrow> nat" and potential :: "'s \<Rightarrow> nat"
  assumes growth: "G sh \<Longrightarrow> A t sh \<Longrightarrow> step t sh = Some (t', sh') \<Longrightarrow> extent sh' + grows t' \<le> extent sh + grows t"
    and spends: "G sh \<Longrightarrow> A t sh \<Longrightarrow> step t sh = Some (t', sh') \<Longrightarrow> extent sh + grows t \<le> n \<Longrightarrow>
      rank n t' + potential sh' < rank n t + potential sh"
begin

lemma budget_step:
  assumes "annotated (ts, sh)" "interleave step (ts, sh) i (ts', sh')" "extent sh + sum_list (map grows ts) \<le> n"
  shows "extent sh' + sum_list (map grows ts') \<le> n"
    "sum_list (map (rank n) ts') + potential sh' < sum_list (map (rank n) ts) + potential sh"
proof -
  obtain t where t: "i < length ts" "step (ts ! i) sh = Some (t, sh')" "ts' = ts[i := t]"
    using assms(2) by (auto elim: interleaveE)
  have "G sh" "A (ts ! i) sh" using assms(1) t(1) by (auto simp: annotated_def)
  note steps = growth [OF this t(2)] spends [OF this t(2)]
  have "grows (ts ! i) \<le> sum_list (map grows ts)" using t(1) by (intro member_le_sum_list) auto
  then show "extent sh' + sum_list (map grows ts') \<le> n"
    "sum_list (map (rank n) ts') + potential sh' < sum_list (map (rank n) ts) + potential sh"
    using steps(1) steps(2) [of n] sum_list_update_nat [OF t(1), of grows t] sum_list_update_nat [OF t(1), of "rank n" t] assms(3)
    by (simp_all add: t(3))
qed

lemma budget_run:
  "run (interleave step) st is st' \<Longrightarrow> annotated st \<Longrightarrow> extent (snd st) + sum_list (map grows (fst st)) \<le> n \<Longrightarrow>
   length is + sum_list (map (rank n) (fst st')) + potential (snd st') \<le> sum_list (map (rank n) (fst st)) + potential (snd st)"
proof (induction rule: run.induct)
  case (run_Cons st i st1 "is" st2)
  then show ?case
    using budget_step [of "fst st" "snd st" i "fst st1" "snd st1" n] annotated_step by fastforce
qed simp

end

end
