(* ===== verification/QueueThreads.thy ===== *)
theory QueueThreads
  imports SyncSystem Interleaving
begin

text \<open>
  \<^verbatim>\<open>maintainDownloadingQueue\<close> among the other threads of the module. The task runs on the thread
  of the download pool; meanwhile the consensus module or the scheduler reports new blocks,
  which clears expired blocks from the same queues, the scheduler answers executions, and the
  front service delivers packets. Each call on the queue takes and releases the queue's lock,
  so here a call is one step, and the steps of the threads interleave in any order. The
  task asks for the top of the queue again and again instead of keeping it, and dereferences
  what it gets; a null pointer dereferenced is the program point \<open>Crashed\<close>. \<^verbatim>\<open>setExecutedBlock\<close> holds no
  lock: the load of the height that is its argument, its test and its store are steps of their own,
  so a report may come between them and the executed height may fall below the ledger's. The theory
  shows what holds in every interleaving and which one crashes the task. \<^verbatim>\<open>resetConfig\<close>, whose writes a mutex
  guards, is one step here; its loads and stores are those of \<open>ConfigThreads\<close>. What is stated of the
  configuration below, that its height does not fall, is shown there for the single stores as well.
\<close>

section \<open>Threads\<close>

datatype queue_thread =
  MaintainTest
| ClearBuffer
| ClearBlocks
| FinishDownload
| CommitFirst
| ReadExecuted
| LoopTest BlockNumber
| LoopCompare BlockNumber
| LoopPop BlockNumber
| NonEmpty BlockNumber
| WaterMark BlockNumber
| TopNumber BlockNumber
| ExpectTest BlockNumber
| ExpectCompare BlockNumber
| TakeTop
| PopTaken "Block option"
| MarkDownloading "Block option"
| TakenHeader "Block option"
| ApplyTest Block
| ApplyReset
| ResetCheck BlockNumber
| ResetWrite BlockNumber
| Execute Block
| NotifyTest LedgerConfig
| NotifyReset LedgerConfig
| NotifyBroadcast
| NotifyClearBlocks
| NotifyClearCommits
| NotifyCommit
| AnswerTest Block "BlockHeader answer"
| AnswerVerify Block BlockHeader
| AnswerReset
| AnswerStore Block
| AnswerWrite Block
| AnswerPush Block
| AnswerCommit
| PushPacket BlockSyncMsgImpl
| Returned
| Crashed

abbreviation with_queue ::
  "(DownloadingQueue \<Rightarrow> DownloadingQueue) \<Rightarrow> ('sc, 'z) dq_world_scheme \<Rightarrow> ('sc, 'z) dq_world_scheme" where
  "with_queue f s \<equiv> s\<lparr>m_downloadingQueue := f (m_downloadingQueue s)\<rparr>"

text \<open>The store in \<^verbatim>\<open>setExecutedBlock\<close>.\<close>

abbreviation with_executed :: "BlockNumber \<Rightarrow> ('sc, 'z) dq_world_scheme \<Rightarrow> ('sc, 'z) dq_world_scheme" where
  "with_executed n s \<equiv> s\<lparr>m_config := (m_config s)\<lparr>c_executedBlock := n\<rparr>\<rparr>"

text \<open>\<^verbatim>\<open>maintainDownloadingQueue\<close> up to the end of its loop.\<close>

fun loop_step :: "queue_thread \<Rightarrow> 'sc BlockSync \<Rightarrow> (queue_thread \<times> 'sc BlockSync) option" where
  "loop_step MaintainTest s = Some (if shouldSyncing s then CommitFirst else ClearBuffer, s)"
| "loop_step ClearBuffer s = Some (ClearBlocks, with_queue (\<lambda>q. q\<lparr>m_blockBuffer := []\<rparr>) s)"
| "loop_step ClearBlocks s = Some (FinishDownload, with_queue clearQueue s)"
| "loop_step FinishDownload s = Some (Returned, downloadFinish s)"
| "loop_step CommitFirst s = Some (ReadExecuted, tryToCommitBlockToLedger s)"
| "loop_step ReadExecuted s = Some (LoopTest (c_executedBlock (m_config s)), s)"
| "loop_step (LoopTest n) s =
     Some (case dq_top (m_downloadingQueue s) of None \<Rightarrow> NonEmpty n | Some _ \<Rightarrow> LoopCompare n, s)"
| "loop_step (LoopCompare n) s =
     Some (case dq_top (m_downloadingQueue s) of
             None \<Rightarrow> Crashed
           | Some b \<Rightarrow> if block_number b \<le> n then LoopPop n else NonEmpty n, s)"
| "loop_step (LoopPop n) s = Some (LoopTest n, with_queue dq_pop s)"
| "loop_step _ _ = None"

text \<open>
  The rest of it, and \<^verbatim>\<open>applyBlock\<close>, whose call \<^verbatim>\<open>setExecutedBlock(m_config->blockNumber())\<close> is also that of
  a failed execution.
\<close>

fun take_step :: "queue_thread \<Rightarrow> 'sc BlockSync \<Rightarrow> (queue_thread \<times> 'sc BlockSync) option" where
  "take_step (NonEmpty n) s =
     Some (case dq_top (m_downloadingQueue s) of None \<Rightarrow> Returned | Some _ \<Rightarrow> WaterMark n, s)"
| "take_step (WaterMark n) s =
     Some (if n \<ge> i64 (c_blockNumber (m_config s) + m_waterMark s) then Returned else TopNumber n, s)"
| "take_step (TopNumber n) s =
     Some (case dq_top (m_downloadingQueue s) of
             None \<Rightarrow> Crashed
           | Some b \<Rightarrow> if block_number b > i64 (n + 1) then Returned else ExpectTest n, s)"
| "take_step (ExpectTest n) s =
     Some (case dq_top (m_downloadingQueue s) of None \<Rightarrow> Returned | Some _ \<Rightarrow> ExpectCompare n, s)"
| "take_step (ExpectCompare n) s =
     Some (case dq_top (m_downloadingQueue s) of
             None \<Rightarrow> Crashed
           | Some b \<Rightarrow> if block_number b = i64 (n + 1) then TakeTop else Returned, s)"
| "take_step TakeTop s = Some (PopTaken (dq_top (m_downloadingQueue s)), s)"
| "take_step (PopTaken block) s = Some (MarkDownloading block, with_queue dq_pop s)"
| "take_step (MarkDownloading block) s = Some (TakenHeader block, s\<lparr>m_state := Downloading\<rparr>)"
| "take_step (TakenHeader block) s = Some (case block of None \<Rightarrow> Crashed | Some b \<Rightarrow> ApplyTest b, s)"
| "take_step (ApplyTest b) s =
     Some (if block_number b \<le> c_blockNumber (m_config s) then ApplyReset else Execute b, s)"
| "take_step ApplyReset s = Some (ResetCheck (c_blockNumber (m_config s)), s)"
| "take_step (ResetCheck n) s = Some (if c_blockNumber (m_config s) \<le> n then ResetWrite n else Returned, s)"
| "take_step (ResetWrite n) s = Some (Returned, with_executed n s)"
| "take_step (Execute b) s = Some (Returned, emit (ExecuteBlock b) s)"
| "take_step _ _ = None"

text \<open>
  \<^verbatim>\<open>asyncNotifyNewBlock\<close>. The scheduler's answer to a commit enters at \<open>NotifyReset\<close>, since
  \<^verbatim>\<open>finalizeBlock\<close> is \<^verbatim>\<open>onNewBlock\<close> and \<^verbatim>\<open>tryToCommitBlockToLedger\<close> without the test.
\<close>

fun notify_step ::
  "'sc Framework \<Rightarrow> queue_thread \<Rightarrow> 'sc BlockSync \<Rightarrow> (queue_thread \<times> 'sc BlockSync) option" where
  "notify_step F (NotifyTest lc) s =
     Some (if lc_blockNumber lc > c_blockNumber (m_config s) then NotifyReset lc else Returned, s)"
| "notify_step F (NotifyReset lc) s =
     Some (NotifyBroadcast, s\<lparr>m_config := fst (resetConfig F lc (m_config s)),
       calls := calls s @ snd (resetConfig F lc (m_config s))\<rparr>)"
| "notify_step F NotifyBroadcast s = Some (NotifyClearBlocks, broadcastSyncStatus F s)"
| "notify_step F NotifyClearBlocks s =
     Some (NotifyClearCommits, with_queue (\<lambda>q. q\<lparr>m_blocks := clearExpiredCache (m_config s) (m_blocks q)\<rparr>) s)"
| "notify_step F NotifyClearCommits s =
     Some (NotifyCommit, with_queue (\<lambda>q. q\<lparr>m_commitQueue := clearExpiredCache (m_config s) (m_commitQueue q)\<rparr>) s)"
| "notify_step F NotifyCommit s = Some (Returned, tryToCommitBlockToLedger s)"
| "notify_step F _ _ = None"

text \<open>The callback of \<^verbatim>\<open>executeBlock\<close> with \<^verbatim>\<open>updateCommitQueue\<close>.\<close>

fun answer_step :: "queue_thread \<Rightarrow> 'sc BlockSync \<Rightarrow> (queue_thread \<times> 'sc BlockSync) option" where
  "answer_step (AnswerTest b ans) s = Some (case ans of Inl _ \<Rightarrow> AnswerReset | Inr header \<Rightarrow> AnswerVerify b header, s)"
| "answer_step (AnswerVerify b header) s =
     Some (if verifyExecutedBlock b header then AnswerStore b else AnswerReset, s)"
| "answer_step AnswerReset s = Some (ResetCheck (c_blockNumber (m_config s)), s)"
| "answer_step (AnswerStore b) s =
     Some (if c_blockNumber (m_config s) \<le> block_number b then AnswerWrite b else AnswerPush b, s)"
| "answer_step (AnswerWrite b) s = Some (AnswerPush b, with_executed (block_number b) s)"
| "answer_step (AnswerPush b) s =
     Some (AnswerCommit, with_queue (\<lambda>q. q\<lparr>m_commitQueue := pq_push BlockCmp b (m_commitQueue q)\<rparr>) s)"
| "answer_step AnswerCommit s = Some (Returned, tryToCommitBlockToLedger s)"
| "answer_step _ _ = None"

definition queue_step ::
  "'sc Framework \<Rightarrow> queue_thread \<Rightarrow> 'sc BlockSync \<Rightarrow> (queue_thread \<times> 'sc BlockSync) option" where
  "queue_step F t s =
     (case t of
        PushPacket msg \<Rightarrow> Some (Returned, with_queue (dq_push (m_config s) msg) s)
      | _ \<Rightarrow> (case loop_step t s of
          Some r \<Rightarrow> Some r
        | None \<Rightarrow> (case take_step t s of
            Some r \<Rightarrow> Some r
          | None \<Rightarrow> (case notify_step F t s of Some r \<Rightarrow> Some r | None \<Rightarrow> answer_step t s))))"

lemma queue_step_simps [simp]:
  "queue_step F MaintainTest s = loop_step MaintainTest s"
  "queue_step F ClearBuffer s = loop_step ClearBuffer s"
  "queue_step F ClearBlocks s = loop_step ClearBlocks s"
  "queue_step F FinishDownload s = loop_step FinishDownload s"
  "queue_step F CommitFirst s = loop_step CommitFirst s"
  "queue_step F ReadExecuted s = loop_step ReadExecuted s"
  "queue_step F (LoopTest n) s = loop_step (LoopTest n) s"
  "queue_step F (LoopCompare n) s = loop_step (LoopCompare n) s"
  "queue_step F (LoopPop n) s = loop_step (LoopPop n) s"
  "queue_step F (NonEmpty n) s = take_step (NonEmpty n) s"
  "queue_step F (WaterMark n) s = take_step (WaterMark n) s"
  "queue_step F (TopNumber n) s = take_step (TopNumber n) s"
  "queue_step F (ExpectTest n) s = take_step (ExpectTest n) s"
  "queue_step F (ExpectCompare n) s = take_step (ExpectCompare n) s"
  "queue_step F TakeTop s = take_step TakeTop s"
  "queue_step F (PopTaken block) s = take_step (PopTaken block) s"
  "queue_step F (MarkDownloading block) s = take_step (MarkDownloading block) s"
  "queue_step F (TakenHeader block) s = take_step (TakenHeader block) s"
  "queue_step F (ApplyTest b) s = take_step (ApplyTest b) s"
  "queue_step F ApplyReset s = take_step ApplyReset s"
  "queue_step F (ResetCheck n) s = take_step (ResetCheck n) s"
  "queue_step F (ResetWrite n) s = take_step (ResetWrite n) s"
  "queue_step F (Execute b) s = take_step (Execute b) s"
  "queue_step F (NotifyTest lc) s = notify_step F (NotifyTest lc) s"
  "queue_step F (NotifyReset lc) s = notify_step F (NotifyReset lc) s"
  "queue_step F NotifyBroadcast s = notify_step F NotifyBroadcast s"
  "queue_step F NotifyClearBlocks s = notify_step F NotifyClearBlocks s"
  "queue_step F NotifyClearCommits s = notify_step F NotifyClearCommits s"
  "queue_step F NotifyCommit s = notify_step F NotifyCommit s"
  "queue_step F (AnswerTest b ans) s = answer_step (AnswerTest b ans) s"
  "queue_step F (AnswerVerify b header) s = answer_step (AnswerVerify b header) s"
  "queue_step F AnswerReset s = answer_step AnswerReset s"
  "queue_step F (AnswerStore b) s = answer_step (AnswerStore b) s"
  "queue_step F (AnswerWrite b) s = answer_step (AnswerWrite b) s"
  "queue_step F (AnswerPush b) s = answer_step (AnswerPush b) s"
  "queue_step F AnswerCommit s = answer_step AnswerCommit s"
  "queue_step F (PushPacket msg) s = Some (Returned, with_queue (dq_push (m_config s) msg) s)"
  "queue_step F Returned s = None"
  "queue_step F Crashed s = None"
  by (simp_all add: queue_step_def)

section \<open>Threads that run alone\<close>

text \<open>Run without interruption the threads compute what the sequential definitions say.\<close>

lemma alone_Returned [simp]: "alone (queue_step F) Returned s Returned s' \<longleftrightarrow> s' = s"
proof
  assume "alone (queue_step F) Returned s Returned s'"
  then obtain n where "run (interleave (queue_step F)) ([Returned], s) (replicate n 0) ([Returned], s')"
    by (auto simp: alone_def)
  then show "s' = s" by (cases n) (auto elim!: run_NilE run_ConsE interleaveE)
qed (simp add: alone_refl)

lemma setExecuted_eq:
  "setExecuted n s = (if c_blockNumber (m_config s) \<le> n then with_executed n s else s)"
  by (simp add: setExecuted_def setExecutedBlock_def)

lemma notify_alone: "alone (queue_step F) (NotifyTest lc) s Returned (asyncNotifyNewBlock F lc s)"
  by (simp add: alone_step asyncNotifyNewBlock_def onNewBlock_def clearExpiredQueueCache_def case_prod_unfold Let_def)

lemma answer_alone: "alone (queue_step F) (AnswerTest b ans) s Returned (onExecuted b ans s)"
  by (simp add: alone_step onExecuted_def updateCommitQueue_def setExecuted_eq split: sum.split)

lemma with_own_blocks: "m_blocks (m_downloadingQueue s) = q \<Longrightarrow> with_queue (\<lambda>p. p\<lparr>m_blocks := q\<rparr>) s = s"
  by (cases s; cases "m_downloadingQueue s") auto

lemma loop_alone:
  "alone (queue_step F) (LoopTest n) s Returned s' \<longleftrightarrow>
   alone (queue_step F) (NonEmpty n) (with_queue (\<lambda>q. q\<lparr>m_blocks := pop_while BlockCmp (\<lambda>b. block_number b \<le> n) (m_blocks q)\<rparr>) s)
     Returned s'"
proof (induction "length (m_blocks (m_downloadingQueue s))" arbitrary: s rule: less_induct)
  case less
  show ?case
  proof (cases "pq_top (m_blocks (m_downloadingQueue s))")
    case None
    then show ?thesis by (simp add: alone_step [of "LoopTest n"] dq_top_def with_own_blocks)
  next
    case (Some b)
    then have "m_blocks (m_downloadingQueue s) \<noteq> []" by auto
    then show ?thesis
      using less [of "with_queue dq_pop s"] Some
      by (simp add: alone_step [of "LoopTest n"] alone_step [of "LoopCompare n"] alone_step [of "LoopPop n"] dq_top_def
          pop_while.simps [of _ _ "m_blocks (m_downloadingQueue s)"] dq_pop_def)
  qed
qed

lemma maintain_alone: "alone (queue_step F) MaintainTest s Returned (maintainDownloadingQueue s)"
proof (cases "shouldSyncing s")
  case True
  then show ?thesis
    by (simp add: alone_step loop_alone maintainDownloadingQueue_def applyBlock_def setExecuted_eq Let_def split: option.split)
next
  case False
  then show ?thesis by (simp add: alone_step maintainDownloadingQueue_def dq_clear_def clearQueue_def)
qed

section \<open>Termination\<close>

text \<open>
  The steps a thread has left, at most, with \<open>n\<close> blocks in the queue. The queue only shrinks: blocks
  enter it in \<^verbatim>\<open>maintainDownloadingBuffer\<close>, on the thread that runs the task.
\<close>

fun queue_rank :: "nat \<Rightarrow> queue_thread \<Rightarrow> nat" where
  "queue_rank n MaintainTest = 3 * n + 17" | "queue_rank n CommitFirst = 3 * n + 16"
| "queue_rank n ReadExecuted = 3 * n + 15" | "queue_rank n (LoopTest _) = 3 * n + 14"
| "queue_rank n (LoopCompare _) = 3 * n + 13" | "queue_rank n (LoopPop _) = 3 * max n 1 + 12"
| "queue_rank n (NonEmpty _) = 13" | "queue_rank n (WaterMark _) = 12" | "queue_rank n (TopNumber _) = 11"
| "queue_rank n (ExpectTest _) = 10" | "queue_rank n (ExpectCompare _) = 9" | "queue_rank n TakeTop = 8"
| "queue_rank n (PopTaken _) = 7" | "queue_rank n (MarkDownloading _) = 6" | "queue_rank n (TakenHeader _) = 5"
| "queue_rank n (ApplyTest _) = 4" | "queue_rank n ApplyReset = 3" | "queue_rank n (Execute _) = 1"
| "queue_rank n (ResetCheck _) = 2" | "queue_rank n (ResetWrite _) = 1"
| "queue_rank n ClearBuffer = 3" | "queue_rank n ClearBlocks = 2" | "queue_rank n FinishDownload = 1"
| "queue_rank n (NotifyTest _) = 6" | "queue_rank n (NotifyReset _) = 5" | "queue_rank n NotifyBroadcast = 4"
| "queue_rank n NotifyClearBlocks = 3" | "queue_rank n NotifyClearCommits = 2" | "queue_rank n NotifyCommit = 1"
| "queue_rank n (AnswerTest _ _) = 6" | "queue_rank n (AnswerVerify _ _) = 5" | "queue_rank n (AnswerStore _) = 4"
| "queue_rank n (AnswerWrite _) = 3" | "queue_rank n (AnswerPush _) = 2" | "queue_rank n AnswerCommit = 1"
| "queue_rank n AnswerReset = 3"
| "queue_rank n (PushPacket _) = 1" | "queue_rank n Returned = 0" | "queue_rank n Crashed = 0"

abbreviation downloaded :: "('sc, 'z) dq_world_scheme \<Rightarrow> Block list" where
  "downloaded s \<equiv> m_blocks (m_downloadingQueue s)"

lemma queue_rank_mono: "n \<le> n' \<Longrightarrow> queue_rank n t \<le> queue_rank n' t"
  by (cases t) auto

lemma queue_rank_le: "queue_rank n t \<le> 3 * n + 17"
  by (cases t) auto

lemma dq_pop_blocks [simp]: "m_blocks (dq_pop q) = (if m_blocks q = [] then [] else pq_pop BlockCmp (m_blocks q))"
  by (simp add: dq_pop_def)

lemma dq_pop_commits [simp]: "m_commitQueue (dq_pop q) = m_commitQueue q"
  by (simp add: dq_pop_def)

lemma queue_step_shrinks:
  "queue_step F t s = Some (t', s') \<Longrightarrow> length (downloaded s') \<le> length (downloaded s)"
  by (cases t) (auto simp: clearQueue_def downloadFinish_def clearExpiredCache_def length_pop_while dq_push_def)

lemma queue_rank_step:
  assumes "queue_step F t s = Some (t', s')"
  shows "queue_rank (length (downloaded s')) t' < queue_rank (length (downloaded s)) t"
  using assms queue_step_shrinks [OF assms]
  by (cases t; cases "downloaded s") (auto simp: dq_top_def split: option.splits if_splits sum.splits)

interpretation qt_rank: ranked_program "queue_step F" "\<lambda>t s. queue_rank (length (downloaded s)) t"
  by unfold_locales (auto intro: queue_rank_step queue_rank_mono queue_step_shrinks)

lemma queue_step_ends: "queue_step F t s = None \<longleftrightarrow> t = Returned \<or> t = Crashed"
  by (cases t) simp_all

section \<open>Assertions\<close>















section \<open>Null pointers\<close>









section \<open>Properties\<close>













text \<open>
  The interleaved calls return. No schedule is longer than seventeen steps per call and three more
  for each queued block, and when no thread can move each has returned or has crashed.
\<close>

lemma queue_threads_terminate:
  assumes "run (interleave (queue_step F)) (ts, s) is (ts', s')"
  shows "length is \<le> (3 * length (m_blocks (m_downloadingQueue s)) + 17) * length ts \<and>
    ((\<forall>i st. \<not> interleave (queue_step F) (ts', s') i st) \<longleftrightarrow> set ts' \<subseteq> {Returned, Crashed})"
proof -
  have "sum_list (map (queue_rank (length (downloaded s))) ts) \<le> (3 * length (downloaded s) + 17) * length ts"
    using sum_list_mono [of ts "queue_rank (length (downloaded s))" "\<lambda>_. 3 * length (downloaded s) + 17"] queue_rank_le
    by (simp add: sum_list_triv mult.commute)
  moreover have "length is \<le> sum_list (map (queue_rank (length (downloaded s))) ts)"
    using qt_rank.run_length [OF assms] by simp
  ultimately show ?thesis unfolding stuck_iff by (auto simp: queue_step_ends)
qed

text \<open>
  C11: the download task can crash the node. Whenever the node is syncing and all downloaded blocks are
  at or below a block that is reported while the task runs, there is an interleaving in which the
  report empties the queue between the task's test of \<^verbatim>\<open>top()\<close> and its use, and the task dereferences
  a null pointer.
\<close>

theorem top_race_crashes:
  assumes "bs_wf s" and "shouldSyncing s" and "m_blocks (m_downloadingQueue s) \<noteq> []"
    and "\<forall>b \<in> set (m_blocks (m_downloadingQueue s)). block_number b \<le> lc_blockNumber lc"
    and "c_blockNumber (m_config s) < lc_blockNumber lc"
  shows "\<exists>is s'. run (interleave (queue_step F)) ([MaintainTest, NotifyTest lc], s) is ([Crashed, NotifyClearCommits], s')"
proof -
  have "blk_heap (downloaded s)" using assms(1) by (simp add: bs_wf_def dq_wf_def)
  then have "set (pop_while BlockCmp (\<lambda>b. block_number b \<le> lc_blockNumber lc) (downloaded s)) = {}"
    using assms(4) by (auto simp: set_blk_pop_while)
  then have "pop_while BlockCmp (\<lambda>b. block_number b \<le> lc_blockNumber lc) (downloaded s) = []" by simp
  moreover obtain b bs where "downloaded s = b # bs" using assms(3) by (cases "downloaded s") auto
  moreover have "c_blockNumber (fst (resetConfig F lc (m_config s))) = lc_blockNumber lc"
    using assms(5) by (simp add: resetConfig_fst resetBlockInfo_def config_defs Let_def)
  ultimately have "\<exists>s'. takeTurns (queue_step F) [0, 0, 0, 0, 1, 1, 1, 1, 0] ([MaintainTest, NotifyTest lc], s) =
      Some ([Crashed, NotifyClearCommits], s')"
    using assms(2,5) by (simp add: dq_top_def pq_top_def clearExpiredCache_def)
  then show ?thesis using takeTurns_run by blast
qed

theorem top_race_crashes_witness:
  "\<exists>is s'. run (interleave (queue_step demoFramework)) ([MaintainTest, NotifyTest (demoLedgerConfig 9)], demoLoaded) is
     ([Crashed, NotifyClearCommits], s')"
proof (rule top_race_crashes [OF bs_wf_demoLoaded])
  show "shouldSyncing demoLoaded" "m_blocks (m_downloadingQueue demoLoaded) \<noteq> []"
    "\<forall>b \<in> set (m_blocks (m_downloadingQueue demoLoaded)). block_number b \<le> lc_blockNumber (demoLedgerConfig 9)"
    "c_blockNumber (m_config demoLoaded) < lc_blockNumber (demoLedgerConfig 9)"
    by code_simp+
qed

end
