(* ===== verification/StatusThreads.thy ===== *)
theory StatusThreads
  imports SyncDemo Interleaving
begin

text \<open>
  Reading the hash of the configuration while it changes. \<^verbatim>\<open>BlockSyncConfig::hash()\<close> takes a read
  lock and returns a reference, so its caller reads the 32 bytes after the lock is released;
  \<^verbatim>\<open>setHash\<close> writes them under the write lock. Here \<^verbatim>\<open>resetBlockInfo\<close> (up to \<^verbatim>\<open>setHash\<close>) and the construction
  of a status message, which reads the height and then the hash, are sequences of steps, with
  each lock, unlock and byte a step of its own, and any number of threads interleave.
\<close>

section \<open>Threads\<close>

datatype status_thread =
  StoreNumber BlockNumber HashType
| LockHash HashType
| CopyIn nat HashType
| UnlockHash
| Stored
| LoadNumber
| GuardHash BlockNumber
| UnguardHash BlockNumber
| CopyOut BlockNumber bytes
| Status BlockNumber bytes

record hash_cell =
  hc_number :: BlockNumber
  hc_hash :: bytes
  hc_writing :: bool
  hc_readers :: nat

text \<open>\<^verbatim>\<open>m_blockNumber = _blockNumber; setHash(_hash)\<close>: the guard waits for readers and other writers.\<close>

fun store_step :: "status_thread \<Rightarrow> hash_cell \<Rightarrow> (status_thread \<times> hash_cell) option" where
  "store_step (StoreNumber n h) c = Some (LockHash h, c\<lparr>hc_number := n\<rparr>)"
| "store_step (LockHash h) c = (if hc_writing c \<or> 0 < hc_readers c then None else Some (CopyIn 0 h, c\<lparr>hc_writing := True\<rparr>))"
| "store_step (CopyIn i h) c =
     (if i < HashType_size then Some (CopyIn (Suc i) h, c\<lparr>hc_hash := (hc_hash c)[i := h ! i]\<rparr>) else Some (UnlockHash, c))"
| "store_step UnlockHash c = Some (Stored, c\<lparr>hc_writing := False\<rparr>)"
| "store_step _ _ = None"

text \<open>
  The arguments \<^verbatim>\<open>m_config->blockNumber()\<close> and \<^verbatim>\<open>m_config->hash()\<close> of a status message, and the copy that
  \<^verbatim>\<open>BlockSyncStatusImpl::setHash\<close> makes of what the reference refers to.
\<close>

fun status_step :: "status_thread \<Rightarrow> hash_cell \<Rightarrow> (status_thread \<times> hash_cell) option" where
  "status_step LoadNumber c = Some (GuardHash (hc_number c), c)"
| "status_step (GuardHash n) c = (if hc_writing c then None else Some (UnguardHash n, c\<lparr>hc_readers := Suc (hc_readers c)\<rparr>))"
| "status_step (UnguardHash n) c = Some (CopyOut n [], c\<lparr>hc_readers := hc_readers c - 1\<rparr>)"
| "status_step (CopyOut n bs) c =
     (if length bs < HashType_size then Some (CopyOut n (bs @ [hc_hash c ! length bs]), c) else Some (Status n bs, c))"
| "status_step _ _ = None"

fun hash_step :: "status_thread \<Rightarrow> hash_cell \<Rightarrow> (status_thread \<times> hash_cell) option" where
  "hash_step (StoreNumber n h) c = store_step (StoreNumber n h) c"
| "hash_step (LockHash h) c = store_step (LockHash h) c"
| "hash_step (CopyIn i h) c = store_step (CopyIn i h) c"
| "hash_step UnlockHash c = store_step UnlockHash c"
| "hash_step t c = status_step t c"

section \<open>Termination\<close>

fun status_rank :: "status_thread \<Rightarrow> nat" where
  "status_rank (StoreNumber _ _) = 36"
| "status_rank (LockHash _) = 35"
| "status_rank (CopyIn i _) = 2 + (HashType_size - i)"
| "status_rank UnlockHash = 1"
| "status_rank Stored = 0"
| "status_rank LoadNumber = 36"
| "status_rank (GuardHash _) = 35"
| "status_rank (UnguardHash _) = 34"
| "status_rank (CopyOut _ bs) = 1 + (HashType_size - length bs)"
| "status_rank (Status _ _) = 0"

interpretation ht_rank: ranked_program hash_step "\<lambda>t _. status_rank t"
proof
  show "status_rank t' < status_rank t" if "hash_step t c = Some (t', c')" for t t' c c'
    using that by (cases t) (auto simp: HashType_size_def split: if_splits)
qed simp

section \<open>What a status can hold\<close>

text \<open>
  \<open>N\<close> and \<open>H\<close> are the heights and hashes that are stored. A status takes its height from \<open>N\<close> and each byte of
  its hash from a hash of \<open>H\<close>, though not always from the same one.
\<close>

definition mixture :: "HashType set \<Rightarrow> bytes \<Rightarrow> bool" where
  "mixture H bs \<longleftrightarrow> (\<forall>i < length bs. bs ! i \<in> (\<lambda>h. h ! i) ` H)"

fun stores :: "BlockNumber set \<Rightarrow> HashType set \<Rightarrow> status_thread \<Rightarrow> bool" where
  "stores N H (StoreNumber n h) = (n \<in> N \<and> h \<in> H)"
| "stores N H (LockHash h) = (h \<in> H)"
| "stores N H (CopyIn i h) = (h \<in> H)"
| "stores N H (GuardHash n) = (n \<in> N)"
| "stores N H (UnguardHash n) = (n \<in> N)"
| "stores N H (CopyOut n bs) = (n \<in> N \<and> length bs \<le> HashType_size \<and> mixture H bs)"
| "stores N H (Status n bs) = (n \<in> N \<and> length bs = HashType_size \<and> mixture H bs)"
| "stores N H _ = True"

definition cell_ok :: "BlockNumber set \<Rightarrow> HashType set \<Rightarrow> hash_cell \<Rightarrow> bool" where
  "cell_ok N H c \<longleftrightarrow> hc_number c \<in> N \<and> length (hc_hash c) = HashType_size \<and> mixture H (hc_hash c)"

lemma mixture_snoc: "mixture H bs \<Longrightarrow> mixture H hs \<Longrightarrow> length bs < length hs \<Longrightarrow> mixture H (bs @ [hs ! length bs])"
  by (auto simp: mixture_def nth_append less_Suc_eq)

lemma mixture_update: "mixture H bs \<Longrightarrow> h \<in> H \<Longrightarrow> mixture H (bs[i := h ! i])"
  by (cases "i < length bs") (auto simp: mixture_def nth_list_update)

lemma mixture_single: "mixture {h} bs \<Longrightarrow> length bs = length h \<Longrightarrow> bs = h"
  by (simp add: mixture_def list_eq_iff_nth_eq)

interpretation ht: asserted_program hash_step "cell_ok N H" "\<lambda>t _. stores N H t" "\<lambda>_ _. True"
proof
  show "cell_ok N H c' \<and> stores N H t'" if "cell_ok N H c" "stores N H t" "hash_step t c = Some (t', c')" for t t' c c'
    using that by (cases t) (auto simp: cell_ok_def mixture_update mixture_snoc mixture_def [of H "[]"] split: if_splits)
qed simp_all

section \<open>A torn read\<close>

text \<open>
  The schedule: the status (thread 0) reads the height and gets the reference, the writer (thread 1) stores the height and the first \<open>k\<close> bytes,
  the status copies all bytes, the writer goes on.
\<close>

lemma copy_in:
  assumes "k \<le> HashType_size" "length hs = HashType_size" "length h = HashType_size"
  shows "run (interleave hash_step) ([t, CopyIn 0 h], c\<lparr>hc_hash := hs\<rparr>) (replicate k 1)
    ([t, CopyIn k h], c\<lparr>hc_hash := take k h @ drop k hs\<rparr>)"
  using assms(1)
proof (induction k)
  case (Suc k)
  have "(take k h @ drop k hs)[k := h ! k] = take (Suc k) h @ drop (Suc k) hs"
    using Suc.prems assms by (intro nth_equalityI) (auto simp: nth_list_update nth_append less_Suc_eq)
  then have "interleave hash_step ([t, CopyIn k h], c\<lparr>hc_hash := take k h @ drop k hs\<rparr>) 1
      ([t, CopyIn (Suc k) h], c\<lparr>hc_hash := take (Suc k) h @ drop (Suc k) hs\<rparr>)"
    using Suc.prems by (simp add: interleave_iff)
  with Suc show ?case unfolding replicate_Suc replicate_append_same [symmetric]
    by (intro run_append [OF _ run_Cons]) (auto intro: run_Nil)
qed (simp add: run_Nil)

lemma copy_out:
  assumes "k \<le> HashType_size" "length (hc_hash c) = HashType_size"
  shows "run (interleave hash_step) ([CopyOut n [], t], c) (replicate k 0) ([CopyOut n (take k (hc_hash c)), t], c)"
  using assms(1)
proof (induction k)
  case (Suc k)
  have "interleave hash_step ([CopyOut n (take k (hc_hash c)), t], c) 0 ([CopyOut n (take (Suc k) (hc_hash c)), t], c)"
    using Suc.prems assms(2) by (simp add: interleave_iff take_Suc_conv_app_nth)
  with Suc show ?case unfolding replicate_Suc replicate_append_same [symmetric]
    by (intro run_append [OF _ run_Cons]) (auto intro: run_Nil)
qed (simp add: run_Nil)

lemma status_turns:
  assumes len: "length h = HashType_size" "length h' = HashType_size" "k \<le> HashType_size"
    and c0: "c0 = \<lparr>hc_number = n, hc_hash = h, hc_writing = False, hc_readers = 0\<rparr>"
    and c: "c = \<lparr>hc_number = n', hc_hash = take k h' @ drop k h, hc_writing = True, hc_readers = 0\<rparr>"
  shows "run (interleave hash_step) ([LoadNumber, StoreNumber n' h'], c0)
    ([0, 0, 0, 1, 1] @ replicate k 1 @ replicate HashType_size 0 @ [0]) ([Status n (take k h' @ drop k h), CopyIn k h'], c)"
proof (intro run_append)
  show "run (interleave hash_step) ([LoadNumber, StoreNumber n' h'], c0) [0, 0, 0, 1, 1] ([CopyOut n [], CopyIn 0 h'], c\<lparr>hc_hash := h\<rparr>)"
    by (rule takeTurns_run) (simp add: c0 c)
  show "run (interleave hash_step) ([CopyOut n [], CopyIn 0 h'], c\<lparr>hc_hash := h\<rparr>) (replicate k 1) ([CopyOut n [], CopyIn k h'], c)"
    using copy_in [OF len(3,1,2), of "CopyOut n []" c] by (simp add: c)
  show "run (interleave hash_step) ([CopyOut n [], CopyIn k h'], c) (replicate HashType_size 0)
      ([CopyOut n (take k h' @ drop k h), CopyIn k h'], c)"
    using copy_out [OF order.refl, of c n "CopyIn k h'"] len by (simp add: c)
  show "run (interleave hash_step) ([CopyOut n (take k h' @ drop k h), CopyIn k h'], c) [0]
      ([Status n (take k h' @ drop k h), CopyIn k h'], c)"
    by (rule takeTurns_run) (use len in simp)
qed

section \<open>Properties\<close>

text \<open>Every status of a run is made of stored values; without a store it is the pair the configuration has.\<close>

lemma status_from_stored:
  assumes run: "run (interleave hash_step) (ts0, c0) is (ts, c)" and start: "\<forall>t \<in> set ts0. t = LoadNumber \<or> (\<exists>n h. t = StoreNumber n h)"
    and len: "length (hc_hash c0) = HashType_size" and st: "Status n bs \<in> set ts"
  shows "n \<in> insert (hc_number c0) {n. \<exists>h. StoreNumber n h \<in> set ts0}" "length bs = HashType_size"
    "mixture (insert (hc_hash c0) {h. \<exists>n. StoreNumber n h \<in> set ts0}) bs"
proof -
  let ?N = "insert (hc_number c0) {n. \<exists>h. StoreNumber n h \<in> set ts0}" and ?H = "insert (hc_hash c0) {h. \<exists>n. StoreNumber n h \<in> set ts0}"
  have "cell_ok ?N ?H c0" using len by (simp add: cell_ok_def mixture_def)
  moreover have "stores ?N ?H t" if "t \<in> set ts0" for t using bspec [OF start that] that by auto
  ultimately have "ht.annotated ?N ?H (ts0, c0)" by (simp add: ht.annotated_def)
  then have "ht.annotated ?N ?H (ts, c)" by (rule ht.run_annotated [OF run])
  then have "stores ?N ?H (Status n bs)" using st by (auto simp: ht.annotated_def)
  then show "n \<in> ?N" "length bs = HashType_size" "mixture ?H bs" by simp_all
qed

text \<open>
  C12: a status message can carry a hash that no block has. While a block is stored, the thread that
  builds a status may have obtained the reference to the hash before and copy the bytes
  in the middle of the write: for every \<open>k\<close> there is an interleaving whose status has the old
  height and a hash with the first \<open>k\<close> bytes of the new hash and the rest of the old one, and the writer holds the lock meanwhile.
  For \<open>k = 32\<close> it pairs the old height with the new hash.
\<close>

theorem torn_status:
  assumes "length h = HashType_size" "length h' = HashType_size" "k \<le> HashType_size"
  shows "\<exists>is c. run (interleave hash_step)
      ([LoadNumber, StoreNumber n' h'], \<lparr>hc_number = n, hc_hash = h, hc_writing = False, hc_readers = 0\<rparr>) is
      ([Status n (take k h' @ drop k h), CopyIn k h'], c) \<and> hc_writing c \<and> hc_number c = n'"
  using status_turns [OF assms refl refl] by fastforce

theorem torn_status_witness:
  "\<exists>is c. run (interleave hash_step)
      ([LoadNumber, StoreNumber 7 (replicate 32 2)], \<lparr>hc_number = 6, hc_hash = replicate 32 1, hc_writing = False, hc_readers = 0\<rparr>) is
      ([Status 6 (replicate 16 2 @ replicate 16 1), CopyIn 16 (replicate 32 2)], c) \<and> hc_writing c \<and> hc_number c = 7"
  using torn_status [of "replicate 32 1" "replicate 32 2" 16 7 6] by (simp add: HashType_size_def)

end
