(* ===== verification/PeerThreads.thy ===== *)
theory PeerThreads
  imports BlockResponses Interleaving
begin

text \<open>
  The peer table among the threads that use it. Block requests and status packets arrive on
  threads of the front service, the ledger answers on its own, the worker maintains the
  connections, and the thread of the send pool answers the queued requests. Each call on the table takes
  \<^verbatim>\<open>x_peersStatus\<close> and releases it, each call on a request queue takes and releases the lock of that
  queue, and a handler is a sequence of such calls: here a call is one step, and the steps of the
  threads interleave in any order. Only a visit of the table with \<^verbatim>\<open>foreachPeerRandom\<close> holds its read
  lock over many steps; \<open>sh_readers\<close> counts these visits, and a call that writes the table waits until there is none.
  A null pointer dereferenced is the program point \<open>PeerCrashed\<close>. A queue counts as a peer's as long as the table's entry of
  the peer refers to it: when the entry is deleted the queue is gone, though its cell of the store remains.
\<close>

section \<open>Threads\<close>

datatype peer_thread =
  RequestLook NodeIDPtr BlockSyncMsgImpl
| RequestGroup NodeIDPtr BlockSyncMsgImpl
| RequestInsert NodeIDPtr BlockSyncMsgImpl
| RequestPush PeerStatus BlockSyncMsgImpl
| StatusTest NodeIDPtr BlockSyncMsgImpl
| StatusUpdate NodeIDPtr BlockSyncStatusImpl
| FetchAnswer nat NodeIDPtr BlockNumber "Block answer"
| PruneCollect
| PruneDelete "NodeIDPtr list"
| ConnectNext "NodeIDPtr list"
| ServeEnter "nat \<Rightarrow> nat"
| ServeVisit "NodeID list"
| ServeTest PeerStatus "NodeID list"
| ServeLoop PeerStatus "NodeID list"
| ServeTake PeerStatus "NodeID list"
| PeerDone
| PeerCrashed

record 'sc peer_shared =
  sh_module :: "'sc BlockSync"
  sh_readers :: nat

definition with_module :: "('sc BlockSync \<Rightarrow> 'sc BlockSync) \<Rightarrow> 'sc peer_shared \<Rightarrow> 'sc peer_shared" where
  "with_module f sh = sh\<lparr>sh_module := f (sh_module sh)\<rparr>"

definition with_peers :: "(SyncPeerStatus \<Rightarrow> SyncPeerStatus) \<Rightarrow> 'sc BlockSync \<Rightarrow> 'sc BlockSync" where
  "with_peers f s = s\<lparr>m_syncStatus := f (m_syncStatus s)\<rparr>"

text \<open>\<^verbatim>\<open>onPeerBlocksRequest\<close>.\<close>

fun request_step ::
  "'sc Framework \<Rightarrow> peer_thread \<Rightarrow> 'sc peer_shared \<Rightarrow> (peer_thread \<times> 'sc peer_shared) option" where
  "request_step F (RequestLook nodeID syncMsg) sh =
     (let blockRequest = createRequestOfMsg syncMsg
      in Some (case peerStatus nodeID (m_syncStatus (sh_module sh)) of
                 None \<Rightarrow> RequestGroup nodeID blockRequest
               | Some p \<Rightarrow> RequestPush p blockRequest, sh))"
| "request_step F (RequestGroup nodeID blockRequest) sh =
     Some (if fw_existsInGroup F (cfg_sync (sh_module sh)) nodeID then RequestInsert nodeID blockRequest else PeerDone, sh)"
| "request_step F (RequestInsert nodeID blockRequest) sh =
     (if 0 < sh_readers sh then None
      else let (p, st) = insertEmptyPeer nodeID (m_syncStatus (sh_module sh))
           in Some (RequestPush p blockRequest, with_module (with_peers (\<lambda>_. st)) sh))"
| "request_step F (RequestPush p blockRequest) sh =
     Some (PeerDone, with_module (\<lambda>s. with_peers (push_at (m_config s) (ps_downloadRequests p)
       (msg_number blockRequest) (request_size blockRequest)) s) sh)"
| "request_step F _ _ = None"

text \<open>\<^verbatim>\<open>onPeerStatus\<close>, and the callback of \<^verbatim>\<open>fetchAndSendBlock\<close>.\<close>

fun packet_step ::
  "'sc Framework \<Rightarrow> peer_thread \<Rightarrow> 'sc peer_shared \<Rightarrow> (peer_thread \<times> 'sc peer_shared) option" where
  "packet_step F (StatusTest nodeID syncMsg) sh =
     (let s = sh_module sh
      in Some (if \<not> fw_existsInGroup F (cfg_sync s) nodeID \<and> msg_number syncMsg \<le> c_blockNumber (m_config s) then PeerDone
               else StatusUpdate nodeID (createStatusOfMsg syncMsg), sh))"
| "packet_step F (StatusUpdate nodeID status) sh =
     (if 0 < sh_readers sh then None
      else let (_, cfg', st') = updatePeerStatus nodeID status (m_config (sh_module sh)) (m_syncStatus (sh_module sh))
           in Some (PeerDone, with_module (\<lambda>s. s\<lparr>m_config := cfg', m_syncStatus := st'\<rparr>) sh))"
| "packet_step F (FetchAnswer a peer number ans) sh = Some (PeerDone, with_module (onBlockData F a peer number ans) sh)"
| "packet_step F _ _ = None"

text \<open>\<^verbatim>\<open>maintainPeersConnection\<close>: the visit that collects the peers to delete is one step, as is a turn of each loop.\<close>

fun connection_step ::
  "'sc Framework \<Rightarrow> peer_thread \<Rightarrow> 'sc peer_shared \<Rightarrow> (peer_thread \<times> 'sc peer_shared) option" where
  "connection_step F PruneCollect sh =
     (let s = sh_module sh
      in Some (if \<not> fw_selfInGroup F (cfg_sync s) then PeerDone
               else PruneDelete (foreachPeer (peerToDelete F (m_config s)) (m_syncStatus s) []), sh))"
| "connection_step F (PruneDelete []) sh = Some (ConnectNext (fw_groupNodeList F (cfg_sync (sh_module sh))), sh)"
| "connection_step F (PruneDelete (peer # peersToDelete)) sh =
     (if 0 < sh_readers sh then None
      else Some (PruneDelete peersToDelete, with_module (with_peers (deletePeer peer)) sh))"
| "connection_step F (ConnectNext []) sh = Some (PeerDone, sh)"
| "connection_step F (ConnectNext (node # nodes)) sh =
     (let sc = cfg_sync (sh_module sh)
      in if np_data node \<noteq> np_data (fw_nodeID F sc) \<and> fw_connected F sc node \<and> 0 < sh_readers sh then None
         else Some (ConnectNext nodes, with_module (connectNode F node) sh))"
| "connection_step F _ _ = None"

text \<open>
  \<^verbatim>\<open>maintainBlockRequest\<close>: the shuffled visit, and for each peer the loop that takes requests from its queue.
  The calls on the ledger for a request touch neither table nor queues and belong to the step that takes it.
\<close>

fun serve_step :: "peer_thread \<Rightarrow> 'sc peer_shared \<Rightarrow> (peer_thread \<times> 'sc peer_shared) option" where
  "serve_step (ServeEnter rnd) sh =
     (let nodeIds = map fst (m_peersStatus (m_syncStatus (sh_module sh)))
      in Some (ServeVisit (shuffle rnd (length nodeIds - 1) nodeIds), sh\<lparr>sh_readers := Suc (sh_readers sh)\<rparr>))"
| "serve_step (ServeVisit []) sh = Some (PeerDone, sh\<lparr>sh_readers := sh_readers sh - 1\<rparr>)"
| "serve_step (ServeVisit (k # ks)) sh =
     Some (case map_of (m_peersStatus (m_syncStatus (sh_module sh))) k of None \<Rightarrow> ServeVisit ks | Some p \<Rightarrow> ServeTest p ks, sh)"
| "serve_step (ServeTest p ks) sh =
     Some (if drq_empty (queueOf (m_syncStatus (sh_module sh)) p) then ServeVisit ks else ServeLoop p ks, sh)"
| "serve_step (ServeLoop p ks) sh =
     Some (if drq_empty (queueOf (m_syncStatus (sh_module sh)) p) then ServeVisit ks else ServeTake p ks, sh)"
| "serve_step (ServeTake p ks) sh =
     (let (taken, q) = topAndPop (queueOf (m_syncStatus (sh_module sh)) p);
          sh1 = with_module (with_peers (\<lambda>st. st\<lparr>req_store := (req_store st)[ps_downloadRequests p := q]\<rparr>)) sh
      in case taken of
           None \<Rightarrow> Some (PeerCrashed, sh1)
         | Some blocksReq \<Rightarrow>
             Some (ServeLoop p ks, with_module (respond (ps_downloadRequests p) (ps_nodeId p) blocksReq) sh1))"
| "serve_step _ _ = None"

fun peer_step ::
  "'sc Framework \<Rightarrow> peer_thread \<Rightarrow> 'sc peer_shared \<Rightarrow> (peer_thread \<times> 'sc peer_shared) option" where
  "peer_step F (RequestLook nodeID m) sh = request_step F (RequestLook nodeID m) sh"
| "peer_step F (RequestGroup nodeID m) sh = request_step F (RequestGroup nodeID m) sh"
| "peer_step F (RequestInsert nodeID m) sh = request_step F (RequestInsert nodeID m) sh"
| "peer_step F (RequestPush p m) sh = request_step F (RequestPush p m) sh"
| "peer_step F (StatusTest nodeID m) sh = packet_step F (StatusTest nodeID m) sh"
| "peer_step F (StatusUpdate nodeID m) sh = packet_step F (StatusUpdate nodeID m) sh"
| "peer_step F (FetchAnswer a nodeID n ans) sh = packet_step F (FetchAnswer a nodeID n ans) sh"
| "peer_step F PruneCollect sh = connection_step F PruneCollect sh"
| "peer_step F (PruneDelete ps) sh = connection_step F (PruneDelete ps) sh"
| "peer_step F (ConnectNext ns) sh = connection_step F (ConnectNext ns) sh"
| "peer_step F t sh = serve_step t sh"

lemma with_module_simps [simp]:
  "sh_module (with_module f sh) = f (sh_module sh)" "sh_readers (with_module f sh) = sh_readers sh"
  "with_module f (with_module g sh) = with_module (\<lambda>s. f (g s)) sh"
  by (simp_all add: with_module_def)

lemma with_peers_simps [simp]:
  "m_syncStatus (with_peers f s) = f (m_syncStatus s)" "m_config (with_peers f s) = m_config s" "calls (with_peers f s) = calls s"
  by (simp_all add: with_peers_def)

section \<open>Threads that run alone\<close>

text \<open>Run without interruption the threads compute what the sequential definitions say.\<close>

lemma alone_PeerDone [simp]: "alone (peer_step F) PeerDone sh PeerDone sh' \<longleftrightarrow> sh' = sh"
proof
  assume "alone (peer_step F) PeerDone sh PeerDone sh'"
  then obtain n where "run (interleave (peer_step F)) ([PeerDone], sh) (replicate n 0) ([PeerDone], sh')"
    by (auto simp: alone_def)
  then show "sh' = sh" by (cases n) (auto elim!: run_NilE run_ConsE interleaveE)
qed (simp add: alone_refl)

abbreviation free :: "'sc BlockSync \<Rightarrow> 'sc peer_shared" where
  "free s \<equiv> \<lparr>sh_module = s, sh_readers = 0\<rparr>"

lemma request_alone:
  "alone (peer_step F) (RequestLook nodeID msg) (free s) PeerDone (free (onPeerBlocksRequest F nodeID msg s))"
  by (simp add: alone_step onPeerBlocksRequest_def with_module_def with_peers_def case_prod_unfold Let_def split: option.split)

lemma status_alone: "alone (peer_step F) (StatusTest nodeID msg) (free s) PeerDone (free (onPeerStatus F nodeID msg s))"
  by (simp add: alone_step onPeerStatus_def with_module_def case_prod_unfold Let_def)

lemma delete_alone:
  "alone (peer_step F) (PruneDelete ps) (free s) PeerDone sh' \<longleftrightarrow>
   alone (peer_step F) (ConnectNext (fw_groupNodeList F (cfg_sync s))) (free (with_peers (fold deletePeer ps) s)) PeerDone sh'"
  by (induction ps arbitrary: s) (simp_all add: alone_step [of "PruneDelete _"] with_module_def with_peers_def)

lemma connect_alone: "alone (peer_step F) (ConnectNext ns) (free s) PeerDone (free (fold (connectNode F) ns s))"
  by (induction ns arbitrary: s) (simp_all add: alone_step with_module_def)

lemma connections_alone: "alone (peer_step F) PruneCollect (free s) PeerDone (free (maintainPeersConnection F s))"
  by (simp add: alone_step [of PruneCollect] delete_alone maintainPeersConnection_def Let_def with_peers_def connect_alone)

text \<open>The loop over one queue, the peer's part of the visit, and the visit.\<close>

abbreviation readers1 :: "'sc BlockSync \<Rightarrow> 'sc peer_shared" where
  "readers1 s \<equiv> \<lparr>sh_module = s, sh_readers = Suc 0\<rparr>"

definition store_queue :: "nat \<Rightarrow> DownloadRequestQueue \<Rightarrow> 'sc BlockSync \<Rightarrow> 'sc BlockSync" where
  "store_queue a q = with_peers (\<lambda>st. st\<lparr>req_store := (req_store st)[a := q]\<rparr>)"

lemma store_queue_own: "q = req_store (m_syncStatus s) ! a \<Longrightarrow> store_queue a q s = s"
  by (cases s; cases "m_syncStatus s") (simp add: store_queue_def with_peers_def)

lemma store_queue_respond: "store_queue a q (respond b peer r s) = respond b peer r (store_queue a q s)"
  by (simp add: store_queue_def with_peers_def respond_eq)

lemma store_queue_twice: "store_queue a q (store_queue a q' s) = store_queue a q s"
  by (simp add: store_queue_def with_peers_def)

lemma serveRequests_store_queue:
  "serveRequests a peer q (store_queue b x s) = map_prod id (store_queue b x) (serveRequests a peer q s)"
proof (induction a peer q s rule: serveRequests.induct)
  case (1 a peer q s)
  then show ?case
    by (simp add: serveRequests.simps [of a peer q] store_queue_respond [symmetric] split: option.split)
qed

lemma servePeer_store_queue:
  "snd (servePeer p s) = store_queue (ps_downloadRequests p) []
     (snd (serveRequests (ps_downloadRequests p) (ps_nodeId p) (queueOf (m_syncStatus s) p) s))"
proof (cases "queueOf (m_syncStatus s) p = []")
  case True
  then show ?thesis
    using store_queue_own [of "[]" s "ps_downloadRequests p"]
    by (simp add: servePeer_def drq_empty_def queueOf_def serveRequests.simps)
next
  case False
  moreover obtain s' where "serveRequests (ps_downloadRequests p) (ps_nodeId p) (queueOf (m_syncStatus s) p) s = ([], s')"
    using serveRequests_general by blast
  ultimately show ?thesis
    by (simp add: servePeer_def drq_empty_def queueOf_def store_queue_def with_peers_def)
qed

lemma servePeer_take:
  assumes "ps_downloadRequests p < length (req_store (m_syncStatus s))" "topAndPop (queueOf (m_syncStatus s) p) = (Some r, q)"
  shows "servePeer p (respond (ps_downloadRequests p) (ps_nodeId p) r (store_queue (ps_downloadRequests p) q s)) = servePeer p s"
    (is "servePeer p ?s = _")
proof -
  have "queueOf (m_syncStatus ?s) p = q" using assms(1) by (simp add: queueOf_def respond_eq store_queue_def)
  then have "snd (servePeer p ?s) = snd (servePeer p s)"
    using assms(2) unfolding servePeer_store_queue
    by (simp add: serveRequests.simps [of _ _ "queueOf (m_syncStatus s) p"] store_queue_respond [symmetric]
        serveRequests_store_queue store_queue_twice)
  moreover have "fst (servePeer p s) = fst (servePeer p ?s)" by (simp add: servePeer_def Let_def case_prod_unfold)
  ultimately show ?thesis by (simp add: prod_eq_iff)
qed

lemma serve_loop_alone:
  assumes "ps_downloadRequests p < length (req_store (m_syncStatus s))"
  shows "alone (peer_step F) (ServeLoop p ks) (readers1 s) PeerDone sh' \<longleftrightarrow>
    alone (peer_step F) (ServeVisit ks) (readers1 (snd (servePeer p s))) PeerDone sh'"
  using assms
proof (induction "length (queueOf (m_syncStatus s) p)" arbitrary: s rule: less_induct)
  case less
  let ?a = "ps_downloadRequests p" and ?q = "queueOf (m_syncStatus s) p"
  show ?case
  proof (cases ?q rule: topAndPop_cases)
    case empty
    then show ?thesis by (simp add: alone_step [of "ServeLoop p ks"] drq_empty_def servePeer_def queueOf_def)
  next
    case (merged r q')
    let ?s = "respond ?a (ps_nodeId p) r (store_queue ?a q' s)"
    have "alone (peer_step F) (ServeLoop p ks) (readers1 s) PeerDone sh' = alone (peer_step F) (ServeTake p ks) (readers1 s) PeerDone sh'"
      using merged(1) by (subst alone_step) (simp_all add: drq_empty_def)
    also have "\<dots> = alone (peer_step F) (ServeLoop p ks) (readers1 ?s) PeerDone sh'"
      using merged(2) by (subst alone_step) (simp_all add: with_module_def store_queue_def)
    also have "\<dots> = alone (peer_step F) (ServeVisit ks) (readers1 (snd (servePeer p ?s))) PeerDone sh'"
      using merged(3) less.prems by (intro less.hyps) (simp_all add: queueOf_def respond_eq store_queue_def)
    finally show ?thesis by (simp add: servePeer_take [OF less.prems merged(2)])
  qed
qed

lemma servePeer_frame:
  "m_peersStatus (m_syncStatus (snd (servePeer p s))) = m_peersStatus (m_syncStatus s)"
  "length (req_store (m_syncStatus (snd (servePeer p s)))) = length (req_store (m_syncStatus s))"
  unfolding servePeer_store_queue
  using serveRequests_general [of "ps_downloadRequests p" "ps_nodeId p" "queueOf (m_syncStatus s) p" s]
  by (auto simp: store_queue_def)

lemma visit_alone:
  assumes "\<And>k p. map_of (m_peersStatus (m_syncStatus s)) k = Some p \<Longrightarrow> ps_downloadRequests p < length (req_store (m_syncStatus s))"
  shows "alone (peer_step F) (ServeVisit ks) (readers1 s) PeerDone (free (visitKeys servePeer (m_peersStatus (m_syncStatus s)) ks s))"
  using assms
proof (induction ks arbitrary: s)
  case Nil
  then show ?case by (subst alone_step) simp_all
next
  case (Cons k ks)
  show ?case
  proof (cases "map_of (m_peersStatus (m_syncStatus s)) k")
    case None
    then show ?thesis using Cons by (subst alone_step) simp_all
  next
    case (Some p)
    let ?s = "snd (servePeer p s)"
    have p: "fst (servePeer p s)" by (simp add: servePeer_def Let_def case_prod_unfold)
    have "alone (peer_step F) (ServeVisit ks) (readers1 ?s) PeerDone (free (visitKeys servePeer (m_peersStatus (m_syncStatus ?s)) ks ?s))"
      using Cons.prems by (intro Cons.IH) (simp add: servePeer_frame)
    moreover have "alone (peer_step F) (ServeVisit (k # ks)) (readers1 s) PeerDone sh' =
        alone (peer_step F) (ServeTest p ks) (readers1 s) PeerDone sh'" for sh'
      using Some by (subst alone_step) simp_all
    moreover have "alone (peer_step F) (ServeTest p ks) (readers1 s) PeerDone sh' =
        alone (peer_step F) (ServeVisit ks) (readers1 ?s) PeerDone sh'" for sh'
      using serve_loop_alone [OF Cons.prems [OF Some]]
      by (subst alone_step) (auto simp: drq_empty_def servePeer_def queueOf_def)
    moreover have "visitKeys servePeer (m_peersStatus (m_syncStatus s)) (k # ks) s = visitKeys servePeer (m_peersStatus (m_syncStatus s)) ks ?s"
      using Some p by (simp add: case_prod_unfold)
    ultimately show ?thesis by (simp only: servePeer_frame)
  qed
qed

lemma serve_alone:
  assumes "bs_wf s"
  shows "alone (peer_step F) (ServeEnter rnd) (free s) PeerDone (free (maintainBlockRequest rnd s))"
proof -
  have "alone (peer_step F) (ServeVisit ks) (readers1 s) PeerDone
      (free (visitKeys servePeer (m_peersStatus (m_syncStatus s)) ks s))" for ks
    using assms by (intro visit_alone) (auto simp: bs_wf_def peers_wf_def peer_ok_def)
  from this [of "[]"] this show ?thesis
    by (subst alone_step) (auto simp: maintainBlockRequest_def foreachPeerRandom_def Let_def)
qed

section \<open>What the threads keep\<close>

text \<open>
  Assertions for the program points: what is pushed is a proper range, a visitor has a status with a queue
  in the store, and what it has seen non-empty is non-empty when it takes from it, since no other thread takes requests out.
\<close>

definition request_ok :: "BlockSyncMsgImpl \<Rightarrow> bool" where
  "request_ok msg \<longleftrightarrow> req_ok \<lparr>fromNumber = msg_number msg, req_size = request_size msg\<rparr>"

definition queues_ok :: "'sc BlockSync \<Rightarrow> bool" where
  "queues_ok s \<longleftrightarrow> bs_wf s \<and> requests_ok (m_syncStatus s)"

definition in_store :: "PeerStatus \<Rightarrow> 'sc BlockSync \<Rightarrow> bool" where
  "in_store p s \<longleftrightarrow> ps_downloadRequests p < length (req_store (m_syncStatus s))"

text \<open>The entry that refers to the queue of a visited status is of the same node.\<close>

definition same_node :: "PeerStatus \<Rightarrow> 'sc BlockSync \<Rightarrow> bool" where
  "same_node p s \<longleftrightarrow> (\<forall>k p'. map_of (m_peersStatus (m_syncStatus s)) k = Some p' \<longrightarrow>
     ps_downloadRequests p' = ps_downloadRequests p \<longrightarrow> ps_nodeId p' = ps_nodeId p)"

fun at_point :: "peer_thread \<Rightarrow> 'sc peer_shared \<Rightarrow> bool" where
  "at_point (RequestLook _ msg) sh = request_ok msg"
| "at_point (RequestGroup _ msg) sh = request_ok msg"
| "at_point (RequestInsert _ msg) sh = request_ok msg"
| "at_point (RequestPush _ msg) sh = request_ok msg"
| "at_point (FetchAnswer _ _ n _) sh = height n"
| "at_point (ServeTest p _) sh = (in_store p (sh_module sh) \<and> same_node p (sh_module sh))"
| "at_point (ServeLoop p _) sh = (in_store p (sh_module sh) \<and> same_node p (sh_module sh))"
| "at_point (ServeTake p _) sh =
     (in_store p (sh_module sh) \<and> same_node p (sh_module sh) \<and> queueOf (m_syncStatus (sh_module sh)) p \<noteq> [])"
| "at_point PeerCrashed sh = False"
| "at_point _ sh = True"

fun serving :: "peer_thread \<Rightarrow> bool" where
  "serving (ServeEnter _) = True"
| "serving (ServeVisit _) = True"
| "serving (ServeTest _ _) = True"
| "serving (ServeLoop _ _) = True"
| "serving (ServeTake _ _) = True"
| "serving _ = False"

definition exclusive :: "peer_thread \<Rightarrow> peer_thread \<Rightarrow> bool" where
  "exclusive t u \<longleftrightarrow> \<not> (serving t \<and> serving u)"

text \<open>
  One queue watched: \<open>a\<close> is its address and \<open>Q\<close> describes the nodes whose status may refer to it. Queues are only added, no
  new status refers to \<open>a\<close>, and a number leaves \<open>a\<close> only with a call on the ledger on behalf of a node in \<open>Q\<close>. The numbers
  \<open>N\<close> are those followed, from the moment when \<open>c\<close> calls had been made, and \<open>X\<close> the calls made before.
\<close>

definition may_serve :: "nat \<Rightarrow> (NodeIDPtr \<Rightarrow> bool) \<Rightarrow> PeerStatus \<Rightarrow> bool" where
  "may_serve a Q p \<longleftrightarrow> ps_downloadRequests p = a \<longrightarrow> Q (ps_nodeId p)"

fun serves_only :: "nat \<Rightarrow> (NodeIDPtr \<Rightarrow> bool) \<Rightarrow> peer_thread \<Rightarrow> bool" where
  "serves_only a Q (ServeTest p _) = may_serve a Q p"
| "serves_only a Q (ServeLoop p _) = may_serve a Q p"
| "serves_only a Q (ServeTake p _) = may_serve a Q p"
| "serves_only a Q _ = True"

definition fetched_for :: "nat \<Rightarrow> (NodeIDPtr \<Rightarrow> bool) \<Rightarrow> call list \<Rightarrow> BlockNumber set" where
  "fetched_for a Q cs = {n. \<exists>peer. Q peer \<and> GetBlockData a peer n \<in> set cs}"

definition watched ::
  "nat \<Rightarrow> (NodeIDPtr \<Rightarrow> bool) \<Rightarrow> BlockNumber set \<Rightarrow> (NodeIDPtr \<times> BlockNumber) set \<Rightarrow> nat \<Rightarrow> 'sc BlockSync \<Rightarrow> bool" where
  "watched a Q N X c s \<longleftrightarrow> a < length (req_store (m_syncStatus s)) \<and> c \<le> length (calls s) \<and>
     (\<forall>k p. map_of (m_peersStatus (m_syncStatus s)) k = Some p \<longrightarrow> may_serve a Q p) \<and>
     N \<subseteq> covered (req_store (m_syncStatus s) ! a) \<union> fetched_for a Q (drop c (calls s)) \<and>
     (\<forall>peer n. GetBlockData a peer n \<in> set (calls s) \<longrightarrow> Q peer \<or> (peer, n) \<in> X)"

definition new_calls :: "'sc BlockSync \<Rightarrow> 'sc BlockSync \<Rightarrow> call list" where
  "new_calls s s' = drop (length (calls s)) (calls s')"

definition keeps :: "nat \<Rightarrow> (NodeIDPtr \<Rightarrow> bool) \<Rightarrow> 'sc BlockSync \<Rightarrow> 'sc BlockSync \<Rightarrow> bool" where
  "keeps a Q s s' \<longleftrightarrow> queues_ok s' \<and> length (req_store (m_syncStatus s)) \<le> length (req_store (m_syncStatus s')) \<and>
     (a < length (req_store (m_syncStatus s)) \<longrightarrow>
       (\<forall>k p. map_of (m_peersStatus (m_syncStatus s')) k = Some p \<longrightarrow> ps_downloadRequests p = a \<longrightarrow>
          (\<exists>p'. map_of (m_peersStatus (m_syncStatus s)) k = Some p' \<and> ps_downloadRequests p' = a \<and> ps_nodeId p' = ps_nodeId p)) \<and>
       covered (req_store (m_syncStatus s) ! a) \<subseteq> covered (req_store (m_syncStatus s') ! a) \<union> fetched_for a Q (new_calls s s')) \<and>
     calls s' = calls s @ new_calls s s'"

lemma new_calls_eq: "calls s' = calls s @ cs \<Longrightarrow> new_calls s s' = cs"
  by (simp add: new_calls_def)

lemma new_calls_same [simp]: "calls s' = calls s \<Longrightarrow> new_calls s s' = []"
  by (simp add: new_calls_def)

lemma fetched_for_append: "fetched_for a Q (cs @ ds) = fetched_for a Q cs \<union> fetched_for a Q ds"
  by (auto simp: fetched_for_def)

lemma keeps_refl: "queues_ok s \<Longrightarrow> keeps a Q s s"
  by (simp add: keeps_def)

lemma covered_push: "covered q \<subseteq> covered (drq_push cfg f sz q)"
  by (auto simp: drq_push_def covered_def)

lemma keeps_push:
  assumes "queues_ok s" "req_ok \<lparr>fromNumber = f, req_size = sz\<rparr>"
  shows "keeps a Q s (with_peers (push_at (m_config s) b f sz) s)"
proof -
  have "requests_ok (push_at (m_config s) b f sz (m_syncStatus s))"
    using assms
    by (cases "b < length (req_store (m_syncStatus s))")
      (auto simp: queues_ok_def requests_ok_def push_at_def drq_push_def list_update_beyond split: if_splits
        dest!: set_update_subset_insert [THEN subsetD] nth_mem)
  moreover have "bs_wf (with_peers (push_at (m_config s) b f sz) s)"
    using assms(1) by (auto simp: queues_ok_def bs_wf_def with_peers_def)
  moreover have "covered (req_store (m_syncStatus s) ! a) \<subseteq> covered (req_store (push_at (m_config s) b f sz (m_syncStatus s)) ! a)"
    by (cases "b < length (req_store (m_syncStatus s))")
      (auto simp: push_at_def nth_list_update list_update_beyond intro: subsetD [OF covered_push])
  ultimately show ?thesis
    by (auto simp: keeps_def queues_ok_def push_at_def)
qed

lemma keeps_table:
  assumes "queues_ok s" "bs_wf s'" "calls s' = calls s @ cs"
    and "req_store (m_syncStatus s') = req_store (m_syncStatus s) @ qs" "\<forall>q \<in> set qs. q = []"
    and "\<And>k p. map_of (m_peersStatus (m_syncStatus s')) k = Some p \<Longrightarrow> ps_downloadRequests p \<ge> length (req_store (m_syncStatus s)) \<or>
      (\<exists>p'. map_of (m_peersStatus (m_syncStatus s)) k = Some p' \<and> ps_downloadRequests p' = ps_downloadRequests p \<and> ps_nodeId p' = ps_nodeId p)"
  shows "keeps a Q s s'"
  using assms new_calls_eq [OF assms(3)] unfolding keeps_def queues_ok_def
  by (auto simp: requests_ok_def nth_append) (metis leD)

lemma keeps_insert:
  assumes "queues_ok s"
  shows "keeps a Q s (with_peers (\<lambda>_. snd (insertEmptyPeer peer (m_syncStatus s))) s)"
proof (rule keeps_table [where cs = "[]" and qs = "[[]]"])
  show "bs_wf (with_peers (\<lambda>_. snd (insertEmptyPeer peer (m_syncStatus s))) s)"
    using assms(1) bs_wf_known [of s] peers_wf_insertEmptyPeer [of "m_config s" "m_syncStatus s" peer]
    by (simp add: queues_ok_def bs_wf_def with_peers_def)
qed (use assms peers_wfD(1) [of "m_config s" "m_syncStatus s"] in
    \<open>auto simp: queues_ok_def bs_wf_def insertEmptyPeer_def newEmptyPeerStatus_def newPeerStatus_def split: if_splits\<close>)

lemma updatePeerStatus_table:
  assumes "updatePeerStatus peer status cfg st = (ok, cfg', st')" "map_sorted (m_peersStatus st)"
  shows "\<exists>qs. req_store st' = req_store st @ qs \<and> (\<forall>q \<in> set qs. q = [])"
    "map_of (m_peersStatus st') k = Some p \<Longrightarrow> ps_downloadRequests p \<ge> length (req_store st) \<or>
      (\<exists>p'. map_of (m_peersStatus st) k = Some p' \<and> ps_downloadRequests p' = ps_downloadRequests p \<and> ps_nodeId p' = ps_nodeId p)"
  using assms peer_update_fields [of status]
  by (fastforce simp: updatePeerStatus_def peerStatusOf_def newPeerStatus_def Let_def
      split: if_splits option.splits prod.splits)+

lemma keeps_update:
  assumes "queues_ok s"
    and upd: "updatePeerStatus peer status (m_config s) (m_syncStatus s) = (ok, cfg', st')"
    and s': "m_syncStatus s' = st'" "bs_wf s'" "calls s' = calls s @ cs"
  shows "keeps a Q s s'"
proof -
  have sorted: "map_sorted (m_peersStatus (m_syncStatus s))" using assms(1) by (simp add: queues_ok_def bs_wf_def peers_wf_def)
  obtain qs where "req_store st' = req_store (m_syncStatus s) @ qs" "\<forall>q \<in> set qs. q = []"
    using updatePeerStatus_table(1) [OF upd sorted] by blast
  then show ?thesis
    using assms(1) s' updatePeerStatus_table(2) [OF upd sorted] by (intro keeps_table) simp_all
qed

lemma keeps_delete:
  assumes "queues_ok s"
  shows "keeps a Q s (with_peers (deletePeer peer) s)"
proof (rule keeps_table [where cs = "[]" and qs = "[]"])
  show "bs_wf (with_peers (deletePeer peer) s)"
    using assms(1) by (auto simp: queues_ok_def bs_wf_def with_peers_def)
qed (use assms in \<open>auto simp: deletePeer_def split: option.splits if_splits\<close>)

lemma keeps_connect:
  assumes "queues_ok s"
  shows "keeps a Q s (connectNode F nd' s)"
proof -
  obtain ok cfg' st' where upd: "updatePeerStatus (fw_nodeID F (cfg_sync s)) (currentStatus (m_config s))
      (m_config s) (m_syncStatus s) = (ok, cfg', st')" by (metis prod_cases3)
  have wf: "bs_wf (connectNode F nd' s)" using assms(1) bs_safe_wf [OF bs_safe_connectNode] by (auto simp: queues_ok_def)
  show ?thesis
  proof (cases "connectNode F nd' s = s")
    case False
    then show ?thesis
      using upd by (intro keeps_update [OF assms upd _ wf]) (auto simp: connectNode_def Let_def emit_def split: if_splits)
  qed (simp add: keeps_refl assms)
qed

lemma keeps_take:
  assumes ok: "queues_ok s" and p: "in_store p s" "may_serve a Q p" and top: "topAndPop (queueOf (m_syncStatus s) p) = (Some r, q)"
  shows "keeps a Q s (respond (ps_downloadRequests p) (ps_nodeId p) r (store_queue (ps_downloadRequests p) q s))"
proof -
  let ?b = "ps_downloadRequests p" and ?q = "queueOf (m_syncStatus s) p"
  have b: "?b < length (req_store (m_syncStatus s))" "?b = a \<longrightarrow> Q (ps_nodeId p)" using p by (simp_all add: may_serve_def in_store_def)
  then have q_in: "?q \<in> set (req_store (m_syncStatus s))" by (simp add: queueOf_def)
  then have heap: "queue_ok (m_config s) ?q" "\<forall>r \<in> set ?q. req_ok r"
    using ok by (auto simp: queues_ok_def bs_wf_def peers_wf_def requests_ok_def)
  moreover have "?q \<noteq> []" using top by auto
  ultimately have spec: "req_ok r" "req_heap q" "mset q \<subseteq># mset ?q" "length q < length ?q" "covered ?q = req_range r \<union> covered q"
    using topAndPop_spec [of ?q] top by (auto simp: queue_ok_def)
  have "set q \<subseteq> set ?q" using spec(3) by (metis set_mset_mono set_mset_mset)
  then have "requests_ok ((m_syncStatus s)\<lparr>req_store := (req_store (m_syncStatus s))[?b := q]\<rparr>)"
    using ok heap(2) by (auto simp: queues_ok_def requests_ok_def dest!: set_update_subset_insert [THEN subsetD])
  moreover have "peers_wf (m_config s) ((m_syncStatus s)\<lparr>req_store := (req_store (m_syncStatus s))[?b := q]\<rparr>)"
    using ok heap(1) spec(2,4)
    by (auto simp: queues_ok_def bs_wf_def peers_wf_def peer_ok_def own_queues_def queue_ok_def
        dest!: set_update_subset_insert [THEN subsetD])
  ultimately have "queues_ok (respond ?b (ps_nodeId p) r (store_queue ?b q s))"
    using ok by (simp add: queues_ok_def bs_wf_def respond_eq store_queue_def with_peers_def)
  moreover have "covered (req_store (m_syncStatus s) ! a) \<subseteq> covered ((req_store (m_syncStatus s))[?b := q] ! a) \<union>
      fetched_for a Q (new_calls s (respond ?b (ps_nodeId p) r (store_queue ?b q s)))"
    using b spec(5)
    by (cases "?b = a") (auto simp: fetched_for_def new_calls_def store_queue_def respond_ok [OF spec(1)] queueOf_def req_range_def image_iff)
  ultimately show ?thesis by (auto simp: keeps_def new_calls_def respond_eq store_queue_def)
qed

lemma keeps_answer:
  assumes "queues_ok s" "height n"
  shows "keeps a Q s (onBlockData F b peer n ans s)"
proof (cases ans)
  case (Inl e)
  have "req_ok \<lparr>fromNumber = n, req_size = 1\<rparr>" using assms(2) by (simp add: req_ok_def height_def)
  then have "keeps a Q s (with_peers (push_at (m_config s) b n 1) s)" by (rule keeps_push [OF assms(1)])
  then show ?thesis by (simp add: Inl onBlockData_def with_peers_def)
next
  case (Inr block)
  then show ?thesis
    using assms(1) bs_safe_wf [OF bs_safe_onBlockData, of s F b peer n ans]
    by (auto simp: keeps_def new_calls_def queues_ok_def onBlockData_def emit_def Let_def)
qed

lemma request_ok_created: "request_ok (requestOfMsg msg) = request_ok msg"
  by (simp add: request_ok_def request_size_def requestOfMsg_def requestOfPB_def msg_number_def)

lemma step_keeps:
  assumes "queues_ok (sh_module sh)" "at_point t sh" "serves_only a Q t" "peer_step F t sh = Some (t', sh')"
  shows "keeps a Q (sh_module sh) (sh_module sh')"
proof (cases "sh_module sh' = sh_module sh")
  case False
  then show ?thesis
  proof (cases t)
    case (StatusUpdate peer status)
    obtain ok cfg' st' where upd: "updatePeerStatus peer status (m_config (sh_module sh)) (m_syncStatus (sh_module sh)) = (ok, cfg', st')"
      by (metis prod_cases3)
    have "bs_wf (sh_module sh')"
      using assms(1,4) StatusUpdate upd bs_safe_wf [OF bs_safe_updatePeerStatus [OF upd]]
      by (auto simp: queues_ok_def split: if_splits)
    then show ?thesis
      using assms(4) StatusUpdate upd by (intro keeps_update [OF assms(1) upd, of _ "[]"]) (auto split: if_splits)
  next
    case (ServeTake p ks)
    then show ?thesis
      using assms(2-4) keeps_take [OF assms(1)]
      by (cases "queueOf (m_syncStatus (sh_module sh)) p" rule: topAndPop_cases) (auto simp: store_queue_def)
  next
    case (PruneDelete ps)
    then show ?thesis using assms(4) False keeps_delete [OF assms(1)] by (cases ps) (auto split: if_splits)
  next
    case (ConnectNext ns)
    then show ?thesis
      using assms(4) False keeps_connect [OF assms(1)] by (cases ns) (auto simp: Let_def split: if_splits)
  next
    case (ServeVisit ks)
    then show ?thesis using assms(4) False by (cases ks) auto
  qed (use assms(2,4) keeps_push [OF assms(1)] keeps_insert [OF assms(1)] keeps_answer [OF assms(1)] in
      \<open>auto simp: Let_def request_ok_def case_prod_unfold split: if_splits\<close>)
qed (simp add: keeps_refl assms)

text \<open>Only a thread that serves empties a queue.\<close>

lemma step_nonempty:
  fixes sh :: "'sc peer_shared"
  assumes "peer_step F t sh = Some (t', sh')" "\<not> serving t" "map_sorted (m_peersStatus (m_syncStatus (sh_module sh)))"
    and "b < length (req_store (m_syncStatus (sh_module sh)))" "req_store (m_syncStatus (sh_module sh)) ! b \<noteq> []"
  shows "req_store (m_syncStatus (sh_module sh')) ! b \<noteq> []"
proof -
  have push: "req_store (push_at cfg c f sz (m_syncStatus (sh_module sh))) ! b \<noteq> []" for cfg :: "'sc BlockSyncConfig" and c f sz
  proof -
    have "drq_push cfg f sz q \<noteq> []" if "q \<noteq> []" for q
      using that by (auto simp: drq_push_def dest: arg_cong [where f = length])
    then show ?thesis using assms(4,5) by (cases "c = b") (simp_all add: push_at_def)
  qed
  have upd: "req_store st' ! b \<noteq> []"
    if "updatePeerStatus peer status cfg (m_syncStatus (sh_module sh)) = (ok, cfg', st')"
    for peer status and cfg :: "'sc BlockSyncConfig" and ok cfg' st'
    using updatePeerStatus_table(1) [OF that assms(3)] assms(4,5) by (auto simp: nth_append)
  show ?thesis
  proof (cases t)
    case (PruneDelete ps)
    then show ?thesis using assms(1,5) by (cases ps) (auto simp: deletePeer_def split: if_splits option.splits)
  next
    case (ConnectNext ns)
    then show ?thesis
      using assms(1,5) by (cases ns) (auto simp: connectNode_def Let_def emit_def split: if_splits prod.splits dest: upd)
  next
    case (StatusUpdate peer status)
    then show ?thesis using assms(1,5) by (auto split: if_splits prod.splits dest: upd)
  qed (use assms push in
      \<open>auto simp: Let_def onBlockData_def insertEmptyPeer_def newEmptyPeerStatus_def newPeerStatus_def nth_append emit_def
        split: if_splits sum.splits\<close>)
qed

lemma step_point:
  assumes G: "queues_ok (sh_module sh)" and A: "at_point t sh" and step: "peer_step F t sh = Some (t', sh')"
  shows "at_point t' sh'"
proof (cases t)
  case (ServeVisit ks)
  have "in_store p (sh_module sh) \<and> same_node p (sh_module sh)" if "map_of (m_peersStatus (m_syncStatus (sh_module sh))) k = Some p" for k p
    using G that
    by (auto simp: in_store_def same_node_def queues_ok_def bs_wf_def peers_wf_def peer_ok_def own_queues_def) (metis option.inject)
  then show ?thesis using step ServeVisit by (cases ks) (auto split: option.split)
next
  case (ServeTake p ks)
  then show ?thesis
    using step A
    by (cases "queueOf (m_syncStatus (sh_module sh)) p" rule: topAndPop_cases) (auto simp: in_store_def same_node_def respond_eq)
next
  case (PruneDelete ps)
  then show ?thesis using step by (cases ps) (auto split: if_splits)
next
  case (ConnectNext ns)
  then show ?thesis using step by (cases ns) (auto simp: Let_def split: if_splits)
qed (use step A in \<open>auto simp: Let_def request_ok_created drq_empty_def split: if_splits option.splits prod.splits\<close>)

lemma step_serving: "peer_step F t sh = Some (t', sh') \<Longrightarrow> serving t' \<Longrightarrow> serving t"
proof (cases t)
  case (PruneDelete ps)
  then show "peer_step F t sh = Some (t', sh') \<Longrightarrow> serving t' \<Longrightarrow> serving t" by (cases ps) (auto split: if_splits)
next
  case (ConnectNext ns)
  then show "peer_step F t sh = Some (t', sh') \<Longrightarrow> serving t' \<Longrightarrow> serving t" by (cases ns) (auto simp: Let_def split: if_splits)
qed (auto simp: Let_def split: if_splits option.splits prod.splits)

lemma point_stable:
  assumes G: "queues_ok (sh_module sh)" and A: "at_point t sh" "at_point u sh" and C: "exclusive t u"
    and step: "peer_step F t sh = Some (t', sh')"
  shows "at_point u sh'"
proof -
  have keep: "keeps a (\<lambda>_. True) (sh_module sh) (sh_module sh')" for a
    by (rule step_keeps [OF G A(1) _ step]) (cases t; simp add: may_serve_def)
  have "in_store p (sh_module sh')" if "in_store p (sh_module sh)" for p
    using that keep [of 0] by (auto simp: in_store_def keeps_def)
  moreover have "same_node p (sh_module sh')" if "in_store p (sh_module sh)" "same_node p (sh_module sh)" for p
    using that keep [of "ps_downloadRequests p"] unfolding in_store_def same_node_def keeps_def by metis
  moreover have "queueOf (m_syncStatus (sh_module sh')) p \<noteq> []"
    if "\<not> serving t" "in_store p (sh_module sh)" "queueOf (m_syncStatus (sh_module sh)) p \<noteq> []" for p
    using step_nonempty [OF step that(1)] that(2,3) G
    by (simp add: in_store_def queueOf_def queues_ok_def bs_wf_def peers_wf_def)
  ultimately show ?thesis using A(2) C by (cases u) (auto simp: exclusive_def)
qed

interpretation pt: asserted_program "peer_step F" "\<lambda>sh. queues_ok (sh_module sh)" at_point exclusive
proof
  fix t t' :: peer_thread and sh sh' :: "'a peer_shared"
  assume G: "queues_ok (sh_module sh)" and A: "at_point t sh" and step: "peer_step F t sh = Some (t', sh')"
  have "keeps 0 (\<lambda>_. True) (sh_module sh) (sh_module sh')"
    by (rule step_keeps [OF G A _ step]) (cases t; simp add: may_serve_def)
  then show "queues_ok (sh_module sh') \<and> at_point t' sh'" using step_point [OF G A step] by (simp add: keeps_def)
qed (auto simp: exclusive_def dest: step_serving intro: point_stable [unfolded exclusive_def])

lemma no_crash: "pt.annotated (ts, sh) \<Longrightarrow> PeerCrashed \<notin> set ts"
  unfolding pt.annotated_def by auto

lemma annotated_ok: "pt.annotated (ts, sh) \<Longrightarrow> queues_ok (sh_module sh)"
  unfolding pt.annotated_def by simp

section \<open>One queue watched\<close>

lemma step_fetches:
  assumes "peer_step F t sh = Some (t', sh')" "serves_only a Q t" "GetBlockData a peer n \<in> set (calls (sh_module sh'))"
  shows "Q peer \<or> GetBlockData a peer n \<in> set (calls (sh_module sh))"
proof (cases t)
  case (ServeTake p ks)
  then show ?thesis
    using assms
    by (cases "queueOf (m_syncStatus (sh_module sh)) p" rule: topAndPop_cases) (auto simp: respond_eq may_serve_def)
next
  case (ServeVisit ks)
  then show ?thesis using assms by (cases ks) auto
next
  case (PruneDelete ps)
  then show ?thesis using assms by (cases ps) (auto split: if_splits)
next
  case (ConnectNext ns)
  then show ?thesis
    using assms by (cases ns) (auto simp: connectNode_def Let_def emit_def split: if_splits prod.splits)
qed (use assms in \<open>auto simp: Let_def onBlockData_def emit_def split: if_splits prod.splits sum.splits\<close>)

lemma step_serves_only:
  assumes "watched a Q N X c (sh_module sh)" "serves_only a Q t" "peer_step F t sh = Some (t', sh')"
  shows "serves_only a Q t'"
proof (cases t)
  case (ServeTake p ks)
  then show ?thesis
    using assms
    by (cases "queueOf (m_syncStatus (sh_module sh)) p" rule: topAndPop_cases) auto
next
  case (ServeVisit ks)
  then show ?thesis using assms by (cases ks) (auto simp: watched_def split: option.split)
next
  case (PruneDelete ps)
  then show ?thesis using assms by (cases ps) (auto split: if_splits)
next
  case (ConnectNext ns)
  then show ?thesis using assms by (cases ns) (auto simp: Let_def split: if_splits)
qed (use assms in \<open>auto simp: Let_def split: if_splits prod.splits option.splits\<close>)

lemma step_watched:
  assumes "queues_ok (sh_module sh)" "watched a Q N X c (sh_module sh)" "at_point t sh" "serves_only a Q t"
    and "peer_step F t sh = Some (t', sh')"
  shows "watched a Q N X c (sh_module sh')"
proof -
  have k: "keeps a Q (sh_module sh) (sh_module sh')" by (rule step_keeps [OF assms(1,3-5)])
  have a: "a < length (req_store (m_syncStatus (sh_module sh)))" using assms(2) by (simp add: watched_def)
  have "calls (sh_module sh') = calls (sh_module sh) @ new_calls (sh_module sh) (sh_module sh')" using k by (simp add: keeps_def)
  then have "drop c (calls (sh_module sh')) = drop c (calls (sh_module sh)) @ new_calls (sh_module sh) (sh_module sh')"
    "c \<le> length (calls (sh_module sh'))"
    using assms(2) by (simp_all add: watched_def)
  moreover from this have "N \<subseteq> covered (req_store (m_syncStatus (sh_module sh')) ! a) \<union> fetched_for a Q (drop c (calls (sh_module sh')))"
    using assms(2) k a unfolding watched_def keeps_def by (simp add: fetched_for_append) blast
  moreover have "may_serve a Q p" if "map_of (m_peersStatus (m_syncStatus (sh_module sh'))) key = Some p" for key p
    using assms(2) k a that unfolding watched_def keeps_def may_serve_def by metis
  moreover have "Q peer \<or> (peer, n) \<in> X" if "GetBlockData a peer n \<in> set (calls (sh_module sh'))" for peer n
    using assms(2) step_fetches [OF assms(5,4) that] by (auto simp: watched_def)
  ultimately show ?thesis using k a by (auto simp: watched_def keeps_def)
qed

interpretation wt: asserted_program "peer_step F" "\<lambda>sh. queues_ok (sh_module sh) \<and> watched a Q N X c (sh_module sh)"
  "\<lambda>t sh. at_point t sh \<and> serves_only a Q t" exclusive
proof
  fix t t' u :: peer_thread and sh sh' :: "'a peer_shared"
  assume G: "queues_ok (sh_module sh) \<and> watched a Q N X c (sh_module sh)" and A: "at_point t sh \<and> serves_only a Q t"
    and step: "peer_step F t sh = Some (t', sh')"
  then show "(queues_ok (sh_module sh') \<and> watched a Q N X c (sh_module sh')) \<and> (at_point t' sh' \<and> serves_only a Q t')"
    using pt.own [OF _ _ step] step_watched [OF _ _ _ _ step] step_serves_only [OF _ _ step] by blast
  assume "at_point u sh \<and> serves_only a Q u" "exclusive t u"
  then show "at_point u sh' \<and> serves_only a Q u" using G A point_stable [OF _ _ _ _ step] by blast
qed (auto simp: exclusive_def dest: step_serving)

section \<open>Termination\<close>

text \<open>
  A thread adds to the table at most one entry per request, status and node it connects to; a request it queues costs the serving thread
  up to three steps. \<open>l\<close> is the number of nodes of the group.
\<close>

fun peer_grows :: "nat \<Rightarrow> peer_thread \<Rightarrow> nat" where
  "peer_grows l (RequestLook _ _) = 1" | "peer_grows l (RequestGroup _ _) = 1" | "peer_grows l (RequestInsert _ _) = 1"
| "peer_grows l (StatusTest _ _) = 1" | "peer_grows l (StatusUpdate _ _) = 1"
| "peer_grows l PruneCollect = l" | "peer_grows l (PruneDelete _) = l" | "peer_grows l (ConnectNext ns) = length ns"
| "peer_grows l _ = 0"

fun peer_rank :: "nat \<Rightarrow> nat \<Rightarrow> peer_thread \<Rightarrow> nat" where
  "peer_rank l n (RequestLook _ _) = 7" | "peer_rank l n (RequestGroup _ _) = 6" | "peer_rank l n (RequestInsert _ _) = 5"
| "peer_rank l n (RequestPush _ _) = 4" | "peer_rank l n (StatusTest _ _) = 2" | "peer_rank l n (StatusUpdate _ _) = 1"
| "peer_rank l n (FetchAnswer _ _ _ _) = 4" | "peer_rank l n PruneCollect = n + l + 3"
| "peer_rank l n (PruneDelete ps) = length ps + l + 2" | "peer_rank l n (ConnectNext ns) = length ns + 1"
| "peer_rank l n (ServeEnter _) = 4 * n + 2" | "peer_rank l n (ServeVisit ks) = 4 * length ks + 1"
| "peer_rank l n (ServeTest _ ks) = 4 * length ks + 4" | "peer_rank l n (ServeLoop _ ks) = 4 * length ks + 3"
| "peer_rank l n (ServeTake _ ks) = 4 * length ks + 2" | "peer_rank l n PeerDone = 0" | "peer_rank l n PeerCrashed = 0"

definition peer_count :: "'sc peer_shared \<Rightarrow> nat" where
  "peer_count sh = length (m_peersStatus (m_syncStatus (sh_module sh)))"

definition queued :: "SyncPeerStatus \<Rightarrow> nat" where
  "queued st = sum_list (map length (req_store st))"

definition group_size :: "'sc Framework \<Rightarrow> nat \<Rightarrow> 'sc peer_shared \<Rightarrow> bool" where
  "group_size F l sh \<longleftrightarrow> length (fw_groupNodeList F (cfg_sync (sh_module sh))) = l"

lemma length_map_insert: "length (map_insert k v m) \<le> Suc (length m)"
  by (induction m) auto

lemma length_map_modify [simp]: "length (map_modify k f m) = length m"
  by (simp add: map_modify_def)

lemma length_map_erase: "length (map_erase k m) \<le> length m"
  by (simp add: map_erase_def)

lemma length_shuffle [simp]: "length (shuffle rnd i xs) = length xs"
  by (induction i arbitrary: xs) (simp_all add: Let_def)

lemma length_peerToDelete: "length (visit (peerToDelete F cfg) ps xs) \<le> length xs + length ps"
proof (induction ps arbitrary: xs)
  case (Cons p ps)
  show ?case using Cons [of xs] Cons [of "xs @ [ps_nodeId p]"] by (simp add: peerToDelete_def)
qed simp

lemma queued_update: "a < length qs \<Longrightarrow> sum_list (map length (qs[a := q])) + length (qs ! a) = sum_list (map length qs) + length q"
  by (induction qs arbitrary: a) (auto split: nat.split)

lemma queued_push: "queued (push_at cfg a f sz st) \<le> Suc (queued st)"
proof (cases "a < length (req_store st)")
  case True
  have "length (drq_push cfg f sz q) \<le> Suc (length q)" for q by (simp add: drq_push_def)
  from this [of "req_store st ! a"] show ?thesis
    using queued_update [OF True, of "drq_push cfg f sz (req_store st ! a)"] by (simp add: queued_def push_at_def)
qed (simp add: queued_def push_at_def list_update_beyond)

lemma updatePeerStatus_size:
  assumes "updatePeerStatus peer status cfg st = (ok, cfg', st')"
  shows "queued st' = queued st" "length (m_peersStatus st') \<le> Suc (length (m_peersStatus st))" "c_sync cfg' = c_sync cfg"
  using assms length_map_insert
  by (auto simp: updatePeerStatus_def peerStatusOf_def newPeerStatus_def queued_def updateKnownMaxBlockInfo_def config_defs Let_def
      split: if_splits option.splits prod.splits)

lemma connectNode_size:
  "queued (m_syncStatus (connectNode F nd s)) = queued (m_syncStatus s)"
  "length (m_peersStatus (m_syncStatus (connectNode F nd s))) \<le> Suc (length (m_peersStatus (m_syncStatus s)))"
  "cfg_sync (connectNode F nd s) = cfg_sync s"
  by (auto simp: connectNode_def Let_def emit_def split: prod.split dest: updatePeerStatus_size)

lemma deletePeer_size:
  "queued (deletePeer peer st) = queued st" "length (m_peersStatus (deletePeer peer st)) \<le> length (m_peersStatus st)"
  using length_map_erase by (auto simp: deletePeer_def queued_def split: option.split)

lemma insertEmptyPeer_size:
  "queued (snd (insertEmptyPeer peer st)) = queued st"
  "length (m_peersStatus (snd (insertEmptyPeer peer st))) \<le> Suc (length (m_peersStatus st))"
  by (simp_all add: insertEmptyPeer_def newEmptyPeerStatus_def newPeerStatus_def queued_def length_map_insert)

lemma onBlockData_size:
  "queued (m_syncStatus (onBlockData F a peer n ans s)) \<le> Suc (queued (m_syncStatus s))"
  "m_peersStatus (m_syncStatus (onBlockData F a peer n ans s)) = m_peersStatus (m_syncStatus s)"
  "cfg_sync (onBlockData F a peer n ans s) = cfg_sync s"
  using queued_push by (auto simp: onBlockData_def emit_def push_at_def Let_def split: sum.split)

lemma take_size:
  assumes "topAndPop (queueOf st p) = (Some r, q)" "ps_downloadRequests p < length (req_store st)"
  shows "queued (st\<lparr>req_store := (req_store st)[ps_downloadRequests p := q]\<rparr>) < queued st"
  using queued_update [OF assms(2), of q] length_topAndPop [OF assms(1)] by (simp add: queued_def queueOf_def)

lemmas size_lemmas = connectNode_size deletePeer_size insertEmptyPeer_size onBlockData_size

lemma step_group:
  assumes "peer_step F t sh = Some (t', sh')"
  shows "cfg_sync (sh_module sh') = cfg_sync (sh_module sh)"
proof (cases t)
  case (ServeTake p ks)
  then show ?thesis using assms
    by (cases "queueOf (m_syncStatus (sh_module sh)) p" rule: topAndPop_cases) (auto simp: respond_eq)
next
  case (ServeVisit ks)
  then show ?thesis using assms by (cases ks) auto
next
  case (PruneDelete ps)
  then show ?thesis using assms by (cases ps) (auto split: if_splits)
next
  case (ConnectNext ns)
  then show ?thesis using assms by (cases ns) (auto simp: Let_def size_lemmas split: if_splits)
qed (use assms in \<open>auto simp: Let_def size_lemmas split: if_splits prod.splits dest: updatePeerStatus_size\<close>)

lemma step_growth:
  assumes "group_size F l sh" "peer_step F t sh = Some (t', sh')"
  shows "peer_count sh' + peer_grows l t' \<le> peer_count sh + peer_grows l t"
proof (cases t)
  case (ServeTake p ks)
  then show ?thesis using assms
    by (cases "queueOf (m_syncStatus (sh_module sh)) p" rule: topAndPop_cases) (auto simp: respond_eq peer_count_def)
next
  case (ServeVisit ks)
  then show ?thesis using assms by (cases ks) (auto simp: peer_count_def split: option.split)
next
  case (PruneDelete ps)
  then show ?thesis using assms by (cases ps) (auto simp: peer_count_def size_lemmas group_size_def split: if_splits)
next
  case (ConnectNext ns)
  then show ?thesis using assms connectNode_size(2) [of F "hd ns" "sh_module sh"]
    by (cases ns) (auto simp: peer_count_def Let_def split: if_splits)
next
  case (RequestInsert nd msg)
  then show ?thesis using assms insertEmptyPeer_size(2) [of nd "m_syncStatus (sh_module sh)"]
    by (auto simp: peer_count_def split: if_splits prod.splits)
qed (use assms in \<open>auto simp: Let_def peer_count_def push_at_def size_lemmas split: if_splits prod.splits option.splits dest: updatePeerStatus_size\<close>)

lemma step_spends:
  assumes "group_size F l sh" "at_point t sh" "peer_step F t sh = Some (t', sh')" "peer_count sh + peer_grows l t \<le> n"
  shows "peer_rank l n t' + 3 * queued (m_syncStatus (sh_module sh')) < peer_rank l n t + 3 * queued (m_syncStatus (sh_module sh))"
proof (cases t)
  case (ServeTake p ks)
  then show ?thesis using assms take_size [of "m_syncStatus (sh_module sh)" p]
    by (cases "queueOf (m_syncStatus (sh_module sh)) p" rule: topAndPop_cases) (auto simp: respond_eq in_store_def)
next
  case (ServeVisit ks)
  then show ?thesis using assms by (cases ks) (auto split: option.split)
next
  case (PruneDelete ps)
  then show ?thesis using assms by (cases ps) (auto simp: size_lemmas group_size_def split: if_splits)
next
  case (ConnectNext ns)
  then show ?thesis using assms by (cases ns) (auto simp: Let_def size_lemmas split: if_splits)
next
  case (RequestPush p msg)
  then show ?thesis
    using assms queued_push [of "m_config (sh_module sh)" "ps_downloadRequests p" "msg_number msg" "request_size msg" "m_syncStatus (sh_module sh)"]
    by auto
next
  case (FetchAnswer a peer k ans)
  then show ?thesis using assms onBlockData_size(1) [of F a peer k ans "sh_module sh"] by auto
next
  case PruneCollect
  then show ?thesis
    using assms length_peerToDelete [of F "m_config (sh_module sh)" "map snd (m_peersStatus (m_syncStatus (sh_module sh)))" "[]"]
    by (auto simp: Let_def peer_count_def foreachPeer_def)
next
  case (RequestInsert nd msg)
  then show ?thesis using assms insertEmptyPeer_size(1) [of nd "m_syncStatus (sh_module sh)"] by (auto split: if_splits prod.splits)
qed (use assms in \<open>auto simp: Let_def peer_count_def split: if_splits prod.splits option.splits dest: updatePeerStatus_size\<close>)

interpretation bt: budgeted_program "peer_step F" "\<lambda>sh. queues_ok (sh_module sh) \<and> group_size F l sh" at_point
  exclusive "peer_grows l" peer_count "peer_rank l" "\<lambda>sh. 3 * queued (m_syncStatus (sh_module sh))"
proof
  fix t t' :: peer_thread and sh sh' :: "'a peer_shared"
  assume G: "queues_ok (sh_module sh) \<and> group_size F l sh" and A: "at_point t sh" and step: "peer_step F t sh = Some (t', sh')"
  have "queues_ok (sh_module sh') \<and> at_point t' sh'" using G by (intro pt.own [OF _ A step]) simp
  then show "(queues_ok (sh_module sh') \<and> group_size F l sh') \<and> at_point t' sh'"
    using G by (simp add: group_size_def step_group [OF step])
qed (auto simp: exclusive_def dest: step_serving intro: point_stable [unfolded exclusive_def] step_growth step_spends)

text \<open>The read lock is free as soon as no visit is on its way, so a thread that waits for it is not the last one.\<close>

fun visiting :: "peer_thread \<Rightarrow> bool" where
  "visiting (ServeVisit _) = True"
| "visiting (ServeTest _ _) = True"
| "visiting (ServeLoop _ _) = True"
| "visiting (ServeTake _ _) = True"
| "visiting _ = False"

abbreviation visits :: "peer_thread list \<Rightarrow> nat" where
  "visits ts \<equiv> sum_list (map (\<lambda>t. of_bool (visiting t)) ts)"

lemma step_readers:
  assumes "at_point t sh" "peer_step F t sh = Some (t', sh')" "visiting t \<longrightarrow> 0 < sh_readers sh"
  shows "sh_readers sh' + of_bool (visiting t) = sh_readers sh + of_bool (visiting t')"
proof (cases t)
  case (ServeTake p ks)
  then show ?thesis using assms by (cases "queueOf (m_syncStatus (sh_module sh)) p" rule: topAndPop_cases) auto
next
  case (ServeVisit ks)
  then show ?thesis using assms by (cases ks) (auto split: option.split)
next
  case (PruneDelete ps)
  then show ?thesis using assms by (cases ps) (auto split: if_splits)
next
  case (ConnectNext ns)
  then show ?thesis using assms by (cases ns) (auto simp: Let_def split: if_splits)
qed (use assms in \<open>auto simp: Let_def split: if_splits prod.splits option.splits\<close>)

lemma run_readers:
  "run (interleave (peer_step F)) st is st' \<Longrightarrow> pt.annotated st \<Longrightarrow> sh_readers (snd st) = visits (fst st) \<Longrightarrow>
   sh_readers (snd st') = visits (fst st')"
proof (induction rule: run.induct)
  case (run_Cons st i st1 "is" st2)
  obtain ts sh where st: "st = (ts, sh)" by (cases st)
  with run_Cons.hyps(1) obtain t sh' where t: "i < length ts" "peer_step F (ts ! i) sh = Some (t, sh')" "st1 = (ts[i := t], sh')"
    by (auto elim: interleaveE)
  have "at_point (ts ! i) sh" using run_Cons.prems(1) t(1) by (simp add: pt.annotated_def st)
  moreover have "of_bool (visiting (ts ! i)) \<le> visits ts" using t(1) by (intro member_le_sum_list) auto
  then have "visiting (ts ! i) \<longrightarrow> 0 < sh_readers sh" using run_Cons.prems(2) by (auto simp: st)
  ultimately have "sh_readers sh' + of_bool (visiting (ts ! i)) = sh_readers sh + of_bool (visiting t)"
    by (intro step_readers [OF _ t(2)])
  then have "sh_readers (snd st1) = visits (fst st1)"
    using sum_list_update_nat [OF t(1), of "\<lambda>t. of_bool (visiting t)" t] run_Cons.prems(2) by (simp add: st t(3))
  then show ?case using run_Cons pt.annotated_step by blast
qed simp

lemma step_waits:
  assumes "peer_step F t sh = None" "sh_readers sh = 0"
  shows "t = PeerDone \<or> t = PeerCrashed"
proof (cases t)
  case (ServeVisit ks)
  then show ?thesis using assms by (cases ks) auto
next
  case (PruneDelete ps)
  then show ?thesis using assms by (cases ps) auto
next
  case (ConnectNext ns)
  then show ?thesis using assms by (cases ns) (auto simp: Let_def)
qed (use assms in \<open>auto simp: Let_def split: prod.splits option.splits\<close>)

lemma visiting_runs: "visiting t \<Longrightarrow> peer_step F t sh \<noteq> None"
proof (cases t)
  case (ServeVisit ks)
  then show "visiting t \<Longrightarrow> peer_step F t sh \<noteq> None" by (cases ks) auto
qed (auto simp: Let_def split: prod.splits option.splits)

section \<open>Entries that stay\<close>

text \<open>
  The maintenance of the connections deletes only nodes that are not connected or not of the group. \<open>L\<close> lists entries of other
  nodes, each with its key, the address of its queue and its node; they stay in the table and keep their queues.
\<close>

definition member_key :: "'sc Framework \<Rightarrow> 'sc \<Rightarrow> NodeID \<Rightarrow> bool" where
  "member_key F sc k \<longleftrightarrow> (\<forall>nd. np_data nd = k \<longrightarrow> fw_connected F sc nd \<and> fw_existsInGroup F sc nd)"

definition has_entry :: "NodeID \<Rightarrow> nat \<Rightarrow> NodeIDPtr \<Rightarrow> SyncPeerStatus \<Rightarrow> bool" where
  "has_entry k a nd st \<longleftrightarrow> (\<exists>p. map_of (m_peersStatus st) k = Some p \<and> ps_downloadRequests p = a \<and> ps_nodeId p = nd)"

definition listed :: "'sc Framework \<Rightarrow> 'sc \<Rightarrow> (NodeID \<times> nat \<times> NodeIDPtr) set \<Rightarrow> 'sc BlockSync \<Rightarrow> bool" where
  "listed F sc L s \<longleftrightarrow> cfg_sync s = sc \<and> (\<forall>(k, a, nd) \<in> L. member_key F sc k \<and> has_entry k a nd (m_syncStatus s))"

fun deletes_outsiders :: "'sc Framework \<Rightarrow> 'sc \<Rightarrow> peer_thread \<Rightarrow> bool" where
  "deletes_outsiders F sc (PruneDelete ns) = (\<forall>nd \<in> set ns. \<not> (fw_connected F sc nd \<and> fw_existsInGroup F sc nd))"
| "deletes_outsiders F sc _ = True"

lemma has_entry_insert:
  "has_entry k a nd st \<Longrightarrow> map_sorted (m_peersStatus st) \<Longrightarrow> has_entry k a nd (snd (insertEmptyPeer peer st))"
  by (auto simp: has_entry_def insertEmptyPeer_def newEmptyPeerStatus_def newPeerStatus_def)

lemma has_entry_update:
  assumes "updatePeerStatus peer status cfg st = (ok, cfg', st')" "map_sorted (m_peersStatus st)" "has_entry k a nd st"
  shows "has_entry k a nd st'"
  using assms peer_update_fields [of status]
  by (fastforce simp: has_entry_def updatePeerStatus_def peerStatusOf_def newPeerStatus_def Let_def
      split: if_splits option.splits prod.splits)

lemma has_entry_delete: "has_entry k a nd st \<Longrightarrow> np_data peer \<noteq> k \<Longrightarrow> has_entry k a nd (deletePeer peer st)"
  by (auto simp: has_entry_def deletePeer_def split: option.split)

lemma step_has_entry:
  assumes "peer_step F t sh = Some (t', sh')" "map_sorted (m_peersStatus (m_syncStatus (sh_module sh)))"
    and "has_entry k a nd (m_syncStatus (sh_module sh))" "\<And>peer ns. t = PruneDelete (peer # ns) \<Longrightarrow> np_data peer \<noteq> k"
  shows "has_entry k a nd (m_syncStatus (sh_module sh'))"
proof (cases t)
  case (ServeTake p ks)
  then show ?thesis using assms(1,3)
    by (cases "queueOf (m_syncStatus (sh_module sh)) p" rule: topAndPop_cases) (auto simp: respond_eq has_entry_def)
next
  case (ServeVisit ks)
  then show ?thesis using assms(1,3) by (cases ks) auto
next
  case (PruneDelete ns)
  then show ?thesis using assms(1,3,4) has_entry_delete by (cases ns) (auto split: if_splits)
next
  case (ConnectNext ns)
  then show ?thesis
    using assms(1-3) by (cases ns) (auto simp: connectNode_def Let_def split: if_splits prod.splits intro: has_entry_update)
next
  case (RequestInsert nodeID msg)
  then show ?thesis using assms(1-3) has_entry_insert [OF assms(3,2), of nodeID] by (auto simp: case_prod_unfold Let_def split: if_splits)
next
  case (StatusUpdate peer status)
  then show ?thesis using assms(1-3) by (auto split: if_splits prod.splits intro: has_entry_update)
qed (use assms(1,3) in \<open>auto simp: Let_def onBlockData_def push_at_def has_entry_def split: if_splits sum.splits\<close>)

lemma set_peerToDelete:
  "set (visit (peerToDelete F cfg) ps ns) \<subseteq>
   set ns \<union> {nd. \<not> (fw_connected F (c_sync cfg) nd \<and> fw_existsInGroup F (c_sync cfg) nd)}"
proof (induction ps arbitrary: ns)
  case (Cons p ps)
  show ?case using Cons.IH [of ns] Cons.IH [of "ns @ [ps_nodeId p]"] by (auto simp: peerToDelete_def)
qed simp

lemma step_deletes_outsiders:
  assumes "peer_step F t sh = Some (t', sh')" "deletes_outsiders F (cfg_sync (sh_module sh)) t"
  shows "deletes_outsiders F (cfg_sync (sh_module sh)) t'"
proof (cases t)
  case PruneCollect
  show ?thesis
    using assms(1) PruneCollect set_peerToDelete [of F "m_config (sh_module sh)" "map snd (m_peersStatus (m_syncStatus (sh_module sh)))" "[]"]
    by (auto simp: foreachPeer_def Let_def split: if_splits)
next
  case (ServeTake p ks)
  then show ?thesis using assms(1)
    by (cases "queueOf (m_syncStatus (sh_module sh)) p" rule: topAndPop_cases) auto
next
  case (ServeVisit ks)
  then show ?thesis using assms(1) by (cases ks) (auto split: option.split)
next
  case (PruneDelete ns)
  then show ?thesis using assms by (cases ns) (auto split: if_splits)
next
  case (ConnectNext ns)
  then show ?thesis using assms(1) by (cases ns) (auto simp: Let_def split: if_splits)
qed (use assms(1) in \<open>auto simp: Let_def split: if_splits prod.splits option.splits\<close>)

lemma step_listed:
  assumes "queues_ok (sh_module sh)" "listed F sc L (sh_module sh)" "deletes_outsiders F sc t" "peer_step F t sh = Some (t', sh')"
  shows "listed F sc L (sh_module sh')"
proof -
  have "has_entry k a nd (m_syncStatus (sh_module sh'))" if "(k, a, nd) \<in> L" for k a nd
    using assms that
    by (intro step_has_entry [OF assms(4)]) (auto simp: listed_def member_key_def queues_ok_def bs_wf_def peers_wf_def)
  then show ?thesis using assms(2) step_group [OF assms(4)] by (auto simp: listed_def)
qed

interpretation lt: asserted_program "peer_step F" "\<lambda>sh. queues_ok (sh_module sh) \<and> listed F sc L (sh_module sh)"
  "\<lambda>t sh. at_point t sh \<and> deletes_outsiders F sc t" exclusive
proof
  fix t t' u :: peer_thread and sh sh' :: "'a peer_shared"
  assume G: "queues_ok (sh_module sh) \<and> listed F sc L (sh_module sh)" and A: "at_point t sh \<and> deletes_outsiders F sc t"
    and step: "peer_step F t sh = Some (t', sh')"
  have "cfg_sync (sh_module sh) = sc" using G by (simp add: listed_def)
  then have "deletes_outsiders F sc t'" using A step_deletes_outsiders [OF step] by simp
  moreover have "listed F sc L (sh_module sh')" using G A by (intro step_listed [OF _ _ _ step]) simp_all
  ultimately show "(queues_ok (sh_module sh') \<and> listed F sc L (sh_module sh')) \<and> (at_point t' sh' \<and> deletes_outsiders F sc t')"
    using G A pt.own [OF _ _ step] by simp
  assume "at_point u sh \<and> deletes_outsiders F sc u" "exclusive t u"
  then show "at_point u sh' \<and> deletes_outsiders F sc u" using G A point_stable [OF _ _ _ _ step] by blast
qed (auto simp: exclusive_def dest: step_serving)

section \<open>Properties\<close>

text \<open>Where the threads start, and a state of the module before them.\<close>

fun peer_entry :: "peer_thread \<Rightarrow> bool" where
  "peer_entry (RequestLook _ msg) = request_ok msg"
| "peer_entry (StatusTest _ _) = True"
| "peer_entry (FetchAnswer _ _ n _) = height n"
| "peer_entry PruneCollect = True"
| "peer_entry (ServeEnter _) = True"
| "peer_entry _ = False"

lemma entry_points:
  assumes "peer_entry t"
  shows "at_point t sh" "serves_only a Q t" "\<not> visiting t" "peer_grows l t \<le> l + 1" "peer_rank l n t \<le> 4 * n + l + 7"
    "deletes_outsiders F sc t"
  using assms by (cases t; simp)+

lemma one_serving:
  assumes "length (filter serving ts) \<le> 1" "i < length ts" "j < length ts" "i \<noteq> j"
  shows "exclusive (ts ! i) (ts ! j)"
proof (unfold exclusive_def, rule notI)
  assume "serving (ts ! i) \<and> serving (ts ! j)"
  then have "{i, j} \<subseteq> {i. i < length ts \<and> serving (ts ! i)}" using assms(2,3) by auto
  then have "card {i, j} \<le> card {i. i < length ts \<and> serving (ts ! i)}" by (intro card_mono) auto
  then show False using assms(1,4) by (simp add: length_filter_conv_card)
qed

lemma start_annotated:
  assumes "queues_ok s" "\<forall>t \<in> set ts. peer_entry t" "length (filter serving ts) \<le> 1"
  shows "pt.annotated (ts, free s)"
    "watched a Q N X c s \<Longrightarrow> wt.annotated a Q N X c (ts, free s)"
    "length (fw_groupNodeList F (cfg_sync s)) = l \<Longrightarrow> bt.annotated F l (ts, free s)"
    "lt.annotated F (cfg_sync s) {} (ts, free s)"
  unfolding pt.annotated_def wt.annotated_def bt.annotated_def lt.annotated_def
  using assms(1,2) one_serving [OF assms(3)] by (auto simp: group_size_def listed_def entry_points)

lemma point_serves_only:
  assumes "at_point t sh" "map_of (m_peersStatus (m_syncStatus (sh_module sh))) k = Some p"
  shows "serves_only (ps_downloadRequests p) (\<lambda>x. x = ps_nodeId p) t"
  using assms by (cases t) (auto simp: may_serve_def same_node_def)

text \<open>An entry of the table in the middle of a run: the watch begins there, and an entry of a member stays.\<close>

lemma entry_annotated:
  assumes mid: "lt.annotated F sc {} (ts, sh)" and p: "map_of (m_peersStatus (m_syncStatus (sh_module sh))) k = Some p"
  shows "wt.annotated (ps_downloadRequests p) (\<lambda>x. x = ps_nodeId p) (covered (queueOf (m_syncStatus (sh_module sh)) p)) UNIV
      (length (calls (sh_module sh))) (ts, sh)"
    "member_key F sc k \<Longrightarrow> lt.annotated F sc {(k, ps_downloadRequests p, ps_nodeId p)} (ts, sh)"
proof -
  have ok: "queues_ok (sh_module sh)" and points: "\<And>t. t \<in> set ts \<Longrightarrow> at_point t sh" and "cfg_sync (sh_module sh) = sc"
    and one: "\<forall>i j. i < length ts \<longrightarrow> j < length ts \<longrightarrow> i \<noteq> j \<longrightarrow> exclusive (ts ! i) (ts ! j)"
    using mid unfolding lt.annotated_def by (auto simp: listed_def)
  have wf: "peers_wf (m_config (sh_module sh)) (m_syncStatus (sh_module sh))" using ok by (simp add: queues_ok_def bs_wf_def)
  have "p' = p" if "map_of (m_peersStatus (m_syncStatus (sh_module sh))) k' = Some p'" "ps_downloadRequests p' = ps_downloadRequests p" for k' p'
    using that p peers_wfD(3) [OF wf] unfolding own_queues_def by (metis option.inject)
  then have "watched (ps_downloadRequests p) (\<lambda>x. x = ps_nodeId p) (covered (queueOf (m_syncStatus (sh_module sh)) p)) UNIV
      (length (calls (sh_module sh))) (sh_module sh)"
    using peers_wfD(2) [OF wf p] by (auto simp: watched_def may_serve_def queueOf_def peer_ok_def)
  then show "wt.annotated (ps_downloadRequests p) (\<lambda>x. x = ps_nodeId p) (covered (queueOf (m_syncStatus (sh_module sh)) p)) UNIV
      (length (calls (sh_module sh))) (ts, sh)"
    using ok points point_serves_only [OF points p] one unfolding wt.annotated_def by auto
  show "lt.annotated F sc {(k, ps_downloadRequests p, ps_nodeId p)} (ts, sh)" if "member_key F sc k"
    using mid p that unfolding lt.annotated_def by (auto simp: listed_def has_entry_def)
qed

lemma entry_kept:
  assumes mid: "lt.annotated F sc {} (ts, sh)" and run: "run (interleave (peer_step F)) (ts, sh) is (ts', sh')"
    and p: "peerStatus peer (m_syncStatus (sh_module sh)) = Some p" and n: "n \<in> covered (queueOf (m_syncStatus (sh_module sh)) p)"
  shows "GetBlockData (ps_downloadRequests p) (ps_nodeId p) n \<in> set (drop (length (calls (sh_module sh))) (calls (sh_module sh'))) \<or>
    (\<exists>p'. peerStatus peer (m_syncStatus (sh_module sh')) = Some p' \<and> ps_downloadRequests p' = ps_downloadRequests p \<and>
       n \<in> covered (queueOf (m_syncStatus (sh_module sh')) p')) \<or>
    \<not> member_key F sc (np_data peer) \<and>
    (\<forall>k p'. map_of (m_peersStatus (m_syncStatus (sh_module sh'))) k = Some p' \<longrightarrow> ps_downloadRequests p' \<noteq> ps_downloadRequests p)"
proof -
  let ?st' = "m_syncStatus (sh_module sh')" and ?a = "ps_downloadRequests p"
  have key: "map_of (m_peersStatus (m_syncStatus (sh_module sh))) (np_data peer) = Some p" using p by (simp add: peerStatus_def)
  note watch = entry_annotated [OF mid key]
  have "np_data (ps_nodeId p) = np_data peer"
    using mid key unfolding lt.annotated_def by (auto simp: queues_ok_def bs_wf_def peers_wf_def peer_ok_def)
  moreover have at_end: "queues_ok (sh_module sh') \<and> watched ?a (\<lambda>x. x = ps_nodeId p)
      (covered (queueOf (m_syncStatus (sh_module sh)) p)) UNIV (length (calls (sh_module sh))) (sh_module sh')"
    using wt.run_annotated [OF run watch(1)] unfolding wt.annotated_def by simp
  moreover have "np_data (ps_nodeId p') = k" if "map_of (m_peersStatus ?st') k = Some p'" for k p'
    using that at_end by (simp add: queues_ok_def bs_wf_def peers_wf_def peer_ok_def)
  ultimately have own: "k = np_data peer" if "map_of (m_peersStatus ?st') k = Some p'" "ps_downloadRequests p' = ?a" for k p'
    using that unfolding watched_def may_serve_def by metis
  have member: "\<exists>p'. peerStatus peer ?st' = Some p' \<and> ps_downloadRequests p' = ?a" if "member_key F sc (np_data peer)"
    using lt.run_annotated [OF run watch(2) [OF that]] unfolding lt.annotated_def by (auto simp: listed_def has_entry_def peerStatus_def)
  have asked: "n \<in> covered (req_store ?st' ! ?a) \<or>
      GetBlockData ?a (ps_nodeId p) n \<in> set (drop (length (calls (sh_module sh))) (calls (sh_module sh')))"
    using at_end n by (auto simp: watched_def fetched_for_def)
  show ?thesis
  proof (cases "\<exists>p'. peerStatus peer ?st' = Some p' \<and> ps_downloadRequests p' = ?a")
    case True
    then obtain p' where p': "peerStatus peer ?st' = Some p'" "ps_downloadRequests p' = ?a" by blast
    then have "queueOf ?st' p' = req_store ?st' ! ?a" by (simp add: queueOf_def)
    with asked p' show ?thesis by auto
  next
    case False
    moreover have "ps_downloadRequests p' \<noteq> ?a" if "map_of (m_peersStatus ?st') k = Some p'" for k p'
      using False own [OF that] that unfolding peerStatus_def by blast
    ultimately show ?thesis using member by blast
  qed
qed

text \<open>
  C13: the threads on the peer table keep the requests. In every interleaving of block requests, status packets, answers of the
  ledger, connection maintenance and at most one run of \<^verbatim>\<open>maintainBlockRequest\<close> (the send pool has one thread), the module
  stays well-formed and no null request is dereferenced. Take any moment of such a run and any block number that is then in the
  queue of a peer of the table, be it from the start or from a request that has arrived meanwhile. However the threads go on, the ledger is
  asked for the block on behalf of that peer after that moment, or the table still has the peer with the same queue and the number
  in it; or the peer has been deleted, and its queue with it, which happens only to a peer that is not connected or not of the group.
\<close>

theorem peer_threads_keep_requests:
  assumes "bs_wf s" and "requests_ok (m_syncStatus s)" and "\<forall>t \<in> set ts. peer_entry t" and "length (filter serving ts) \<le> 1"
    and run: "run (interleave (peer_step F)) (ts, \<lparr>sh_module = s, sh_readers = 0\<rparr>) is (ts1, sh1)"
    and later: "run (interleave (peer_step F)) (ts1, sh1) is' (ts', sh')"
  shows "bs_wf (sh_module sh') \<and> PeerCrashed \<notin> set ts' \<and>
    (\<forall>peer p n. peerStatus peer (m_syncStatus (sh_module sh1)) = Some p \<longrightarrow>
       n \<in> covered (queueOf (m_syncStatus (sh_module sh1)) p) \<longrightarrow>
       GetBlockData (ps_downloadRequests p) (ps_nodeId p) n \<in> set (drop (length (calls (sh_module sh1))) (calls (sh_module sh'))) \<or>
       (\<exists>p'. peerStatus peer (m_syncStatus (sh_module sh')) = Some p' \<and> ps_downloadRequests p' = ps_downloadRequests p \<and>
          n \<in> covered (queueOf (m_syncStatus (sh_module sh')) p')) \<or>
       \<not> (\<forall>nd. np_data nd = np_data peer \<longrightarrow> fw_connected F (c_sync (m_config s)) nd \<and> fw_existsInGroup F (c_sync (m_config s)) nd) \<and>
       (\<forall>k p'. map_of (m_peersStatus (m_syncStatus (sh_module sh'))) k = Some p' \<longrightarrow> ps_downloadRequests p' \<noteq> ps_downloadRequests p))"
proof -
  have "queues_ok s" using assms(1,2) by (simp add: queues_ok_def)
  note start = start_annotated [OF this assms(3,4)]
  have mid: "lt.annotated F (cfg_sync s) {} (ts1, sh1)" by (rule lt.run_annotated [OF run start(4)])
  have "pt.annotated (ts', sh')" by (rule pt.run_annotated [OF later pt.run_annotated [OF run start(1)]])
  from annotated_ok [OF this] no_crash [OF this] show ?thesis
    using entry_kept [OF mid later] unfolding member_key_def queues_ok_def by blast
qed

text \<open>The node of the example serves its peer while the peer asks for more and the worker maintains the connections.\<close>

definition demoPeerThreads :: "peer_thread list" where
  "demoPeerThreads = [RequestLook (demoNode 1) (request_setSize 2 (setNumber 20 newBlockRequest)), PruneCollect, ServeEnter (\<lambda>i. i)]"

definition demoPeerTurns :: "nat list" where
  "demoPeerTurns = [2, 0, 2, 2, 2, 0, 1, 2, 2, 2, 2, 1, 1, 2, 1, 1, 1]"

text \<open>The request for the blocks 20 and 21 has just been queued, while the visit is on its way.\<close>

definition demoPeerMid :: "peer_thread list \<times> DemoSync peer_shared" where
  "demoPeerMid = the (takeTurns (peer_step demoFramework) (take 6 demoPeerTurns) (demoPeerThreads, \<lparr>sh_module = demoServer, sh_readers = 0\<rparr>))"

definition demoPeerEnd :: "peer_thread list \<times> DemoSync peer_shared" where
  "demoPeerEnd = the (takeTurns (peer_step demoFramework) demoPeerTurns (demoPeerThreads, \<lparr>sh_module = demoServer, sh_readers = 0\<rparr>))"

lemma demo_peer_run:
  "run (interleave (peer_step demoFramework)) (demoPeerThreads, \<lparr>sh_module = demoServer, sh_readers = 0\<rparr>) demoPeerTurns
     (fst demoPeerEnd, snd demoPeerEnd)"
proof (rule takeTurns_run)
  have "takeTurns (peer_step demoFramework) demoPeerTurns (demoPeerThreads, \<lparr>sh_module = demoServer, sh_readers = 0\<rparr>) \<noteq> None"
    by code_simp
  then show "takeTurns (peer_step demoFramework) demoPeerTurns (demoPeerThreads, \<lparr>sh_module = demoServer, sh_readers = 0\<rparr>) =
      Some (fst demoPeerEnd, snd demoPeerEnd)" by (auto simp: demoPeerEnd_def)
qed

lemma demo_peer_entries: "\<forall>t \<in> set demoPeerThreads. peer_entry t" "length (filter serving demoPeerThreads) \<le> 1"
proof -
  have "msg_number (request_setSize 2 (setNumber 20 newBlockRequest)) = 20" "request_size (request_setSize 2 (setNumber 20 newBlockRequest)) = 2"
    by code_simp+
  then show "\<forall>t \<in> set demoPeerThreads. peer_entry t" by (simp add: demoPeerThreads_def request_ok_def req_ok_def)
qed (simp add: demoPeerThreads_def)

lemma demo_peer_halves:
  "run (interleave (peer_step demoFramework)) (demoPeerThreads, \<lparr>sh_module = demoServer, sh_readers = 0\<rparr>) (take 6 demoPeerTurns)
     (fst demoPeerMid, snd demoPeerMid)"
  "run (interleave (peer_step demoFramework)) (fst demoPeerMid, snd demoPeerMid) (drop 6 demoPeerTurns) (fst demoPeerEnd, snd demoPeerEnd)"
proof -
  let ?start = "(demoPeerThreads, \<lparr>sh_module = demoServer, sh_readers = 0\<rparr>)"
  have "takeTurns (peer_step demoFramework) demoPeerTurns ?start \<noteq> None" by code_simp
  then have "takeTurns (peer_step demoFramework) (take 6 demoPeerTurns @ drop 6 demoPeerTurns) ?start = Some demoPeerEnd"
    by (auto simp: demoPeerEnd_def)
  then have "takeTurns (peer_step demoFramework) (take 6 demoPeerTurns) ?start = Some demoPeerMid"
    "takeTurns (peer_step demoFramework) (drop 6 demoPeerTurns) demoPeerMid = Some demoPeerEnd"
    unfolding takeTurns_append by (auto simp: demoPeerMid_def bind_eq_Some_conv)
  then show "run (interleave (peer_step demoFramework)) ?start (take 6 demoPeerTurns) (fst demoPeerMid, snd demoPeerMid)"
    "run (interleave (peer_step demoFramework)) (fst demoPeerMid, snd demoPeerMid) (drop 6 demoPeerTurns) (fst demoPeerEnd, snd demoPeerEnd)"
    using takeTurns_run by (metis prod.collapse)+
qed

lemma demo_peer_mid:
  "\<exists>p. peerStatus (demoNode 1) (m_syncStatus (sh_module (snd demoPeerMid))) = Some p \<and> ps_downloadRequests p = 0 \<and>
     ps_nodeId p = demoNode 1 \<and> \<lparr>fromNumber = 20, req_size = 2\<rparr> \<in> set (queueOf (m_syncStatus (sh_module (snd demoPeerMid))) p)"
  by (rule exI [of _ "the (peerStatus (demoNode 1) (m_syncStatus (sh_module (snd demoPeerMid))))"], intro conjI; code_simp)

lemma demo_peer_end:
  "\<exists>p. peerStatus (demoNode 1) (m_syncStatus (sh_module (snd demoPeerEnd))) = Some p \<and>
     queueOf (m_syncStatus (sh_module (snd demoPeerEnd))) p = []"
  by (rule exI [of _ "the (peerStatus (demoNode 1) (m_syncStatus (sh_module (snd demoPeerEnd))))"], intro conjI; code_simp)

lemma demo_peer_member:
  "np_data nd = np_data (demoNode 1) \<Longrightarrow> fw_connected demoFramework (c_sync (m_config demoServer)) nd \<and>
     fw_existsInGroup demoFramework (c_sync (m_config demoServer)) nd"
proof -
  assume "np_data nd = np_data (demoNode 1)"
  then have "fw_connected demoFramework sc nd = fw_connected demoFramework sc (demoNode 1)"
    "fw_existsInGroup demoFramework sc nd = fw_existsInGroup demoFramework sc (demoNode 1)" for sc
    by (simp_all add: demoFramework_def in_keys_def)
  moreover have "fw_connected demoFramework (c_sync (m_config demoServer)) (demoNode 1)"
    "fw_existsInGroup demoFramework (c_sync (m_config demoServer)) (demoNode 1)" by code_simp+
  ultimately show ?thesis by simp
qed

theorem peer_threads_keep_requests_witness:
  "bs_wf (sh_module (snd demoPeerEnd)) \<and> PeerCrashed \<notin> set (fst demoPeerEnd) \<and>
    GetBlockData 0 (demoNode 1) 21 \<in> set (drop (length (calls (sh_module (snd demoPeerMid)))) (calls (sh_module (snd demoPeerEnd))))"
proof -
  note keep = peer_threads_keep_requests [OF bs_wf_demoServer requests_ok_demoServer demo_peer_entries demo_peer_halves]
  obtain p where p: "peerStatus (demoNode 1) (m_syncStatus (sh_module (snd demoPeerMid))) = Some p" "ps_downloadRequests p = 0"
    "ps_nodeId p = demoNode 1" "\<lparr>fromNumber = 20, req_size = 2\<rparr> \<in> set (queueOf (m_syncStatus (sh_module (snd demoPeerMid))) p)"
    using demo_peer_mid by blast
  have "21 \<in> req_range \<lparr>fromNumber = 20, req_size = 2\<rparr>" by (simp add: req_range_def)
  then have "21 \<in> covered (queueOf (m_syncStatus (sh_module (snd demoPeerMid))) p)" using p(4) by (auto simp: covered_def)
  moreover have "21 \<notin> covered (queueOf (m_syncStatus (sh_module (snd demoPeerEnd))) p')"
    if "peerStatus (demoNode 1) (m_syncStatus (sh_module (snd demoPeerEnd))) = Some p'" for p'
    using that demo_peer_end by (auto simp: covered_def)
  ultimately show ?thesis using keep p(1-3) demo_peer_member by metis
qed

text \<open>
  C14: the threads end, even though requests arrive while others are served. Every interleaving of \<open>k\<close> threads has a bounded
  number of steps, and one that cannot go on has ended all of them: none waits for the lock of the table for ever.
\<close>

theorem peer_threads_terminate:
  assumes "bs_wf s" and "requests_ok (m_syncStatus s)" and "\<forall>t \<in> set ts. peer_entry t" and "length (filter serving ts) \<le> 1"
    and run: "run (interleave (peer_step F)) (ts, \<lparr>sh_module = s, sh_readers = 0\<rparr>) is (ts', sh')"
    and l: "l = length (fw_groupNodeList F (c_sync (m_config s)))"
    and n: "n = length (m_peersStatus (m_syncStatus s)) + length ts * (l + 1)"
  shows "length is \<le> length ts * (4 * n + l + 7) + 3 * sum_list (map length (req_store (m_syncStatus s))) \<and>
    ((\<nexists>i st. interleave (peer_step F) (ts', sh') i st) \<longrightarrow> (\<forall>t \<in> set ts'. t = PeerDone))"
proof -
  have ok: "queues_ok s" using assms(1,2) by (simp add: queues_ok_def)
  note start = start_annotated [OF this assms(3,4)]
  have ends: "pt.annotated (ts', sh')" by (rule pt.run_annotated [OF run start(1)])
  have "sum_list (map (peer_grows l) ts) \<le> sum_list (map (\<lambda>_. l + 1) ts)"
    using assms(3) by (intro sum_list_mono) (blast intro: entry_points)
  then have size: "peer_count (free s) + sum_list (map (peer_grows l) ts) \<le> n"
    by (simp add: n peer_count_def sum_list_triv)
  have "sum_list (map (peer_rank l n) ts) \<le> sum_list (map (\<lambda>_. 4 * n + l + 7) ts)"
    using assms(3) by (intro sum_list_mono) (blast intro: entry_points)
  then have "length is \<le> length ts * (4 * n + l + 7) + 3 * sum_list (map length (req_store (m_syncStatus s)))"
    using bt.budget_run [OF run start(3) , of l n] size l by (simp add: sum_list_triv queued_def)
  moreover have "\<forall>t \<in> set ts'. t = PeerDone" if "\<nexists>i st. interleave (peer_step F) (ts', sh') i st"
  proof -
    have none: "\<forall>t \<in> set ts'. peer_step F t sh' = None" using that stuck_iff by metis
    then have "\<forall>t \<in> set ts'. \<not> visiting t" using visiting_runs by metis
    then have "visits ts' = 0" by (simp add: sum_list_eq_0_iff)
    moreover have "visits ts = 0" using assms(3) entry_points by (auto simp: sum_list_eq_0_iff)
    ultimately have "sh_readers sh' = 0" using run_readers [OF run start(1)] by simp
    then show ?thesis using none step_waits no_crash [OF ends] by metis
  qed
  ultimately show ?thesis by blast
qed

theorem peer_threads_terminate_witness:
  "length demoPeerTurns \<le> length demoPeerThreads * (4 * (length (m_peersStatus (m_syncStatus demoServer)) + length demoPeerThreads * (3 + 1)) + 3 + 7) +
      3 * sum_list (map length (req_store (m_syncStatus demoServer)))"
proof -
  have "length (fw_groupNodeList demoFramework (c_sync (m_config demoServer))) = 3" by code_simp
  then show ?thesis
    using peer_threads_terminate [OF bs_wf_demoServer requests_ok_demoServer demo_peer_entries demo_peer_run refl refl] by simp
qed

section \<open>Two requests of a new node\<close>

text \<open>
  Both threads find no status of the node before either inserts one. \<^verbatim>\<open>insertEmptyPeer\<close> returns the status it has made,
  though the second \<^verbatim>\<open>insert\<close> leaves the table as it is.
\<close>

definition raced :: "NodeIDPtr \<Rightarrow> BlockSyncMsgImpl \<Rightarrow> BlockSyncMsgImpl \<Rightarrow> 'sc BlockSync \<Rightarrow> 'sc BlockSync" where
  "raced peer m1 m2 s =
     (let a = length (req_store (m_syncStatus s));
          twice = \<lambda>st. snd (insertEmptyPeer peer (snd (insertEmptyPeer peer st)))
      in with_peers (\<lambda>st. push_at (m_config s) (Suc a) (msg_number m2) (request_size m2)
           (push_at (m_config s) a (msg_number m1) (request_size m1) (twice st))) s)"

lemma request_fields: "msg_number (requestOfMsg m) = msg_number m" "request_size (requestOfMsg m) = request_size m"
  by (simp_all add: request_size_def requestOfMsg_def requestOfPB_def msg_number_def)

lemma raced_run:
  assumes "peerStatus peer (m_syncStatus s) = None" "fw_existsInGroup F (cfg_sync s) peer"
  shows "run (interleave (peer_step F)) ([RequestLook peer m1, RequestLook peer m2], free s) [0, 1, 0, 1, 0, 1, 0, 1]
    ([PeerDone, PeerDone], free (raced peer m1 m2 s))"
  by (rule takeTurns_run)
    (use assms in \<open>simp add: raced_def request_fields with_module_def with_peers_def Let_def insertEmptyPeer_def newEmptyPeerStatus_def newPeerStatus_def\<close>)

lemma raced_state:
  assumes "bs_wf s" "peerStatus peer (m_syncStatus s) = None" "0 < unat (c_maxDownloadRequestQueueSize (m_config s))"
    and "a = length (req_store (m_syncStatus s))"
  shows "\<exists>p. map_of (m_peersStatus (m_syncStatus (raced peer m1 m2 s))) = (map_of (m_peersStatus (m_syncStatus s)))(np_data peer \<mapsto> p) \<and>
      ps_downloadRequests p = a"
    "req_store (m_syncStatus (raced peer m1 m2 s)) = req_store (m_syncStatus s) @
       [[\<lparr>fromNumber = msg_number m1, req_size = request_size m1\<rparr>], [\<lparr>fromNumber = msg_number m2, req_size = request_size m2\<rparr>]]"
    "calls (raced peer m1 m2 s) = calls s"
  using assms
  by (auto simp: raced_def insertEmptyPeer_def newEmptyPeerStatus_def newPeerStatus_def peerStatus_def push_at_def drq_push_def
      bs_wf_def peers_wf_def nth_append list_update_append Let_def)

text \<open>
  C15: two requests of a new node can lose one of them. For every node of the group that has no status yet there is an
  interleaving of two of its requests in which both are handled, the node's status refers to a queue with the first
  request only, and the second one lies in a queue no status refers to. That queue is out of reach for good: whatever
  threads run afterwards, no status refers to it, its request stays in it, and the ledger is not asked for any of its blocks.
\<close>

theorem request_race_loses:
  assumes "bs_wf s" and "requests_ok (m_syncStatus s)" and "peerStatus peer (m_syncStatus s) = None"
    and "fw_existsInGroup F (c_sync (m_config s)) peer" and "0 < unat (c_maxDownloadRequestQueueSize (m_config s))"
    and "request_ok m1" and "request_ok m2"
    and "r1 = \<lparr>fromNumber = msg_number m1, req_size = request_size m1\<rparr>"
    and "r2 = \<lparr>fromNumber = msg_number m2, req_size = request_size m2\<rparr>"
  shows "\<exists>is s' p a. run (interleave (peer_step F)) ([RequestLook peer m1, RequestLook peer m2], \<lparr>sh_module = s, sh_readers = 0\<rparr>) is
      ([PeerDone, PeerDone], \<lparr>sh_module = s', sh_readers = 0\<rparr>) \<and>
    peerStatus peer (m_syncStatus s') = Some p \<and> queueOf (m_syncStatus s') p = [r1] \<and> req_store (m_syncStatus s') ! a = [r2] \<and>
    (\<forall>ts is' ts' sh. (\<forall>t \<in> set ts. peer_entry t) \<longrightarrow> length (filter serving ts) \<le> 1 \<longrightarrow>
       run (interleave (peer_step F)) (ts, \<lparr>sh_module = s', sh_readers = 0\<rparr>) is' (ts', sh) \<longrightarrow>
       (\<forall>k q. map_of (m_peersStatus (m_syncStatus (sh_module sh))) k = Some q \<longrightarrow> ps_downloadRequests q \<noteq> a) \<and>
       req_range r2 \<subseteq> covered (req_store (m_syncStatus (sh_module sh)) ! a) \<and>
       (\<forall>nd n. GetBlockData a nd n \<in> set (calls (sh_module sh)) \<longrightarrow> GetBlockData a nd n \<in> set (calls s)))"
proof -
  let ?s = "raced peer m1 m2 s" and ?b = "length (req_store (m_syncStatus s))"
  let ?X = "{(nd, n). GetBlockData (Suc ?b) nd n \<in> set (calls s)}" and ?Q = "\<lambda>_. False"
  note run = raced_run [OF assms(3,4)]
  have "queues_ok s" using assms(1,2) by (simp add: queues_ok_def)
  then have "pt.annotated ([RequestLook peer m1, RequestLook peer m2], free s)" using assms(6,7) by (intro start_annotated) simp_all
  then have "pt.annotated ([PeerDone, PeerDone], free ?s)" by (rule pt.run_annotated [OF run])
  then have ok: "queues_ok ?s" using annotated_ok by fastforce
  note state = raced_state [OF assms(1,3,5) refl, of m1 m2]
  obtain p where p: "map_of (m_peersStatus (m_syncStatus ?s)) = (map_of (m_peersStatus (m_syncStatus s)))(np_data peer \<mapsto> p)"
    "ps_downloadRequests p = ?b" using state(1) by blast
  have old: "ps_downloadRequests q < ?b" if "map_of (m_peersStatus (m_syncStatus s)) k = Some q" for k q
    using assms(1) that by (auto simp: bs_wf_def peers_wf_def peer_ok_def)
  have "watched (Suc ?b) ?Q (req_range r2) ?X 0 ?s"
    using p old state(2,3) by (fastforce simp: watched_def may_serve_def covered_def nth_append assms(9) split: if_splits)
  note start = start_annotated(2) [OF ok _ _ this]
  have later: "(\<forall>k q. map_of (m_peersStatus (m_syncStatus (sh_module sh))) k = Some q \<longrightarrow> ps_downloadRequests q \<noteq> Suc ?b) \<and>
      req_range r2 \<subseteq> covered (req_store (m_syncStatus (sh_module sh)) ! Suc ?b) \<and>
      (\<forall>nd n. GetBlockData (Suc ?b) nd n \<in> set (calls (sh_module sh)) \<longrightarrow> GetBlockData (Suc ?b) nd n \<in> set (calls s))"
    if "\<forall>t \<in> set ts. peer_entry t" "length (filter serving ts) \<le> 1" "run (interleave (peer_step F)) (ts, free ?s) is' (ts', sh)"
    for ts is' ts' sh
    using wt.run_annotated [OF that(3) start [OF that(1,2)]]
    unfolding wt.annotated_def by (auto simp: watched_def may_serve_def fetched_for_def)
  have "peerStatus peer (m_syncStatus ?s) = Some p" "queueOf (m_syncStatus ?s) p = [r1]" "req_store (m_syncStatus ?s) ! Suc ?b = [r2]"
    using p state(2) by (simp_all add: peerStatus_def queueOf_def nth_append assms(8,9))
  with run later show ?thesis by blast
qed

theorem request_race_loses_witness:
  "\<exists>is s' p a. run (interleave (peer_step demoFramework)) ([RequestLook (demoNode 2) (request_setSize 3 (setNumber 1 newBlockRequest)),
        RequestLook (demoNode 2) (request_setSize 2 (setNumber 20 newBlockRequest))], \<lparr>sh_module = demoModule, sh_readers = 0\<rparr>) is
      ([PeerDone, PeerDone], \<lparr>sh_module = s', sh_readers = 0\<rparr>) \<and>
    peerStatus (demoNode 2) (m_syncStatus s') = Some p \<and> queueOf (m_syncStatus s') p = [\<lparr>fromNumber = 1, req_size = 3\<rparr>] \<and>
    req_store (m_syncStatus s') ! a = [\<lparr>fromNumber = 20, req_size = 2\<rparr>]"
proof -
  let ?m1 = "request_setSize 3 (setNumber 1 newBlockRequest)" and ?m2 = "request_setSize 2 (setNumber 20 newBlockRequest)"
  have m: "msg_number ?m1 = 1" "request_size ?m1 = 3" "msg_number ?m2 = 20" "request_size ?m2 = 2" by code_simp+
  have "request_ok ?m1" "request_ok ?m2" by (simp_all add: request_ok_def m req_ok_def)
  moreover have "requests_ok (m_syncStatus demoModule)" "peerStatus (demoNode 2) (m_syncStatus demoModule) = None"
    "fw_existsInGroup demoFramework (c_sync (m_config demoModule)) (demoNode 2)"
    "0 < unat (c_maxDownloadRequestQueueSize (m_config demoModule))" by code_simp+
  ultimately show ?thesis
    using request_race_loses [OF bs_wf_demoModule _ _ _ _ _ _ refl refl, of "demoNode 2" demoFramework ?m1 ?m2] unfolding m by blast
qed

end
