(* ===== verification/MessageInterfaces.thy ===== *)
theory MessageInterfaces
  imports SyncDemo
begin

text \<open>
  The abstract classes under \<^verbatim>\<open>interfaces/\<close>: the module handles messages through them and gets
  them from a \<^verbatim>\<open>BlockSyncMsgFactory\<close>. A class with pure virtual members is a record of operations
  on objects of a type parameter, virtual inheritance is record extension, and a class that implements
  it is a value of the record. What the module relies on is stated as locales, one per
  interface, in the order of the inheritance; what is proved in them holds for every
  implementation, and they are interpreted on the protobuf classes of \<^verbatim>\<open>protocol/PB\<close>.
\<close>

section \<open>The interfaces\<close>

record 'm BlockSyncMsgInterface =
  if_encode :: "'m \<Rightarrow> bytes"
  if_decode :: "bytes \<Rightarrow> 'm \<Rightarrow> 'm option"
  if_number :: "'m \<Rightarrow> BlockNumber"
  if_packetType :: "'m \<Rightarrow> int"
  if_version :: "'m \<Rightarrow> int"
  if_setNumber :: "BlockNumber \<Rightarrow> 'm \<Rightarrow> 'm"
  if_setPacketType :: "int \<Rightarrow> 'm \<Rightarrow> 'm"
  if_setVersion :: "int \<Rightarrow> 'm \<Rightarrow> 'm"

record 'm BlockSyncStatusInterface = "'m BlockSyncMsgInterface" +
  if_hash :: "'m \<Rightarrow> HashType"
  if_genesisHash :: "'m \<Rightarrow> HashType"
  if_setHash :: "HashType \<Rightarrow> 'm \<Rightarrow> 'm"
  if_setGenesisHash :: "HashType \<Rightarrow> 'm \<Rightarrow> 'm"

record 'm BlockRequestInterface = "'m BlockSyncMsgInterface" +
  if_size :: "'m \<Rightarrow> size_t"
  if_setSize :: "size_t \<Rightarrow> 'm \<Rightarrow> 'm"

record 'm BlocksMsgInterface = "'m BlockSyncMsgInterface" +
  if_blocksSize :: "'m \<Rightarrow> nat"
  if_blockData :: "'m \<Rightarrow> nat \<Rightarrow> bytes option"
  if_appendBlockData :: "bytes \<Rightarrow> 'm \<Rightarrow> 'm"

text \<open>
  The factory: for each kind of message a fresh one, one decoded from bytes, and one around a
  received generic message. The type parameters are the classes it creates.
\<close>

record ('m, 's, 'r, 'b) BlockSyncMsgFactory =
  fa_createBlockSyncMsg :: "bytes \<Rightarrow> 'm option"
  fa_createStatus :: 's
  fa_createStatusOfData :: "bytes \<Rightarrow> 's option"
  fa_createStatusOfMsg :: "'m \<Rightarrow> 's"
  fa_createBlocks :: 'b
  fa_createBlocksOfData :: "bytes \<Rightarrow> 'b option"
  fa_createBlocksOfMsg :: "'m \<Rightarrow> 'b"
  fa_createRequest :: 'r
  fa_createRequestOfData :: "bytes \<Rightarrow> 'r option"
  fa_createRequestOfMsg :: "'m \<Rightarrow> 'r"

text \<open>The one member of the factory with a body: it sets the four attributes through the interface.\<close>

definition fa_createBlockSyncStatusMsg ::
  "('m, 's, 'r, 'b) BlockSyncMsgFactory \<Rightarrow> ('s, 'z) BlockSyncStatusInterface_scheme \<Rightarrow>
   BlockNumber \<Rightarrow> HashType \<Rightarrow> HashType \<Rightarrow> int \<Rightarrow> 's" where
  "fa_createBlockSyncStatusMsg FA SI number hash genesisHash version =
     (let statusMsg = fa_createStatus FA;
          statusMsg = if_setVersion SI version statusMsg;
          statusMsg = if_setNumber SI number statusMsg;
          statusMsg = if_setHash SI hash statusMsg;
          statusMsg = if_setGenesisHash SI genesisHash statusMsg
      in statusMsg)"

section \<open>What a message class promises\<close>

text \<open>
  The accessors return what was set, the attributes are independent, and the attributes every
  message has survive the wire into any object of the class. The parameter \<open>readable\<close> says for
  which bytes the serialiser, which is not part of the module, reads back what it wrote.
\<close>

locale message_class =
  fixes M :: "('m, 'z) BlockSyncMsgInterface_scheme" and readable :: "bytes \<Rightarrow> bool"
  assumes get_set:
      "if_number M (if_setNumber M n m) = n" "if_packetType M (if_setPacketType M t m) = t" "if_version M (if_setVersion M v m) = v"
    and keeps_number: "if_number M (if_setPacketType M t m) = if_number M m" "if_number M (if_setVersion M v m) = if_number M m"
    and keeps_packetType: "if_packetType M (if_setNumber M n m) = if_packetType M m" "if_packetType M (if_setVersion M v m) = if_packetType M m"
    and keeps_version: "if_version M (if_setNumber M n m) = if_version M m" "if_version M (if_setPacketType M t m) = if_version M m"
    and wire: "readable (if_encode M m) \<Longrightarrow> \<exists>m'. if_decode M (if_encode M m) m0 = Some m' \<and> if_number M m' = if_number M m \<and>
      if_packetType M m' = if_packetType M m \<and> if_version M m' = if_version M m"
begin

text \<open>The three setters commute as far as the accessors can tell.\<close>

lemma header_order:
  "if_number M (if_setVersion M v (if_setNumber M n (if_setPacketType M t m))) = n \<and>
   if_version M (if_setPacketType M t (if_setNumber M n (if_setVersion M v m))) = v \<and>
   if_packetType M (if_setNumber M n (if_setVersion M v (if_setPacketType M t m))) = t"
  by (simp add: get_set keeps_number keeps_packetType keeps_version)

end

locale status_class = message_class S readable for S :: "('s, 'z) BlockSyncStatusInterface_scheme" and readable +
  assumes hash_set: "if_hash S (if_setHash S h s) = h" "if_genesisHash S (if_setGenesisHash S h s) = h"
    and hash_keeps: "if_hash S (if_setGenesisHash S h s) = if_hash S s" "if_genesisHash S (if_setHash S h s) = if_genesisHash S s"
    and hash_header: "if_number S (if_setHash S h s) = if_number S s" "if_number S (if_setGenesisHash S h s) = if_number S s"
      "if_packetType S (if_setHash S h s) = if_packetType S s" "if_packetType S (if_setGenesisHash S h s) = if_packetType S s"
      "if_version S (if_setHash S h s) = if_version S s" "if_version S (if_setGenesisHash S h s) = if_version S s"

locale request_class = message_class R readable for R :: "('r, 'z) BlockRequestInterface_scheme" and readable +
  assumes size_set: "if_size R (if_setSize R k r) = k" "if_size R (if_setNumber R n r) = if_size R r"
    and size_header: "if_number R (if_setSize R k r) = if_number R r" "if_packetType R (if_setSize R k r) = if_packetType R r"

locale blocks_class = message_class B readable for B :: "('b, 'z) BlocksMsgInterface_scheme" and readable +
  assumes append_size: "if_blocksSize B (if_appendBlockData B d b) = Suc (if_blocksSize B b)"
    and append_data: "if_blockData B (if_appendBlockData B d b) i =
      (if i = if_blocksSize B b then Some d else if_blockData B b i)"
    and past_end: "if_blocksSize B b \<le> i \<Longrightarrow> if_blockData B b i = None"
    and number_data: "if_blocksSize B (if_setNumber B n b) = if_blocksSize B b" "if_blockData B (if_setNumber B n b) = if_blockData B b"
    and append_header: "if_number B (if_appendBlockData B d b) = if_number B b"
      "if_packetType B (if_appendBlockData B d b) = if_packetType B b"
begin

lemma append_all:
  "if_blocksSize B (fold (if_appendBlockData B) ds b) = if_blocksSize B b + length ds \<and>
   if_packetType B (fold (if_appendBlockData B) ds b) = if_packetType B b \<and>
   (\<forall>i < length ds. if_blockData B (fold (if_appendBlockData B) ds b) (if_blocksSize B b + i) = Some (ds ! i)) \<and>
   (\<forall>i < if_blocksSize B b. if_blockData B (fold (if_appendBlockData B) ds b) i = if_blockData B b i)"
proof (induction ds arbitrary: b)
  case (Cons d ds)
  note IH = Cons.IH [of "if_appendBlockData B d b", unfolded append_size append_header]
  have first: "if_blockData B (fold (if_appendBlockData B) ds (if_appendBlockData B d b)) (if_blocksSize B b) = Some d"
    using IH by (simp add: append_data)
  have "if_blockData B (fold (if_appendBlockData B) (d # ds) b) (if_blocksSize B b + i) = Some ((d # ds) ! i)"
    if "i < length (d # ds)" for i
    using first IH that by (cases i) (auto simp: add.commute)
  moreover have "if_blockData B (fold (if_appendBlockData B) (d # ds) b) i = if_blockData B b i" if "i < if_blocksSize B b" for i
    using IH that by (simp add: append_data)
  ultimately show ?case using IH by simp
qed simp

end

section \<open>What the factory promises\<close>

locale msg_factory = st: status_class S readable + rq: request_class R readable + bl: blocks_class B readable
  for S :: "('s, 'y) BlockSyncStatusInterface_scheme" and R :: "('r, 'y1) BlockRequestInterface_scheme"
    and B :: "('b, 'y2) BlocksMsgInterface_scheme" and readable +
  fixes M :: "('m, 'z) BlockSyncMsgInterface_scheme" and FA :: "('m, 's, 'r, 'b) BlockSyncMsgFactory"
  assumes fresh: "if_packetType S (fa_createStatus FA) = packetCode BlockStatusPacket"
      "if_packetType R (fa_createRequest FA) = packetCode BlockRequestPacket"
      "if_packetType B (fa_createBlocks FA) = packetCode BlockResponsePacket" "if_blocksSize B (fa_createBlocks FA) = 0"
    and status_wire: "readable (if_encode S s) \<Longrightarrow> s = if_setGenesisHash S g (if_setHash S h s0) \<Longrightarrow>
      length h = HashType_size \<Longrightarrow> length g = HashType_size \<Longrightarrow>
      \<exists>m. fa_createBlockSyncMsg FA (if_encode S s) = Some m \<and> if_packetType M m = if_packetType S s \<and>
        if_number S (fa_createStatusOfMsg FA m) = if_number S s \<and> if_version S (fa_createStatusOfMsg FA m) = if_version S s \<and>
        if_hash S (fa_createStatusOfMsg FA m) = h \<and> if_genesisHash S (fa_createStatusOfMsg FA m) = g"
    and request_wire: "readable (if_encode R r) \<Longrightarrow>
      \<exists>m. fa_createBlockSyncMsg FA (if_encode R r) = Some m \<and> if_packetType M m = if_packetType R r \<and>
        if_number R (fa_createRequestOfMsg FA m) = if_number R r \<and> if_size R (fa_createRequestOfMsg FA m) = if_size R r"
    and blocks_wire: "readable (if_encode B b) \<Longrightarrow>
      \<exists>m. fa_createBlockSyncMsg FA (if_encode B b) = Some m \<and> if_packetType M m = if_packetType B b \<and>
        if_number M m = if_number B b \<and> if_blocksSize B (fa_createBlocksOfMsg FA m) = if_blocksSize B b \<and>
        (\<forall>i. if_blockData B (fa_createBlocksOfMsg FA m) i = if_blockData B b i)"
begin

text \<open>What the sender puts into a packet through the interfaces, the receiver gets out of it.\<close>

lemma status_delivered:
  assumes st: "st = fa_createBlockSyncStatusMsg FA S number hash genesisHash version"
    and ok: "readable (if_encode S st)" "length hash = HashType_size" "length genesisHash = HashType_size"
  shows "\<exists>m. fa_createBlockSyncMsg FA (if_encode S st) = Some m \<and> if_packetType M m = packetCode BlockStatusPacket \<and>
    if_number S (fa_createStatusOfMsg FA m) = number \<and> if_version S (fa_createStatusOfMsg FA m) = version \<and>
    if_hash S (fa_createStatusOfMsg FA m) = hash \<and> if_genesisHash S (fa_createStatusOfMsg FA m) = genesisHash"
proof -
  define s0 where "s0 = if_setNumber S number (if_setVersion S version (fa_createStatus FA))"
  have eq: "st = if_setGenesisHash S genesisHash (if_setHash S hash s0)"
    by (simp add: st s0_def fa_createBlockSyncStatusMsg_def Let_def)
  then have "if_packetType S st = packetCode BlockStatusPacket" "if_number S st = number" "if_version S st = version"
    by (simp_all add: s0_def st.hash_header st.get_set st.keeps_number st.keeps_packetType st.keeps_version fresh)
  with status_wire [OF ok(1) eq ok(2,3)] show ?thesis by simp
qed

lemma request_delivered:
  assumes r: "r = if_setSize R k (if_setNumber R start (fa_createRequest FA))" and ok: "readable (if_encode R r)"
  shows "\<exists>m. fa_createBlockSyncMsg FA (if_encode R r) = Some m \<and> if_packetType M m = packetCode BlockRequestPacket \<and>
    if_number R (fa_createRequestOfMsg FA m) = start \<and> if_size R (fa_createRequestOfMsg FA m) = k"
  using request_wire [OF ok] unfolding r
  by (simp add: rq.size_header rq.size_set rq.get_set rq.keeps_packetType fresh)

lemma blocks_delivered:
  assumes b: "b = if_setNumber B number (fold (if_appendBlockData B) ds (fa_createBlocks FA))" and ok: "readable (if_encode B b)"
  shows "\<exists>m. fa_createBlockSyncMsg FA (if_encode B b) = Some m \<and> if_packetType M m = packetCode BlockResponsePacket \<and>
    if_number M m = number \<and> if_blocksSize B (fa_createBlocksOfMsg FA m) = length ds \<and>
    (\<forall>i. if_blockData B (fa_createBlocksOfMsg FA m) i = (if i < length ds then Some (ds ! i) else None))"
proof -
  let ?b = "fold (if_appendBlockData B) ds (fa_createBlocks FA)"
  note A = bl.append_all [of ds "fa_createBlocks FA", unfolded fresh add_0]
  have "if_packetType B b = packetCode BlockResponsePacket" "if_number B b = number" "if_blocksSize B b = length ds"
    using A by (simp_all add: b bl.get_set bl.keeps_packetType bl.number_data)
  moreover have "if_blockData B b i = (if i < length ds then Some (ds ! i) else None)" for i
    using A bl.past_end [of ?b i] by (simp add: b bl.number_data)
  ultimately show ?thesis using blocks_wire [OF ok] by simp
qed

end

section \<open>The protobuf classes\<close>

definition BlockSyncMsgImpl_ops ::
  "(BlockSyncMessage \<Rightarrow> bytes) \<Rightarrow> (bytes \<Rightarrow> BlockSyncMessage option) \<Rightarrow> 'z BlockSyncMsgImpl_scheme BlockSyncMsgInterface" where
  "BlockSyncMsgImpl_ops encodePB decodePB =
     \<lparr>if_encode = msg_encode encodePB, if_decode = msg_decode decodePB, if_number = msg_number, if_packetType = msg_packetType,
      if_version = msg_version, if_setNumber = setNumber, if_setPacketType = setPacketType, if_setVersion = setVersion\<rparr>"

text \<open>A status overrides \<^verbatim>\<open>decode\<close>; the other two classes inherit everything and add their own members.\<close>

definition BlockSyncStatusImpl_ops ::
  "(BlockSyncMessage \<Rightarrow> bytes) \<Rightarrow> (bytes \<Rightarrow> BlockSyncMessage option) \<Rightarrow> BlockSyncStatusImpl BlockSyncStatusInterface" where
  "BlockSyncStatusImpl_ops encodePB decodePB =
     BlockSyncMsgInterface.extend ((BlockSyncMsgImpl_ops encodePB decodePB)\<lparr>if_decode := status_decode decodePB\<rparr>)
       (BlockSyncStatusInterface.fields m_hash m_genesisHash status_setHash status_setGenesisHash)"

definition BlockRequestImpl_ops ::
  "(BlockSyncMessage \<Rightarrow> bytes) \<Rightarrow> (bytes \<Rightarrow> BlockSyncMessage option) \<Rightarrow> BlockSyncMsgImpl BlockRequestInterface" where
  "BlockRequestImpl_ops encodePB decodePB =
     BlockSyncMsgInterface.extend (BlockSyncMsgImpl_ops encodePB decodePB) (BlockRequestInterface.fields request_size request_setSize)"

definition BlocksMsgImpl_ops ::
  "(BlockSyncMessage \<Rightarrow> bytes) \<Rightarrow> (bytes \<Rightarrow> BlockSyncMessage option) \<Rightarrow> BlockSyncMsgImpl BlocksMsgInterface" where
  "BlocksMsgImpl_ops encodePB decodePB =
     BlockSyncMsgInterface.extend (BlockSyncMsgImpl_ops encodePB decodePB) (BlocksMsgInterface.fields blocksSize blockData appendBlockData)"

definition BlockSyncMsgFactoryImpl ::
  "(bytes \<Rightarrow> BlockSyncMessage option) \<Rightarrow> (BlockSyncMsgImpl, BlockSyncStatusImpl, BlockSyncMsgImpl, BlockSyncMsgImpl) BlockSyncMsgFactory" where
  "BlockSyncMsgFactoryImpl decodePB =
     \<lparr>fa_createBlockSyncMsg = createBlockSyncMsg decodePB,
      fa_createStatus = createStatus, fa_createStatusOfData = createStatusOfData decodePB, fa_createStatusOfMsg = createStatusOfMsg,
      fa_createBlocks = createBlocks, fa_createBlocksOfData = createBlocksOfData decodePB, fa_createBlocksOfMsg = createBlocksOfMsg,
      fa_createRequest = createRequest, fa_createRequestOfData = createRequestOfData decodePB, fa_createRequestOfMsg = createRequestOfMsg\<rparr>"

definition reads_back :: "(BlockSyncMessage \<Rightarrow> bytes) \<Rightarrow> (bytes \<Rightarrow> BlockSyncMessage option) \<Rightarrow> bytes \<Rightarrow> bool" where
  "reads_back encodePB decodePB data \<longleftrightarrow> (\<forall>m. encodePB m = data \<longrightarrow> decodePB data = Some m)"

lemma status_members [simp]:
  "if_encode (BlockSyncStatusImpl_ops e d) = msg_encode e" "if_decode (BlockSyncStatusImpl_ops e d) = status_decode d"
  "if_number (BlockSyncStatusImpl_ops e d) = msg_number" "if_packetType (BlockSyncStatusImpl_ops e d) = msg_packetType"
  "if_version (BlockSyncStatusImpl_ops e d) = msg_version" "if_setNumber (BlockSyncStatusImpl_ops e d) = setNumber"
  "if_setPacketType (BlockSyncStatusImpl_ops e d) = setPacketType" "if_setVersion (BlockSyncStatusImpl_ops e d) = setVersion"
  "if_hash (BlockSyncStatusImpl_ops e d) = m_hash" "if_genesisHash (BlockSyncStatusImpl_ops e d) = m_genesisHash"
  "if_setHash (BlockSyncStatusImpl_ops e d) = status_setHash" "if_setGenesisHash (BlockSyncStatusImpl_ops e d) = status_setGenesisHash"
  by (simp_all add: BlockSyncStatusImpl_ops_def BlockSyncMsgImpl_ops_def BlockSyncMsgInterface.defs BlockSyncStatusInterface.defs)

lemma request_members [simp]:
  "if_encode (BlockRequestImpl_ops e d) = msg_encode e" "if_decode (BlockRequestImpl_ops e d) = msg_decode d"
  "if_number (BlockRequestImpl_ops e d) = msg_number" "if_packetType (BlockRequestImpl_ops e d) = msg_packetType"
  "if_version (BlockRequestImpl_ops e d) = msg_version" "if_setNumber (BlockRequestImpl_ops e d) = setNumber"
  "if_setPacketType (BlockRequestImpl_ops e d) = setPacketType" "if_setVersion (BlockRequestImpl_ops e d) = setVersion"
  "if_size (BlockRequestImpl_ops e d) = request_size" "if_setSize (BlockRequestImpl_ops e d) = request_setSize"
  by (simp_all add: BlockRequestImpl_ops_def BlockSyncMsgImpl_ops_def BlockSyncMsgInterface.defs BlockRequestInterface.defs)

lemma blocks_members [simp]:
  "if_encode (BlocksMsgImpl_ops e d) = msg_encode e" "if_decode (BlocksMsgImpl_ops e d) = msg_decode d"
  "if_number (BlocksMsgImpl_ops e d) = msg_number" "if_packetType (BlocksMsgImpl_ops e d) = msg_packetType"
  "if_version (BlocksMsgImpl_ops e d) = msg_version" "if_setNumber (BlocksMsgImpl_ops e d) = setNumber"
  "if_setPacketType (BlocksMsgImpl_ops e d) = setPacketType" "if_setVersion (BlocksMsgImpl_ops e d) = setVersion"
  "if_blocksSize (BlocksMsgImpl_ops e d) = blocksSize" "if_blockData (BlocksMsgImpl_ops e d) = blockData"
  "if_appendBlockData (BlocksMsgImpl_ops e d) = appendBlockData"
  by (simp_all add: BlocksMsgImpl_ops_def BlockSyncMsgImpl_ops_def BlockSyncMsgInterface.defs BlocksMsgInterface.defs)

lemma reads_backD: "reads_back e d (msg_encode e m) \<Longrightarrow> d (e (m_syncMessage m)) = Some (m_syncMessage m)"
  by (simp add: reads_back_def msg_encode_def)

lemma header_laws:
  "msg_number (setNumber n m) = n" "msg_packetType (setPacketType t m) = t" "msg_version (setVersion v m) = v"
  "msg_number (setPacketType t m) = msg_number m" "msg_number (setVersion v m) = msg_number m"
  "msg_packetType (setNumber n m) = msg_packetType m" "msg_packetType (setVersion v m) = msg_packetType m"
  "msg_version (setNumber n m) = msg_version m" "msg_version (setPacketType t m) = msg_version m"
  by (simp_all add: message_defs)

lemma header_wire:
  assumes "reads_back e d (msg_encode e m)"
  shows "\<exists>m'. msg_decode d (msg_encode e m) m0 = Some m' \<and> msg_number m' = msg_number m \<and>
    msg_packetType m' = msg_packetType m \<and> msg_version m' = msg_version m"
  using reads_backD [OF assms] by (simp add: message_defs)

interpretation msg_ops: message_class "BlockSyncMsgImpl_ops e d" "reads_back e d" for e d
  by unfold_locales (simp_all add: BlockSyncMsgImpl_ops_def header_laws header_wire)

interpretation status_ops: status_class "BlockSyncStatusImpl_ops e d" "reads_back e d" for e d
proof unfold_locales
  show "\<exists>m'. if_decode (BlockSyncStatusImpl_ops e d) (if_encode (BlockSyncStatusImpl_ops e d) m) m0 = Some m' \<and>
      if_number (BlockSyncStatusImpl_ops e d) m' = if_number (BlockSyncStatusImpl_ops e d) m \<and>
      if_packetType (BlockSyncStatusImpl_ops e d) m' = if_packetType (BlockSyncStatusImpl_ops e d) m \<and>
      if_version (BlockSyncStatusImpl_ops e d) m' = if_version (BlockSyncStatusImpl_ops e d) m"
    if "reads_back e d (if_encode (BlockSyncStatusImpl_ops e d) m)" for m m0
    using reads_backD [of e d m] that by (simp add: message_defs Let_def)
qed (simp_all add: header_laws, simp_all add: message_defs)

interpretation request_ops: request_class "BlockRequestImpl_ops e d" "reads_back e d" for e d
  by unfold_locales (simp_all add: header_laws header_wire, simp_all add: message_defs)

interpretation blocks_ops: blocks_class "BlocksMsgImpl_ops e d" "reads_back e d" for e d
  by unfold_locales (simp_all add: header_laws header_wire,
    simp_all add: message_defs blocksSize_def blockData_def appendBlockData_snoc nth_append fun_eq_iff)

lemma status_wire_impl:
  assumes "reads_back e d (msg_encode e s)" "s = status_setGenesisHash g (status_setHash h s0)"
    "length h = HashType_size" "length g = HashType_size"
  shows "\<exists>m. createBlockSyncMsg d (msg_encode e s) = Some m \<and> msg_packetType m = msg_packetType s \<and>
    msg_number (createStatusOfMsg m) = msg_number s \<and> msg_version (createStatusOfMsg m) = msg_version s \<and>
    m_hash (createStatusOfMsg m) = h \<and> m_genesisHash (createStatusOfMsg m) = g"
  using reads_backD [OF assms(1)] assms(2-4) by (simp add: message_defs)

lemma request_wire_impl:
  assumes "reads_back e d (msg_encode e r)"
  shows "\<exists>m. createBlockSyncMsg d (msg_encode e r) = Some m \<and> msg_packetType m = msg_packetType r \<and>
    msg_number (createRequestOfMsg m) = msg_number r \<and> request_size (createRequestOfMsg m) = request_size r"
  using reads_backD [OF assms] by (simp add: message_defs)

lemma blocks_wire_impl:
  assumes "reads_back e d (msg_encode e b)"
  shows "\<exists>m. createBlockSyncMsg d (msg_encode e b) = Some m \<and> msg_packetType m = msg_packetType b \<and> msg_number m = msg_number b \<and>
    blocksSize (createBlocksOfMsg m) = blocksSize b \<and> (\<forall>i. blockData (createBlocksOfMsg m) i = blockData b i)"
  using reads_backD [OF assms] by (simp add: message_defs blocksSize_def blockData_def)

interpretation factory_ops: msg_factory "BlockSyncStatusImpl_ops e d" "BlockRequestImpl_ops e d" "BlocksMsgImpl_ops e d"
  "reads_back e d" "BlockSyncMsgImpl_ops e d" "BlockSyncMsgFactoryImpl d" for e d
proof unfold_locales
qed (simp_all add: BlockSyncMsgFactoryImpl_def BlockSyncMsgImpl_ops_def del: factory_defs add: status_wire_impl request_wire_impl blocks_wire_impl,
    simp_all add: message_defs blocksSize_def emptyMessage_def)

text \<open>The calls the module makes through the interface reach the definitions of the classes.\<close>

lemma virtual_status:
  "fa_createBlockSyncStatusMsg (BlockSyncMsgFactoryImpl d) (BlockSyncStatusImpl_ops e d) = createBlockSyncStatusMsg"
  by (simp add: fun_eq_iff fa_createBlockSyncStatusMsg_def createBlockSyncStatusMsg_def BlockSyncMsgFactoryImpl_def Let_def)

section \<open>Properties\<close>

text \<open>
  C40: messages built and read through the interfaces survive the wire, when the serialiser gives back
  the message it was given. The receiver decodes a generic message, finds the packet type of the kind that was sent
  and wraps it: a status then has the number, version and both hashes of the sender; a request
  has its first block and its count, for every \<^verbatim>\<open>size_t\<close> although the field on the wire is signed;
  a response has its number and as many blocks as were appended, each at its index, and nothing past the end.
\<close>

theorem messages_delivered:
  assumes pb: "\<And>m. decodePB (encodePB m) = Some m"
    and cls: "FA = BlockSyncMsgFactoryImpl decodePB" "M = BlockSyncMsgImpl_ops encodePB decodePB" "S = BlockSyncStatusImpl_ops encodePB decodePB"
      "R = BlockRequestImpl_ops encodePB decodePB" "B = BlocksMsgImpl_ops encodePB decodePB"
    and len: "length hash = HashType_size" "length genesisHash = HashType_size"
    and st: "st = fa_createBlockSyncStatusMsg FA S number hash genesisHash version"
    and req: "req = if_setSize R k (if_setNumber R start (fa_createRequest FA))"
    and resp: "resp = if_setNumber B n (fold (if_appendBlockData B) blocks (fa_createBlocks FA))"
  shows "(\<exists>m. fa_createBlockSyncMsg FA (if_encode S st) = Some m \<and> if_packetType M m = packetCode BlockStatusPacket \<and>
      if_number S (fa_createStatusOfMsg FA m) = number \<and> if_version S (fa_createStatusOfMsg FA m) = version \<and>
      if_hash S (fa_createStatusOfMsg FA m) = hash \<and> if_genesisHash S (fa_createStatusOfMsg FA m) = genesisHash) \<and>
    (\<exists>m. fa_createBlockSyncMsg FA (if_encode R req) = Some m \<and> if_packetType M m = packetCode BlockRequestPacket \<and>
      if_number R (fa_createRequestOfMsg FA m) = start \<and> if_size R (fa_createRequestOfMsg FA m) = k) \<and>
    (\<exists>m. fa_createBlockSyncMsg FA (if_encode B resp) = Some m \<and> if_packetType M m = packetCode BlockResponsePacket \<and>
      if_number M m = n \<and> if_blocksSize B (fa_createBlocksOfMsg FA m) = length blocks \<and>
      (\<forall>i. if_blockData B (fa_createBlocksOfMsg FA m) i = (if i < length blocks then Some (blocks ! i) else None)))"
proof -
  have reads: "reads_back encodePB decodePB data" for data using pb by (auto simp: reads_back_def)
  show ?thesis
    using factory_ops.status_delivered [OF st [unfolded cls] reads len] factory_ops.request_delivered [OF req [unfolded cls] reads]
      factory_ops.blocks_delivered [OF resp [unfolded cls] reads]
    unfolding cls by blast
qed

theorem messages_delivered_witness:
  "\<exists>m. createBlockSyncMsg demo_decodePB (msg_encode demo_encodePB (createBlockSyncStatusMsg 12 (replicate 32 7) (replicate 32 9) 3)) = Some m \<and>
    msg_packetType m = packetCode BlockStatusPacket \<and> msg_number (createStatusOfMsg m) = 12 \<and> m_hash (createStatusOfMsg m) = replicate 32 7"
proof -
  have "length (replicate 32 7) = HashType_size" "length (replicate 32 9) = HashType_size" by (simp_all add: HashType_size_def)
  from conjunct1 [OF messages_delivered [OF demo_PB_roundtrip refl refl refl refl refl this refl refl refl,
      where number = 12 and version = 3 and k = "2 ^ 63 + 5" and start = 7 and n = 8 and blocks = "[[1], [2, 3]]"], unfolded virtual_status]
  show ?thesis by (simp add: BlockSyncMsgFactoryImpl_def BlockSyncMsgImpl_ops_def del: factory_defs) metis
qed

end
