(* ===== verification/ModuleServices.thy ===== *)
theory ModuleServices
  imports MessageInterfaces BlockSync
begin

text \<open>
  \<^verbatim>\<open>BlockSyncFactory.h/.cpp\<close>, the service members of \<^verbatim>\<open>BlockSyncConfig\<close> and the response handler of \<^verbatim>\<open>BlockSync.cpp\<close>:
  how the module gets at the services it calls. A service is only passed on and called, so a pointer to one is a
  value of the type \<open>'svc\<close>; the closures are represented by what they capture. The lemmas follow
  each service from the factory to the getter, and a response to the front service.
\<close>

section \<open>Services of the configuration\<close>

type_synonym MsgFactory = "(BlockSyncMsgImpl, BlockSyncStatusImpl, BlockSyncMsgImpl, BlockSyncMsgImpl) BlockSyncMsgFactory"

record 'svc ConfigServices =
  ledger :: 'svc
  txpool :: 'svc
  blockFactory :: 'svc
  txResultFactory :: 'svc
  frontService :: 'svc
  scheduler :: 'svc
  consensus :: 'svc
  msgFactory :: MsgFactory

definition newConfigServices ::
  "'svc \<Rightarrow> 'svc \<Rightarrow> 'svc \<Rightarrow> 'svc \<Rightarrow> 'svc \<Rightarrow> 'svc \<Rightarrow> 'svc \<Rightarrow> MsgFactory \<Rightarrow> 'svc ConfigServices" where
  "newConfigServices ledger' txpool' blockFactory' txResultFactory' frontService' scheduler' consensus' msgFactory' =
     \<lparr>ledger = ledger', txpool = txpool', blockFactory = blockFactory', txResultFactory = txResultFactory',
      frontService = frontService', scheduler = scheduler', consensus = consensus', msgFactory = msgFactory'\<rparr>"

text \<open>The module with its services; \<open>sendResponseHandler\<close> is the weak pointer the handler captures, \<open>None\<close> while the \<^verbatim>\<open>std::function\<close> is empty.\<close>

record ('sc, 'svc) SyncObject =
  so_module :: "'sc BlockSync"
  so_services :: "'svc ConfigServices"
  so_sendResponseHandler :: "'svc option"

section \<open>BlockSyncFactory\<close>

record 'svc BlockSyncFactory =
  bf_nodeId :: NodeIDPtr
  bf_blockFactory :: 'svc
  bf_txResultFactory :: 'svc
  bf_ledger :: 'svc
  bf_txpool :: 'svc
  bf_frontService :: 'svc
  bf_scheduler :: 'svc
  bf_consensus :: 'svc

definition newBlockSyncFactory ::
  "NodeIDPtr \<Rightarrow> 'svc \<Rightarrow> 'svc \<Rightarrow> 'svc \<Rightarrow> 'svc \<Rightarrow> 'svc \<Rightarrow> 'svc \<Rightarrow> 'svc \<Rightarrow> 'svc BlockSyncFactory" where
  "newBlockSyncFactory nodeId blockFactory' txResultFactory' ledger' txpool' frontService' scheduler' consensus' =
     \<lparr>bf_nodeId = nodeId, bf_blockFactory = blockFactory', bf_txResultFactory = txResultFactory', bf_ledger = ledger',
      bf_txpool = txpool', bf_frontService = frontService', bf_scheduler = scheduler', bf_consensus = consensus'\<rparr>"

text \<open>\<open>newSyncConfig\<close> is the constructor of the base class \<^verbatim>\<open>SyncConfig\<close> of \<^verbatim>\<open>bcos-framework\<close>.\<close>

definition factoryCreate ::
  "'sc Framework \<Rightarrow> (NodeIDPtr \<Rightarrow> 'sc) \<Rightarrow> 'svc BlockSyncFactory \<Rightarrow> ('sc, 'svc) SyncObject" where
  "factoryCreate F newSyncConfig fac =
     \<lparr>so_module = createBlockSync (newSyncConfig (bf_nodeId fac)),
      so_services = newConfigServices (bf_ledger fac) (bf_txpool fac) (bf_blockFactory fac) (bf_txResultFactory fac)
        (bf_frontService fac) (bf_scheduler fac) (bf_consensus fac) (BlockSyncMsgFactoryImpl (fw_decodePB F)),
      so_sendResponseHandler = None\<rparr>"

section \<open>The response handler\<close>

definition initSendResponseHandler :: "('sc, 'svc) SyncObject \<Rightarrow> ('sc, 'svc) SyncObject" where
  "initSendResponseHandler so = so\<lparr>so_sendResponseHandler := Some (frontService (so_services so))\<rparr>"

definition initObject ::
  "'sc Framework \<Rightarrow> HashType \<Rightarrow> LedgerConfig \<Rightarrow> ('sc, 'svc) SyncObject \<Rightarrow> ('sc, 'svc) SyncObject" where
  "initObject F genesisHash lc so = initSendResponseHandler (so\<lparr>so_module := init F genesisHash lc (so_module so)\<rparr>)"

text \<open>A call of \<^verbatim>\<open>asyncSendResponse\<close> on a front service. \<open>alive\<close> tells which services can still be locked; \<open>moduleBlockSync\<close> is \<^verbatim>\<open>ModuleID::BlockSync\<close>.\<close>

datatype 'svc response = SendResponse 'svc string int NodeIDPtr bytes

definition callResponseHandler ::
  "('svc \<Rightarrow> bool) \<Rightarrow> 'svc \<Rightarrow> string \<Rightarrow> int \<Rightarrow> NodeIDPtr \<Rightarrow> bytes \<Rightarrow> 'svc response list" where
  "callResponseHandler alive weakFrontService uuid moduleID dstNode data =
     (if alive weakFrontService then [SendResponse weakFrontService uuid moduleID dstNode data] else [])"

text \<open>
  The closure the outer \<^verbatim>\<open>asyncNotifyBlockSyncMessage\<close> hands to the inner one: \<open>self\<close> is the module, \<open>None\<close> if it is gone. Calling an
  empty handler throws, which the closure catches.
\<close>

definition sendResponse ::
  "('svc \<Rightarrow> bool) \<Rightarrow> int \<Rightarrow> ('sc, 'svc) SyncObject option \<Rightarrow> string \<Rightarrow> NodeIDPtr \<Rightarrow> bytes \<Rightarrow> 'svc response list" where
  "sendResponse alive moduleBlockSync self uuid nodeID respData =
     (case self of
        None \<Rightarrow> []
      | Some sync \<Rightarrow> (case so_sendResponseHandler sync of
          None \<Rightarrow> []
        | Some weakFrontService \<Rightarrow> callResponseHandler alive weakFrontService uuid moduleBlockSync nodeID respData))"

text \<open>
  What a message does: the calls of \<^verbatim>\<open>_onRecv\<close> (with a null error), the responses sent while it is handled, and the new state.
  The inner function has a parameter for the closure and does not use it.
\<close>

definition notifyInner ::
  "'sc Framework \<Rightarrow> error option \<Rightarrow> NodeIDPtr \<Rightarrow> bytes \<Rightarrow> (bytes \<Rightarrow> 'svc response list) \<Rightarrow> bool \<Rightarrow> ('sc, 'svc) SyncObject \<Rightarrow>
   error option list \<times> 'svc response list \<times> ('sc, 'svc) SyncObject" where
  "notifyInner F err nodeID data respond' onRecv so =
     (if onRecv then [None] else [], [], so\<lparr>so_module := asyncNotifyBlockSyncMessage F err nodeID data (so_module so)\<rparr>)"

definition notifyOuter ::
  "'sc Framework \<Rightarrow> ('svc \<Rightarrow> bool) \<Rightarrow> int \<Rightarrow> error option \<Rightarrow> string \<Rightarrow> NodeIDPtr \<Rightarrow> bytes \<Rightarrow> bool \<Rightarrow> ('sc, 'svc) SyncObject \<Rightarrow>
   error option list \<times> 'svc response list \<times> ('sc, 'svc) SyncObject" where
  "notifyOuter F alive moduleBlockSync err uuid nodeID data onRecv so =
     notifyInner F err nodeID data (sendResponse alive moduleBlockSync (Some so) uuid nodeID) onRecv so"

section \<open>Where the services arrive\<close>

text \<open>The constructors take the services in different orders; each one arrives at its own getter.\<close>

lemma factory_services:
  "so_services (factoryCreate F mk (newBlockSyncFactory nodeId bf rf led pool front sched cons)) =
     \<lparr>ledger = led, txpool = pool, blockFactory = bf, txResultFactory = rf, frontService = front, scheduler = sched, consensus = cons,
      msgFactory = BlockSyncMsgFactoryImpl (fw_decodePB F)\<rparr>"
  by (simp add: factoryCreate_def newConfigServices_def newBlockSyncFactory_def)

text \<open>No operation of the module replaces a service or the handler once \<^verbatim>\<open>init\<close> has run; responses go to the front service of the factory, as long as it lives.\<close>

lemma notify_services: "snd (snd (notifyOuter F alive mid err uuid nodeID data onRecv so)) =
    so\<lparr>so_module := asyncNotifyBlockSyncMessage F err nodeID data (so_module so)\<rparr>"
  by (simp add: notifyOuter_def notifyInner_def)

lemma response_before_init: "sendResponse alive mid (Some (factoryCreate F mk fac)) uuid nodeID data = []"
  by (simp add: sendResponse_def factoryCreate_def)

lemma response_after_init:
  assumes "so = initObject F genesisHash lc (factoryCreate F mk fac)"
    and "so' = fold (\<lambda>(err, uuid, nodeID, data, onRecv) x. snd (snd (notifyOuter F alive mid err uuid nodeID data onRecv x))) msgs so"
  shows "sendResponse alive mid (Some so') uuid nodeID data =
    (if alive (bf_frontService fac) then [SendResponse (bf_frontService fac) uuid mid nodeID data] else [])"
proof -
  have "so_sendResponseHandler so' = so_sendResponseHandler so"
    unfolding assms(2) by (induction msgs arbitrary: so) (auto simp: notify_services)
  then show ?thesis
    by (simp add: assms(1) sendResponse_def callResponseHandler_def initObject_def initSendResponseHandler_def factoryCreate_def newConfigServices_def)
qed

text \<open>A module fresh from the factory is well-formed once it is initialised with a chain height.\<close>

lemma initObject_wf: "height (lc_blockNumber lc) \<Longrightarrow> bs_wf (so_module (initObject F genesisHash lc (factoryCreate F mk fac)))"
  by (simp add: initObject_def initSendResponseHandler_def factoryCreate_def bs_wf_init)

end
