(* ===== verification/LockOrder.thy ===== *)
theory LockOrder
  imports EventSystem
begin

text \<open>
  Threads that take locks. A lock is taken shared, upgradable or exclusive for the scope of a
  guard, an upgradable guard may be promoted inside its scope, and the guards of a thread end in
  the opposite order of their beginning. The program of a thread is here the list of what it does to
  locks. As in \<^verbatim>\<open>boost::shared_mutex\<close>, no lock may be taken twice by a thread in conflicting modes, and a
  thread that waits for exclusive access keeps new readers out. If every program takes locks only
  in the order of a rank, no set of threads can block itself.
\<close>

section \<open>Locks and guards\<close>

datatype mode = Shared | Upgradable | Exclusive

fun compatible_modes :: "mode \<Rightarrow> mode \<Rightarrow> bool" where
  "compatible_modes Shared m = (m \<noteq> Exclusive)"
| "compatible_modes Upgradable m = (m = Shared)"
| "compatible_modes Exclusive m = False"

datatype 'l lock_action = Take mode 'l | Promote 'l | Drop 'l

text \<open>A thread: the guards it holds, the innermost first, and what it still has to do.\<close>

type_synonym 'l locker = "('l \<times> mode) list \<times> 'l lock_action list"

definition guarded_by :: "mode \<Rightarrow> 'l \<Rightarrow> 'l lock_action list \<Rightarrow> 'l lock_action list" where
  "guarded_by m l body = Take m l # body @ [Drop l]"

fun act :: "'l lock_action \<Rightarrow> ('l \<times> mode) list \<Rightarrow> ('l \<times> mode) list" where
  "act (Take m l) held = (l, m) # held"
| "act (Promote l) held = (l, Exclusive) # tl held"
| "act (Drop l) held = tl held"

fun wants_exclusive :: "'l \<Rightarrow> 'l lock_action list \<Rightarrow> bool" where
  "wants_exclusive l (Take m l' # _) = (l' = l \<and> m \<noteq> Shared)"
| "wants_exclusive l (Promote l' # _) = (l' = l)"
| "wants_exclusive l _ = False"

text \<open>Whether thread \<open>i\<close> may go on with an action.\<close>

fun granted :: "'l locker list \<Rightarrow> nat \<Rightarrow> 'l lock_action \<Rightarrow> bool" where
  "granted ts i (Take m l) =
     ((\<forall>t \<in> set ts. \<forall>m'. (l, m') \<in> set (fst t) \<longrightarrow> compatible_modes m m') \<and>
      (m = Shared \<longrightarrow> (\<forall>t \<in> set ts. \<not> wants_exclusive l (snd t))))"
| "granted ts i (Promote l) = (\<forall>j < length ts. j \<noteq> i \<longrightarrow> l \<notin> fst ` set (fst (ts ! j)))"
| "granted ts i (Drop l) = True"

inductive lock_turn :: "'l locker list \<Rightarrow> nat \<Rightarrow> 'l locker list \<Rightarrow> bool" where
  "i < length ts \<Longrightarrow> ts ! i = (held, a # as) \<Longrightarrow> granted ts i a \<Longrightarrow> lock_turn ts i (ts[i := (act a held, as)])"

inductive_cases lock_turnE: "lock_turn ts i ts'"

section \<open>Taking locks in order\<close>

fun orderly :: "('l \<Rightarrow> nat) \<Rightarrow> ('l \<times> mode) list \<Rightarrow> 'l lock_action list \<Rightarrow> bool" where
  "orderly rank held [] = (held = [])"
| "orderly rank held (Take m l # as) = ((\<forall>h \<in> set held. rank (fst h) < rank l) \<and> orderly rank ((l, m) # held) as)"
| "orderly rank held (Promote l # as) =
     (held \<noteq> [] \<and> hd held = (l, Upgradable) \<and> orderly rank ((l, Exclusive) # tl held) as)"
| "orderly rank held (Drop l # as) = (held \<noteq> [] \<and> fst (hd held) = l \<and> orderly rank (tl held) as)"

text \<open>A piece of program that takes only locks above \<open>r\<close> and gives back what it takes.\<close>

definition above :: "('l \<Rightarrow> nat) \<Rightarrow> nat \<Rightarrow> 'l lock_action list \<Rightarrow> bool" where
  "above rank r as \<longleftrightarrow> (\<forall>held rest. (\<forall>h \<in> set held. rank (fst h) \<le> r) \<longrightarrow> orderly rank held rest \<longrightarrow> orderly rank held (as @ rest))"

lemma above_Nil [simp, intro]: "above rank r []"
  by (simp add: above_def)

lemma above_append [simp, intro]: "above rank r as \<Longrightarrow> above rank r bs \<Longrightarrow> above rank r (as @ bs)"
  by (simp add: above_def)

lemma above_concat [intro]: "(\<And>as. as \<in> set ass \<Longrightarrow> above rank r as) \<Longrightarrow> above rank r (concat ass)"
  by (induction ass) auto

lemma above_if [simp, intro]: "(b \<Longrightarrow> above rank r as) \<Longrightarrow> (\<not> b \<Longrightarrow> above rank r bs) \<Longrightarrow> above rank r (if b then as else bs)"
  by simp

lemma above_guarded_by [intro]:
  assumes "above rank (rank l) as" "r < rank l"
  shows "above rank r (guarded_by m l as)"
  unfolding above_def guarded_by_def
proof (intro allI impI)
  fix held rest assume held: "\<forall>h \<in> set held. rank (fst h) \<le> r" and rest: "orderly rank held rest"
  have "orderly rank ((l, m) # held) (as @ Drop l # rest)"
    using assms rest held unfolding above_def by (fastforce dest: spec [of _ "(l, m) # held"])
  then show "orderly rank held ((Take m l # as @ [Drop l]) @ rest)" using held assms(2) by fastforce
qed

lemma above_promoted [intro]:
  assumes "above rank (rank l) as" "r < rank l"
  shows "above rank r (guarded_by Upgradable l (Promote l # as))"
  unfolding above_def guarded_by_def
proof (intro allI impI)
  fix held rest assume held: "\<forall>h \<in> set held. rank (fst h) \<le> r" and rest: "orderly rank held rest"
  have "orderly rank ((l, Exclusive) # held) (as @ Drop l # rest)"
    using assms rest held unfolding above_def by (fastforce dest: spec [of _ "(l, Exclusive) # held"])
  then show "orderly rank held ((Take Upgradable l # (Promote l # as) @ [Drop l]) @ rest)" using held assms(2) by fastforce
qed

section \<open>No deadlock\<close>

definition lockers_ok :: "('l \<Rightarrow> nat) \<Rightarrow> 'l locker list \<Rightarrow> bool" where
  "lockers_ok rank ts \<longleftrightarrow>
     (\<forall>t \<in> set ts. orderly rank (fst t) (snd t) \<and> sorted_wrt (\<lambda>g h. rank (fst h) < rank (fst g)) (fst t)) \<and>
     (\<forall>i j l m m'. i < length ts \<longrightarrow> j < length ts \<longrightarrow> i \<noteq> j \<longrightarrow> (l, m) \<in> set (fst (ts ! i)) \<longrightarrow> (l, m') \<in> set (fst (ts ! j)) \<longrightarrow>
        compatible_modes m m')"

lemma compatible_modes_sym: "compatible_modes m m' \<longleftrightarrow> compatible_modes m' m"
  by (cases m; cases m') auto

lemma own_step:
  assumes "orderly rank held (a # as)" "sorted_wrt (\<lambda>g h. rank (fst h) < rank (fst g)) held"
  shows "orderly rank (act a held) as \<and> sorted_wrt (\<lambda>g h. rank (fst h) < rank (fst g)) (act a held)"
  using assms by (cases a; cases held) auto

lemma lock_turn_ok:
  assumes ok: "lockers_ok rank ts" and turn: "lock_turn ts i ts'"
  shows "lockers_ok rank ts'"
proof -
  obtain held a as where i: "i < length ts" "ts ! i = (held, a # as)" "granted ts i a" and ts': "ts' = ts[i := (act a held, as)]"
    using turn by (auto elim: lock_turnE)
  have own: "\<And>t. t \<in> set ts \<Longrightarrow> orderly rank (fst t) (snd t) \<and> sorted_wrt (\<lambda>g h. rank (fst h) < rank (fst g)) (fst t)"
    and ex: "\<And>i j l m m'. i < length ts \<Longrightarrow> j < length ts \<Longrightarrow> i \<noteq> j \<Longrightarrow> (l, m) \<in> set (fst (ts ! i)) \<Longrightarrow> (l, m') \<in> set (fst (ts ! j)) \<Longrightarrow>
      compatible_modes m m'"
    using ok unfolding lockers_ok_def by blast+
  have o: "orderly rank held (a # as)" "sorted_wrt (\<lambda>g h. rank (fst h) < rank (fst g)) held"
    using own [OF nth_mem [OF i(1)]] i(2) by simp_all
  have new: "compatible_modes m m'" if "j < length ts" "j \<noteq> i" "(l, m) \<in> set (act a held)" "(l, m') \<in> set (fst (ts ! j))" for j l m m'
  proof (cases "(l, m) \<in> set held")
    case True
    then show ?thesis using ex [OF i(1) that(1), of l m m'] that i(2) by simp
  next
    case False
    then show ?thesis using that i(3) o(1) nth_mem [OF that(1)] by (cases a; cases held) (force dest: list.set_sel)+
  qed
  have "orderly rank (fst t) (snd t) \<and> sorted_wrt (\<lambda>g h. rank (fst h) < rank (fst g)) (fst t)" if "t \<in> set ts'" for t
    using that own own_step [OF o] set_update_subset_insert [of ts i "(act a held, as)"] unfolding ts' by fastforce
  moreover have "compatible_modes m m'"
    if "p < length ts'" "q < length ts'" "p \<noteq> q" "(l, m) \<in> set (fst (ts' ! p))" "(l, m') \<in> set (fst (ts' ! q))" for p q l m m'
    using that new [of p l m' m] new [of q l m m'] ex [of p q l m m'] i(1) compatible_modes_sym
    unfolding ts' by (auto simp: nth_list_update split: if_splits)
  ultimately show ?thesis unfolding lockers_ok_def by blast
qed

text \<open>The lock a thread waits for, if its next action is to take or promote one.\<close>

fun awaited :: "'l locker \<Rightarrow> 'l option" where
  "awaited (_, Take m l # _) = Some l"
| "awaited (_, Promote l # _) = Some l"
| "awaited _ = None"

lemma holder_waits_above:
  assumes ok: "orderly rank (fst t) (snd t)" "sorted_wrt (\<lambda>g h. rank (fst h) < rank (fst g)) (fst t)"
    and l: "(l, m) \<in> set (fst t)" and wait: "awaited t = Some l'"
  shows "rank l < rank l' \<or> (l = l' \<and> m = Upgradable \<and> (\<exists>as. snd t = Promote l # as))"
proof -
  obtain held as where t: "t = (held, as)" by (cases t)
  show ?thesis
  proof (cases as)
    case (Cons a as')
    then show ?thesis using assms t by (cases a; cases held) (auto simp: sorted_wrt_append)
  qed (use wait t in simp)
qed

lemma blocked_awaits:
  assumes "\<And>i ts'. \<not> lock_turn ts i ts'" "t \<in> set ts" "snd t \<noteq> []"
  obtains i a as where "i < length ts" "t = ts ! i" "snd t = a # as" "\<not> granted ts i a" "awaited t \<noteq> None"
proof -
  obtain i where i: "i < length ts" "t = ts ! i" using assms(2) by (auto simp: in_set_conv_nth)
  obtain held a as where t: "t = (held, a # as)" using assms(3) by (cases t; cases "snd t") auto
  have ng: "\<not> granted ts i a" using assms(1) lock_turn.intros [OF i(1)] i(2) t by metis
  then have "awaited t \<noteq> None" using t by (cases a) auto
  moreover have "snd t = a # as" by (simp add: t)
  ultimately show thesis using that [OF i] ng by blast
qed

lemma highest_awaited_unheld:
  assumes ok: "lockers_ok rank ts" and stuck: "\<And>i ts'. \<not> lock_turn ts i ts'"
    and high: "\<And>t l'. t \<in> set ts \<Longrightarrow> awaited t = Some l' \<Longrightarrow> rank l' \<le> rank l"
    and t: "t \<in> set ts"
  shows "(l, m) \<notin> set (fst t)"
proof
  assume h: "(l, m) \<in> set (fst t)"
  have own: "\<And>t. t \<in> set ts \<Longrightarrow> orderly rank (fst t) (snd t) \<and> sorted_wrt (\<lambda>g h. rank (fst h) < rank (fst g)) (fst t)"
    using ok unfolding lockers_ok_def by blast
  have promotes: "m = Upgradable \<and> (\<exists>i as. i < length ts \<and> ts ! i = t \<and> snd t = Promote l # as \<and> \<not> granted ts i (Promote l))"
    if t: "t \<in> set ts" and h: "(l, m) \<in> set (fst t)" for t m
  proof -
    have "snd t \<noteq> []" using own [OF t] h by auto
    then obtain i a as l' where i: "i < length ts" "t = ts ! i" "snd t = a # as" "\<not> granted ts i a" "awaited t = Some l'"
      using blocked_awaits [OF stuck t] by (metis option.exhaust)
    then show ?thesis
      using holder_waits_above [OF conjunct1 [OF own [OF t]] conjunct2 [OF own [OF t]] h i(5)] high [OF t i(5)] by auto
  qed
  from promotes [OF t h] obtain i where i: "m = Upgradable" "i < length ts" "ts ! i = t" "\<not> granted ts i (Promote l)" by blast
  then obtain j m' where j: "j < length ts" "j \<noteq> i" "(l, m') \<in> set (fst (ts ! j))" by auto
  then have "m' = Upgradable" using promotes [of "ts ! j" m'] by simp
  moreover have "compatible_modes m m'" using ok h i j unfolding lockers_ok_def by metis
  ultimately show False using i(1) by simp
qed

lemma lock_progress:
  assumes ok: "lockers_ok rank ts" and t: "t \<in> set ts" "snd t \<noteq> []"
  shows "\<exists>i ts'. lock_turn ts i ts'"
proof (rule ccontr)
  assume "\<nexists>i ts'. lock_turn ts i ts'"
  then have stuck: "\<And>i ts'. \<not> lock_turn ts i ts'" by blast
  let ?W = "{l. \<exists>t \<in> set ts. awaited t = Some l}"
  have fin: "finite ?W" by (rule finite_subset [of _ "(\<lambda>t. the (awaited t)) ` set ts"]) force+
  obtain l0 where "l0 \<in> ?W" using blocked_awaits [OF stuck t] t by blast
  then obtain l where l: "l \<in> ?W" "rank l = Max (rank ` ?W)" using Max_in [of "rank ` ?W"] fin by fastforce
  then have high: "rank l' \<le> rank l" if "t \<in> set ts" "awaited t = Some l'" for t l'
    using that fin by (simp add: l(2)) (rule Max_ge, auto)
  have free: "(l, m) \<notin> set (fst t)" if "t \<in> set ts" for t m
    by (rule highest_awaited_unheld [OF ok stuck high that])
  have taker: "\<exists>m as. snd t = Take m l # as" if "t \<in> set ts" "awaited t = Some l \<or> wants_exclusive l (snd t)" for t
  proof -
    obtain held as where th: "t = (held, as)" by (cases t)
    have "orderly rank held as" using ok that(1) th unfolding lockers_ok_def by fastforce
    then show ?thesis using that free [OF that(1)] th
      by (cases "(l, as)" rule: wants_exclusive.cases; cases held) auto
  qed
  have wait: "m = Shared \<and> (\<exists>u \<in> set ts. wants_exclusive l (snd u))" if t: "t \<in> set ts" and a: "snd t = Take m l # as" for t m as
  proof -
    have "snd t \<noteq> []" using a by simp
    then obtain i where "\<not> granted ts i (Take m l)" using blocked_awaits [OF stuck t] a by (metis list.inject)
    then show ?thesis using free by auto
  qed
  obtain t where "t \<in> set ts" "awaited t = Some l" using l(1) by blast
  then obtain m as where "snd t = Take m l # as" using taker by blast
  then obtain u where u: "u \<in> set ts" "wants_exclusive l (snd u)" using wait [OF \<open>t \<in> set ts\<close>] by blast
  then obtain m' as' where "snd u = Take m' l # as'" using taker by blast
  then show False using wait [OF u(1)] u(2) by auto
qed

lemma lock_turn_shorter: "lock_turn ts i ts' \<Longrightarrow>
  sum_list (map (\<lambda>t. length (snd t)) ts') < sum_list (map (\<lambda>t. length (snd t)) ts) \<and> length ts' = length ts"
proof (elim lock_turnE)
  fix held a as
  assume i: "i < length ts" "ts ! i = (held, a # as)" and ts': "ts' = ts[i := (act a held, as)]"
  have "sum_list (map (\<lambda>t. length (snd t)) ts) = Suc (sum_list (map (\<lambda>t. length (snd t)) ts'))"
    unfolding ts' by (subst (1) id_take_nth_drop [OF i(1)]) (simp add: i upd_conv_take_nth_drop)
  then show ?thesis by (simp add: ts')
qed

lemma lock_run_length:
  "run lock_turn ts is ts' \<Longrightarrow> length is + sum_list (map (\<lambda>t. length (snd t)) ts') \<le> sum_list (map (\<lambda>t. length (snd t)) ts)"
proof (induction rule: run.induct)
  case (run_Cons s e s' es s'')
  then show ?case using lock_turn_shorter [OF run_Cons.hyps(1)] by simp
qed simp

text \<open>
  The contract of a program that uses locks, as the lock actions of each of its calls: every call
  takes locks in the order of \<open>rank\<close>. Then any number of concurrent calls come to an end.
\<close>

locale lock_discipline =
  fixes rank :: "'l \<Rightarrow> nat" and locks :: "'e \<Rightarrow> 'l lock_action list"
  assumes in_order: "above rank 0 (locks e)"
begin

lemma begin_ok: "lockers_ok rank (map (\<lambda>e. ([], locks e)) es)"
proof -
  have "orderly rank [] (locks e)" for e 
    using in_order [of e, unfolded above_def, rule_format, of "[]" "[]"] by simp
  then show ?thesis by (auto simp: lockers_ok_def)
qed

lemma run_ok: "run lock_turn ts is ts' \<Longrightarrow> lockers_ok rank ts \<Longrightarrow> lockers_ok rank ts'"
  by (induction rule: run.induct) (auto intro: lock_turn_ok)

lemma never_deadlocks:
  assumes "run lock_turn (map (\<lambda>e. ([], locks e)) es) is ts"
  shows "length is \<le> sum_list (map (length \<circ> locks) es)" "(\<forall>i ts'. \<not> lock_turn ts i ts') \<longleftrightarrow> (\<forall>t \<in> set ts. t = ([], []))"
proof -
  show "length is \<le> sum_list (map (length \<circ> locks) es)" using lock_run_length [OF assms] by (simp add: o_def)
  have ok: "lockers_ok rank ts" by (rule run_ok [OF assms begin_ok])
  then have fin: "t = ([], [])" if "t \<in> set ts" "snd t = []" for t
    using that by (cases t) (auto simp: lockers_ok_def)
  show "(\<forall>i ts'. \<not> lock_turn ts i ts') \<longleftrightarrow> (\<forall>t \<in> set ts. t = ([], []))"
  proof
    show "\<forall>t \<in> set ts. t = ([], [])" if "\<forall>i ts'. \<not> lock_turn ts i ts'" using that lock_progress [OF ok] fin by blast
    show "\<forall>i ts'. \<not> lock_turn ts i ts'" if "\<forall>t \<in> set ts. t = ([], [])"
      using that by (auto elim!: lock_turnE dest!: nth_mem)
  qed
qed

end

end
