(* ===== verification/ModuleLocks.thy ===== *)
theory ModuleLocks
  imports LockOrder SyncPrelude
begin

text \<open>
  The locks of the module. For each call that enters it, from the front service, the consensus module,
  a callback, the worker or one of its two task pools, the theory lists what the call does to the
  locks of the downloading queue, the configuration, the peer table, a peer and its request queue.
  What decides between the branches of a call, and how often its loops run, are arguments, so
  each list covers every path; where the number of calls of \<^verbatim>\<open>top()\<close> depends on the path, it is an argument, too.
  The services called with a lock held answer later or from another thread, and the framework's own
  locks are left out.
\<close>

section \<open>The locks\<close>

datatype sync_lock =
  BlockBuffer
| Blocks
| CommitQueue
| ConfigMutex
| PeersStatus
| PeerMutex nat
| ReqQueue nat
| ConfigHash
| KnownHash

type_synonym locking = "sync_lock lock_action list"

text \<open>The order in which they nest.\<close>

fun lock_rank :: "sync_lock \<Rightarrow> nat" where
  "lock_rank BlockBuffer = 1"
| "lock_rank Blocks = 2"
| "lock_rank CommitQueue = 1"
| "lock_rank ConfigMutex = 1"
| "lock_rank PeersStatus = 1"
| "lock_rank (PeerMutex _) = 2"
| "lock_rank (ReqQueue _) = 2"
| "lock_rank ConfigHash = 3"
| "lock_rank KnownHash = 3"

section \<open>DownloadingQueue\<close>

definition lk_push :: "bool \<Rightarrow> locking" where
  "lk_push stored = guarded_by Upgradable BlockBuffer (if stored then [Promote BlockBuffer] else [])"

definition lk_size :: locking where
  "lk_size = guarded_by Shared BlockBuffer (guarded_by Shared Blocks [])"

definition lk_pop :: locking where
  "lk_pop = guarded_by Exclusive Blocks []"

definition lk_top :: locking where
  "lk_top = guarded_by Shared Blocks []"

definition lk_clearQueue :: locking where
  "lk_clearQueue = guarded_by Exclusive Blocks []"

definition lk_clear :: locking where
  "lk_clear = guarded_by Exclusive BlockBuffer [] @ lk_clearQueue"

definition lk_flushOneShard :: locking where
  "lk_flushOneShard = guarded_by Exclusive Blocks []"

definition lk_flushBufferToQueue :: "nat \<Rightarrow> locking" where
  "lk_flushBufferToQueue packets = guarded_by Exclusive BlockBuffer (concat (replicate packets lk_flushOneShard))"

definition lk_clearFullQueueIfNotHas :: "bool \<Rightarrow> locking" where
  "lk_clearFullQueueIfNotHas needClear = guarded_by Shared Blocks [] @ (if needClear then lk_clearQueue else [])"

definition lk_commitQueueSize :: locking where
  "lk_commitQueueSize = guarded_by Shared CommitQueue []"

definition lk_tryToCommitBlockToLedger :: locking where
  "lk_tryToCommitBlockToLedger = guarded_by Exclusive CommitQueue []"

definition lk_updateCommitQueue :: locking where
  "lk_updateCommitQueue = guarded_by Exclusive CommitQueue [] @ lk_tryToCommitBlockToLedger"

definition lk_clearExpiredQueueCache :: locking where
  "lk_clearExpiredQueueCache = guarded_by Exclusive Blocks [] @ guarded_by Exclusive CommitQueue []"

section \<open>BlockSyncConfig\<close>

definition lk_hash :: locking where
  "lk_hash = guarded_by Shared ConfigHash []"

definition lk_setHash :: locking where
  "lk_setHash = guarded_by Exclusive ConfigHash []"

definition lk_knownLatestHash :: locking where
  "lk_knownLatestHash = guarded_by Shared KnownHash []"

definition lk_setKnownLatestHash :: locking where
  "lk_setKnownLatestHash = guarded_by Exclusive KnownHash []"

definition lk_setGenesisHash :: "bool \<Rightarrow> locking" where
  "lk_setGenesisHash unset = lk_knownLatestHash @ (if unset then lk_setKnownLatestHash else [])"

definition lk_resetBlockInfo :: "bool \<Rightarrow> locking" where
  "lk_resetBlockInfo raises = lk_setHash @ (if raises then lk_setKnownLatestHash else [])"

text \<open>The two tests of \<^verbatim>\<open>resetConfig\<close>, and whether the known height is raised.\<close>

type_synonym reset_path = "bool \<times> bool \<times> bool"

fun lk_resetConfig :: "reset_path \<Rightarrow> locking" where
  "lk_resetConfig (stale, staleAgain, raises) =
     (if stale then [] else guarded_by Exclusive ConfigMutex (if staleAgain then [] else lk_resetBlockInfo raises))"

section \<open>SyncPeerStatus and DownloadRequestQueue\<close>

definition lk_number :: "nat \<Rightarrow> locking" where
  "lk_number p = guarded_by Shared (PeerMutex p) []"

definition lk_update :: "nat \<Rightarrow> bool \<Rightarrow> locking" where
  "lk_update p changed = guarded_by Upgradable (PeerMutex p) (if changed then [Promote (PeerMutex p)] else [])"

definition lk_updateKnownMaxBlockInfo :: "bool \<Rightarrow> locking" where
  "lk_updateKnownMaxBlockInfo raises = (if raises then lk_setKnownLatestHash else [])"

text \<open>A status packet: of another chain or not, the peer if it is in the table and whether it changes, whether the known height is raised.\<close>

type_synonym update_path = "bool \<times> (nat \<times> bool) option \<times> bool"

fun lk_updatePeerStatus :: "update_path \<Rightarrow> locking" where
  "lk_updatePeerStatus (foreign, known, raises) = guarded_by Exclusive PeersStatus
     (if foreign then []
      else case known of
        Some (p, changed) \<Rightarrow> lk_update p changed @ (if changed then lk_updateKnownMaxBlockInfo raises else [])
      | None \<Rightarrow> lk_updateKnownMaxBlockInfo raises)"

definition lk_peerStatus :: locking where
  "lk_peerStatus = guarded_by Shared PeersStatus []"

definition lk_insertEmptyPeer :: locking where
  "lk_insertEmptyPeer = guarded_by Exclusive PeersStatus []"

definition lk_deletePeer :: locking where
  "lk_deletePeer = guarded_by Exclusive PeersStatus []"

definition lk_peers :: locking where
  "lk_peers = guarded_by Shared PeersStatus []"

definition lk_foreachPeer :: "locking list \<Rightarrow> locking" where
  "lk_foreachPeer visits = guarded_by Shared PeersStatus (concat visits)"

definition lk_drq_push :: "nat \<Rightarrow> bool \<Rightarrow> locking" where
  "lk_drq_push p stored = guarded_by Upgradable (ReqQueue p) (if stored then [Promote (ReqQueue p)] else [])"

definition lk_topAndPop :: "nat \<Rightarrow> locking" where
  "lk_topAndPop p = guarded_by Exclusive (ReqQueue p) []"

definition lk_drq_empty :: "nat \<Rightarrow> locking" where
  "lk_drq_empty p = guarded_by Shared (ReqQueue p) []"

section \<open>BlockSync\<close>

definition lk_onNewBlock :: "reset_path \<Rightarrow> nat \<Rightarrow> locking" where
  "lk_onNewBlock reset receivers = lk_resetConfig reset @ concat (replicate receivers lk_hash) @ lk_clearExpiredQueueCache"

definition lk_asyncNotifyNewBlock :: "bool \<Rightarrow> reset_path \<Rightarrow> nat \<Rightarrow> locking" where
  "lk_asyncNotifyNewBlock newer reset receivers =
     (if newer then lk_onNewBlock reset receivers @ lk_tryToCommitBlockToLedger else [])"

definition lk_finalizeBlock :: "reset_path \<Rightarrow> nat \<Rightarrow> locking" where
  "lk_finalizeBlock reset receivers = lk_onNewBlock reset receivers @ lk_tryToCommitBlockToLedger"

text \<open>The peer of a block request: known before, or inserted because it belongs to the group, or neither.\<close>

definition lk_onPeerBlocksRequest :: "nat option \<Rightarrow> nat option \<Rightarrow> bool \<Rightarrow> locking" where
  "lk_onPeerBlocksRequest known inserted stored =
     (case known of
        Some p \<Rightarrow> lk_peerStatus @ lk_drq_push p stored
      | None \<Rightarrow> (case inserted of
          Some p \<Rightarrow> lk_peerStatus @ lk_insertEmptyPeer @ lk_drq_push p stored
        | None \<Rightarrow> lk_peerStatus))"

definition lk_maintainDownloadingBuffer :: "bool \<Rightarrow> bool \<Rightarrow> bool \<Rightarrow> nat \<Rightarrow> locking" where
  "lk_maintainDownloadingBuffer nothing syncing needClear packets =
     lk_size @ (if nothing then []
       else if \<not> syncing then lk_clear
       else lk_clearFullQueueIfNotHas needClear @ lk_flushBufferToQueue packets)"

definition lk_maintainDownloadingQueue :: "bool \<Rightarrow> nat \<Rightarrow> nat \<Rightarrow> bool \<Rightarrow> locking" where
  "lk_maintainDownloadingQueue syncing expired tops taken =
     (if \<not> syncing then lk_clear
      else lk_tryToCommitBlockToLedger @ concat (replicate expired (lk_top @ lk_top @ lk_pop)) @
        concat (replicate tops lk_top) @ (if taken then lk_pop else []))"

text \<open>For each round of \<^verbatim>\<open>requestBlocks\<close> the peers visited, and whether the number of each is read a second time.\<close>

definition lk_requestBlocks :: "(nat \<times> bool) list list \<Rightarrow> locking" where
  "lk_requestBlocks rounds = concat (map (\<lambda>ps. lk_foreachPeer (map (\<lambda>(p, again). lk_number p @ (if again then lk_number p else [])) ps)) rounds)"

definition lk_tryToRequestBlocks :: "bool \<Rightarrow> bool \<Rightarrow> (nat \<times> bool) list list \<Rightarrow> locking" where
  "lk_tryToRequestBlocks ahead asks rounds =
     (if ahead then lk_commitQueueSize else []) @ (if asks then lk_top @ lk_requestBlocks rounds else [])"

text \<open>For each peer how many ranges are taken from its request queue.\<close>

definition lk_maintainBlockRequest :: "(nat \<times> nat) list \<Rightarrow> locking" where
  "lk_maintainBlockRequest ps = lk_foreachPeer (map (\<lambda>(p, ranges). lk_drq_empty p @
     (if ranges = 0 then [] else concat (replicate ranges (lk_drq_empty p @ lk_topAndPop p)) @ lk_drq_empty p)) ps)"

definition lk_maintainPeersConnection :: "(nat \<times> bool) list \<Rightarrow> nat \<Rightarrow> update_path list \<Rightarrow> locking" where
  "lk_maintainPeersConnection ps deleted nodes =
     lk_foreachPeer (map (\<lambda>(p, outsider). if outsider then lk_number p else []) ps) @
     concat (replicate deleted lk_deletePeer) @ concat (map (\<lambda>u. lk_hash @ lk_updatePeerStatus u) nodes)"

definition lk_printSyncInfo :: locking where
  "lk_printSyncInfo = lk_peers @ lk_hash"

definition lk_asyncGetSyncInfo :: "nat list \<Rightarrow> locking" where
  "lk_asyncGetSyncInfo ps = lk_hash @ lk_knownLatestHash @ lk_foreachPeer (map (\<lambda>p. lk_number p @ lk_number p @ lk_number p) ps)"

section \<open>The calls that enter the module\<close>

datatype sync_entry =
  LkInit bool reset_path
| LkStatus bool update_path
| LkBlocks bool
| LkRequest "nat option" "nat option" bool
| LkNewBlock bool reset_path nat
| LkExecuted bool
| LkChecked
| LkStored
| LkCommitted bool reset_path nat
| LkBlockData bool nat bool
| LkDownload "bool \<times> bool \<times> bool \<times> nat" "bool \<times> nat \<times> nat \<times> bool" "bool \<times> bool \<times> (nat \<times> bool) list list"
| LkSend "(nat \<times> nat) list"
| LkWorker bool bool "(nat \<times> bool) list" nat "update_path list"
| LkSyncInfo "nat list"

fun entry_locks :: "sync_entry \<Rightarrow> locking" where
  "entry_locks (LkInit unset reset) = lk_setGenesisHash unset @ lk_resetConfig reset"
| "entry_locks (LkStatus rejected u) = (if rejected then [] else lk_updatePeerStatus u)"
| "entry_locks (LkBlocks stored) = lk_push stored"
| "entry_locks (LkRequest known inserted stored) = lk_onPeerBlocksRequest known inserted stored"
| "entry_locks (LkNewBlock newer reset n) = lk_asyncNotifyNewBlock newer reset n"
| "entry_locks (LkExecuted verified) = (if verified then lk_updateCommitQueue else [])"
| "entry_locks LkChecked = []"
| "entry_locks LkStored = []"
| "entry_locks (LkCommitted ok reset n) = (if ok then lk_finalizeBlock reset n else [])"
| "entry_locks (LkBlockData failed p stored) = (if failed then lk_drq_push p stored else [])"
| "entry_locks (LkDownload (nothing, syncing, needClear, packets) (syncing', expired, tops, taken) (ahead, asks, rounds)) =
     lk_maintainDownloadingBuffer nothing syncing needClear packets @ lk_maintainDownloadingQueue syncing' expired tops taken @
     lk_tryToRequestBlocks ahead asks rounds"
| "entry_locks (LkSend ps) = lk_maintainBlockRequest ps"
| "entry_locks (LkWorker syncing inGroup ps deleted nodes) =
     (if syncing then lk_printSyncInfo else []) @ (if inGroup then lk_maintainPeersConnection ps deleted nodes else [])"
| "entry_locks (LkSyncInfo ps) = lk_asyncGetSyncInfo ps"

lemmas lock_defs =
  lk_push_def lk_size_def lk_pop_def lk_top_def lk_clearQueue_def lk_clear_def lk_flushOneShard_def lk_flushBufferToQueue_def
  lk_clearFullQueueIfNotHas_def lk_commitQueueSize_def lk_tryToCommitBlockToLedger_def lk_updateCommitQueue_def
  lk_clearExpiredQueueCache_def lk_hash_def lk_setHash_def lk_knownLatestHash_def lk_setKnownLatestHash_def lk_setGenesisHash_def
  lk_resetBlockInfo_def lk_number_def lk_update_def lk_updateKnownMaxBlockInfo_def lk_peerStatus_def lk_insertEmptyPeer_def
  lk_deletePeer_def lk_peers_def lk_foreachPeer_def lk_drq_push_def lk_topAndPop_def lk_drq_empty_def lk_onNewBlock_def
  lk_asyncNotifyNewBlock_def lk_finalizeBlock_def lk_onPeerBlocksRequest_def lk_maintainDownloadingBuffer_def
  lk_maintainDownloadingQueue_def lk_requestBlocks_def lk_tryToRequestBlocks_def lk_maintainBlockRequest_def
  lk_maintainPeersConnection_def lk_printSyncInfo_def lk_asyncGetSyncInfo_def

lemma above_guard [simp]:
  "above lock_rank (lock_rank l) as \<Longrightarrow> r < lock_rank l \<Longrightarrow> above lock_rank r (guarded_by m l as)"
  "r < lock_rank l \<Longrightarrow> above lock_rank r (guarded_by Upgradable l [Promote l])"
  by (auto intro: above_guarded_by above_promoted)

lemma above_replicate [simp]: "above rank r as \<Longrightarrow> above rank r (concat (replicate n as))"
  by (rule above_concat) simp

lemma above_map [simp]: "(\<And>x. above rank r (f x)) \<Longrightarrow> above rank r (concat (map f xs))"
  by (rule above_concat) auto

lemma above_resetConfig [simp]: "r = 0 \<Longrightarrow> above lock_rank r (lk_resetConfig p)"
  by (cases p) (simp add: lock_defs)

lemma above_updatePeerStatus [simp]: "r = 0 \<Longrightarrow> above lock_rank r (lk_updatePeerStatus u)"
  by (cases u) (simp add: lock_defs split: option.split)

lemma entries_in_order: "above lock_rank 0 (entry_locks e)"
  by (cases e rule: entry_locks.cases) (simp_all add: lock_defs split: option.split prod.split)

interpretation module_locks: lock_discipline lock_rank entry_locks
  by unfold_locales (rule entries_in_order)

text \<open>
  What the order relies on: an answer that comes while the lock is still held blocks its own thread. If the
  consensus module answered inside \<^verbatim>\<open>asyncCheckBlock\<close>, and the transaction pool and the scheduler likewise, \<^verbatim>\<open>finalizeBlock\<close> would
  ask for \<^verbatim>\<open>x_commitQueue\<close> again.
\<close>

lemma own_lock_blocks: "(l, Exclusive) \<in> set held \<Longrightarrow> \<not> lock_turn [(held, Take m l # as)] i ts"
  by (cases m) (auto elim!: lock_turnE)

lemma commit_answered_inside:
  "\<not> orderly lock_rank [] (guarded_by Exclusive CommitQueue (lk_finalizeBlock (True, staleAgain, raises) 0))"
  "\<exists>is held as. run lock_turn [([], guarded_by Exclusive CommitQueue (lk_finalizeBlock (True, staleAgain, raises) 0))] is [(held, as)] \<and>
     as \<noteq> [] \<and> (\<forall>i ts. \<not> lock_turn [(held, as)] i ts)"
proof -
  let ?as = "guarded_by Exclusive CommitQueue (lk_finalizeBlock (True, staleAgain, raises) 0)"
  have as: "?as = Take Exclusive CommitQueue # Take Exclusive Blocks # Drop Blocks # Take Exclusive CommitQueue #
      Drop CommitQueue # lk_tryToCommitBlockToLedger @ [Drop CommitQueue]" (is "_ = _ # _ # _ # ?rest")
    by (simp add: guarded_by_def lk_finalizeBlock_def lk_onNewBlock_def lk_clearExpiredQueueCache_def)
  show "\<not> orderly lock_rank [] ?as" unfolding as by simp
  have step: "lock_turn [(held, a # as)] 0 [(act a held, as)]" if "granted [(held, a # as)] 0 a" for held :: "(sync_lock \<times> mode) list" and a as
    using lock_turn.intros [of 0 "[(held, a # as)]" held a as] that by simp
  have "run lock_turn [([], ?as)] [0, 0, 0] [([(CommitQueue, Exclusive)], ?rest)]"
    unfolding as by (rule run_Cons, rule step, simp)+ (simp add: run_Nil)
  moreover have "\<not> lock_turn [([(CommitQueue, Exclusive)], ?rest)] i ts" for i ts by (rule own_lock_blocks) simp
  ultimately show "\<exists>is held as. run lock_turn [([], ?as)] is [(held, as)] \<and> as \<noteq> [] \<and> (\<forall>i ts. \<not> lock_turn [(held, as)] i ts)" by blast
qed

section \<open>Properties\<close>

text \<open>
  C16: the locks of the module never deadlock. Any number of calls may be in the module at once and go on in any order, with
  waiting writers keeping new readers out: the schedule is at most as long as the calls have lock
  actions, and when no thread can move, every call has returned and holds no lock.
\<close>

theorem locks_never_deadlock:
  assumes "run lock_turn (map (\<lambda>e. ([], entry_locks e)) es) is ts"
  shows "length is \<le> sum_list (map (length \<circ> entry_locks) es) \<and>
    ((\<forall>i ts'. \<not> lock_turn ts i ts') \<longleftrightarrow> (\<forall>t \<in> set ts. t = ([], [])))"
  using module_locks.never_deadlocks [OF assms] by blast

text \<open>A packet is stored, then a second one finds the buffer full.\<close>

definition demoEntries :: "sync_entry list" where
  "demoEntries = [LkBlocks True, LkBlocks False]"

lemma demo_lock_run: "run lock_turn (map (\<lambda>e. ([], entry_locks e)) demoEntries) [0, 0, 0, 1, 1] [([], []), ([], [])]"
  unfolding demoEntries_def
  by (auto simp: lk_push_def guarded_by_def lock_turn.simps nth_Cons' intro!: run.intros exI)

theorem locks_never_deadlock_witness:
  "length [0, 0, 0, 1, 1 :: nat] \<le> sum_list (map (length \<circ> entry_locks) demoEntries) \<and>
    (\<nexists>i ts'. lock_turn [([], []), ([], [] :: sync_lock lock_action list)] i ts')"
  using locks_never_deadlock [OF demo_lock_run] by simp

end
