(* ===== verification/SyncProgress.thy ===== *)
theory SyncProgress
  imports SyncSystem
begin

text \<open>
  Progress of a lagging node. A round is one run of \<^verbatim>\<open>maintainDownloadingQueue\<close> followed by the
  answers of the services to the calls it leads to, all of them successful; the lemmas
  compute what a round does to a node that has the next blocks in its queue.
\<close>

section \<open>One round\<close>

lemma maintainDownloadingQueue_executes:
  assumes wf: "bs_wf s" and ok: "heights_ok s" and sync: "shouldSyncing s" and wm: "0 < m_waterMark s"
    and idle: "m_commitQueue (m_downloadingQueue s) = []" "c_executedBlock (m_config s) = c_blockNumber (m_config s)"
    and b: "\<exists>b \<in> set (m_blocks (m_downloadingQueue s)). block_number b = c_blockNumber (m_config s) + 1"
  obtains b q where "b \<in> set (m_blocks (m_downloadingQueue s))" "block_number b = c_blockNumber (m_config s) + 1"
    "maintainDownloadingQueue s = emit (ExecuteBlock b) ((with_blocks q s)\<lparr>m_state := Downloading\<rparr>)"
    "add_mset b (mset q) = filter_mset (\<lambda>b. c_blockNumber (m_config s) < block_number b) (mset (m_blocks (m_downloadingQueue s)))"
proof -
  have heap: "blk_heap (m_blocks (m_downloadingQueue s))" using wf by (simp add: bs_wf_def dq_wf_def)
  have "tryToCommitBlockToLedger s = s" using idle(1) by (simp add: tryToCommitBlockToLedger_def)
  moreover obtain t where t: "pq_top (unexpired s) = Some t" "block_number t = c_blockNumber (m_config s) + 1"
    using next_on_top [OF heap, of "c_executedBlock (m_config s)"] b idle(2) by auto
  ultimately have "maintainDownloadingQueue s =
      emit (ExecuteBlock t) ((with_blocks (pq_pop BlockCmp (unexpired s)) s)\<lparr>m_state := Downloading\<rparr>)"
    using sync wm idle(2) heights_ok_i64 [OF wf ok]
    by (simp add: maintainDownloadingQueue_eq applyBlock_def Let_def)
  moreover have "t \<in> set (m_blocks (m_downloadingQueue s))"
    using pq_top_SomeD [OF t(1)] set_blk_pop_while [OF heap] by auto
  moreover have "add_mset t (mset (pq_pop BlockCmp (unexpired s))) =
      filter_mset (\<lambda>b. c_blockNumber (m_config s) < block_number b) (mset (m_blocks (m_downloadingQueue s)))"
    using blk.mset_top_pop [OF t(1)] mset_blk_pop_while [OF heap] idle(2) by simp
  ultimately show thesis using t(2) that by blast
qed

text \<open>The commit queue with the one block just executed, and that block leaving it.\<close>

lemma updateCommitQueue_single:
  assumes "m_commitQueue (m_downloadingQueue w) = []" "block_number b = c_nextBlock (m_config w)"
    "c_blockNumber (m_config w) < block_number b"
  shows "updateCommitQueue b w = emit (CheckBlock b) w"
proof -
  have "pop_while BlockCmp (\<lambda>x. block_number x \<le> c_blockNumber (m_config w)) [b] = [b]"
    using assms(3) by (simp add: pop_while.simps pq_top_def)
  with assms show ?thesis
    by (simp add: updateCommitQueue_def tryToCommitBlockToLedger_def checkAndCommitBlock_def pq_top_def emit_def)
qed


lemma tryToCommit_idle: "m_commitQueue (m_downloadingQueue w) = [] \<Longrightarrow> tryToCommitBlockToLedger w = w"
  by (simp add: tryToCommitBlockToLedger_def)

text \<open>
  The answers to a block on its way through the pipeline: the header the scheduler computes, the
  consent of the consensus module, the stored transactions, and the ledger configuration
  of the commit.
\<close>

definition answered :: "'sc Framework \<Rightarrow> Block \<Rightarrow> BlockHeader \<Rightarrow> LedgerConfig \<Rightarrow> 'sc BlockSync \<Rightarrow> 'sc BlockSync" where
  "answered F b header lc s = fold (handle F)
     [Executed b (Inr header), Checked b (Inr True), Stored b (Inr ()), Committed b (Inr lc)] s"

definition syncRound :: "'sc Framework \<Rightarrow> (Block \<Rightarrow> BlockHeader) \<Rightarrow> (Block \<Rightarrow> LedgerConfig) \<Rightarrow> 'sc BlockSync \<Rightarrow> 'sc BlockSync" where
  "syncRound F execute commit s =
     (let s1 = maintainDownloadingQueue s
      in case last (calls s1) of
           ExecuteBlock b \<Rightarrow> answered F b (execute b) (commit b) s1
         | _ \<Rightarrow> s1)"

lemma answered_safe:
  assumes "height (lc_blockNumber lc)"
  shows "bs_safe s (answered F b header lc s)"
proof -
  have "bs_safe s (handle F (Executed b (Inr header)) s)" by (rule bs_safe_handle) simp
  also have "bs_safe \<dots> (handle F (Checked b (Inr True)) \<dots>)" by (rule bs_safe_handle) simp
  also have "bs_safe \<dots> (handle F (Stored b (Inr ())) \<dots>)" by (rule bs_safe_handle) simp
  also have "bs_safe \<dots> (handle F (Committed b (Inr lc)) \<dots>)"
    unfolding handle.simps by (rule bs_safe_onCommitted) (use assms in simp)
  finally show ?thesis by (simp add: answered_def)
qed

text \<open>What the answers do to a node whose next block has just been handed to the scheduler.\<close>

lemma answered_effect:
  assumes idle: "m_commitQueue (m_downloadingQueue s) = []" "c_nextBlock (m_config s) = c_blockNumber (m_config s) + 1"
    and b: "block_number b = c_blockNumber (m_config s) + 1" "bh_hash header = bh_hash (blockHeader b)"
    and lc: "lc_blockNumber lc = block_number b"
  shows "c_blockNumber (m_config (answered F b header lc s)) = c_blockNumber (m_config s) + 1"
    "c_executedBlock (m_config (answered F b header lc s)) = c_blockNumber (m_config s) + 1"
    "c_hash (m_config (answered F b header lc s)) = lc_hash lc"
    "c_knownHighestNumber (m_config (answered F b header lc s)) = max (c_knownHighestNumber (m_config s)) (block_number b)"
    "c_committedProposalNumber (m_config (answered F b header lc s)) = c_committedProposalNumber (m_config s)"
    "m_commitQueue (m_downloadingQueue (answered F b header lc s)) = []"
    "m_blocks (m_downloadingQueue (answered F b header lc s)) =
       pop_while BlockCmp (\<lambda>x. block_number x \<le> block_number b) (m_blocks (m_downloadingQueue s))"
    "m_waterMark (answered F b header lc s) = m_waterMark s"
    "CommitBlock b \<in> set (calls (answered F b header lc s))"
    "m_blockBuffer (m_downloadingQueue (answered F b header lc s)) = m_blockBuffer (m_downloadingQueue s)"
    "dq_world.more (answered F b header lc s) = dq_world.more s"
proof -
  define s2 where "s2 = onExecuted b (Inr header) s"
  have s2: "s2 = emit (CheckBlock b) (setExecuted (block_number b) s)"
    using idle b by (simp add: s2_def onExecuted_def verifyExecutedBlock_def, subst updateCommitQueue_single)
      (simp_all add: setExecutedBlock_def)
  define s4 where "s4 = onStored b (Inr ()) (onChecked b (Inr True) s2)"
  have cfg: "m_config s4 = (m_config s)\<lparr>c_executedBlock := block_number b\<rparr>" "m_downloadingQueue s4 = m_downloadingQueue s"
    "m_waterMark s4 = m_waterMark s" "CommitBlock b \<in> set (calls s4)" "dq_world.more s4 = dq_world.more s"
    using b(1) by (auto simp: s4_def s2 onStored_def onChecked_def commitBlock_def commitBlockState_def Let_def setExecutedBlock_def
        setExecuted_def)
  define lc' where "lc' = lc\<lparr>lc_txsSize := transactionsSize b, lc_sealerId := bh_sealer (blockHeader b)\<rparr>"
  have s5: "answered F b header lc s = tryToCommitBlockToLedger (onNewBlock F lc' s4)"
    by (simp add: answered_def s4_def s2_def onCommitted_def finalizeBlock_def lc'_def Let_def)
  have q: "m_downloadingQueue (onNewBlock F lc' s4) = (m_downloadingQueue s)
      \<lparr>m_blocks := pop_while BlockCmp (\<lambda>x. block_number x \<le> block_number b) (m_blocks (m_downloadingQueue s)),
       m_commitQueue := []\<rparr>"
    using idle(1) b(1) lc
    by (simp add: cfg lc'_def resetConfig_fst config_defs clearExpiredQueueCache_def clearExpiredCache_def Let_def)
  have s5': "answered F b header lc s = onNewBlock F lc' s4"
    unfolding s5 by (rule tryToCommit_idle) (simp only: q, simp)
  show "c_blockNumber (m_config (answered F b header lc s)) = c_blockNumber (m_config s) + 1"
    "c_executedBlock (m_config (answered F b header lc s)) = c_blockNumber (m_config s) + 1"
    "c_hash (m_config (answered F b header lc s)) = lc_hash lc"
    "c_knownHighestNumber (m_config (answered F b header lc s)) = max (c_knownHighestNumber (m_config s)) (block_number b)"
    "c_committedProposalNumber (m_config (answered F b header lc s)) = c_committedProposalNumber (m_config s)"
    using b(1) lc by (simp_all add: s5' cfg lc'_def resetConfig_fst config_defs Let_def)
  show "m_commitQueue (m_downloadingQueue (answered F b header lc s)) = []"
    "m_blocks (m_downloadingQueue (answered F b header lc s)) =
       pop_while BlockCmp (\<lambda>x. block_number x \<le> block_number b) (m_blocks (m_downloadingQueue s))"
    "m_blockBuffer (m_downloadingQueue (answered F b header lc s)) = m_blockBuffer (m_downloadingQueue s)"
    by (simp_all only: s5' q) simp_all
  show "m_waterMark (answered F b header lc s) = m_waterMark s"
    unfolding s5' by (rule trans [OF same_more(4) cfg(3)]) simp
  show "CommitBlock b \<in> set (calls (answered F b header lc s))"
    unfolding s5' using cfg(4) by (simp add: onNewBlock_calls)
  show "dq_world.more (answered F b header lc s) = dq_world.more s" unfolding s5' by (simp add: cfg(5))
qed


section \<open>Many rounds\<close>

text \<open>A node with nothing in the pipeline and the next \<open>n\<close> blocks in its queue.\<close>

definition loaded :: "nat \<Rightarrow> 'sc BlockSync \<Rightarrow> bool" where
  "loaded n s \<longleftrightarrow> bs_wf s \<and> 0 < m_waterMark s \<and> c_blockNumber (m_config s) + int n + m_waterMark s < 2 ^ 63 \<and>
     m_commitQueue (m_downloadingQueue s) = [] \<and> c_executedBlock (m_config s) = c_blockNumber (m_config s) \<and>
     c_blockNumber (m_config s) + int n \<le> c_knownHighestNumber (m_config s) \<and>
     c_committedProposalNumber (m_config s) < c_knownHighestNumber (m_config s) \<and>
     {c_blockNumber (m_config s) + 1 .. c_blockNumber (m_config s) + int n} \<subseteq> block_number ` set (m_blocks (m_downloadingQueue s))"

lemma loaded_round:
  assumes s: "loaded (Suc n) s" and execute: "\<And>b. bh_hash (execute b) = bh_hash (blockHeader b)"
    and commit: "\<And>b. lc_blockNumber (commit b) = block_number b"
  obtains b where "b \<in> set (m_blocks (m_downloadingQueue s))" "block_number b = c_blockNumber (m_config s) + 1"
    "loaded n (syncRound F execute commit s)"
    "c_blockNumber (m_config (syncRound F execute commit s)) = c_blockNumber (m_config s) + 1"
    "c_hash (m_config (syncRound F execute commit s)) = lc_hash (commit b)"
    "CommitBlock b \<in> set (calls (syncRound F execute commit s))"
    "set (m_blocks (m_downloadingQueue (syncRound F execute commit s))) \<subseteq> set (m_blocks (m_downloadingQueue s))"
    "\<exists>cs. calls (syncRound F execute commit s) = calls s @ cs"
    "advances (m_config s) (m_config (syncRound F execute commit s))"
    "\<forall>x \<in> set (m_blocks (m_downloadingQueue (syncRound F execute commit s))). c_blockNumber (m_config s) + 1 < block_number x"
    "length (m_blocks (m_downloadingQueue (syncRound F execute commit s))) \<le> length (m_blocks (m_downloadingQueue s))"
    "m_blockBuffer (m_downloadingQueue (syncRound F execute commit s)) = m_blockBuffer (m_downloadingQueue s)"
    "dq_world.more (syncRound F execute commit s) = dq_world.more (s\<lparr>m_state := Downloading\<rparr>)"
    "c_knownHighestNumber (m_config (syncRound F execute commit s)) = c_knownHighestNumber (m_config s)"
    "c_committedProposalNumber (m_config (syncRound F execute commit s)) = c_committedProposalNumber (m_config s)"
proof -
  note L = s [unfolded loaded_def]
  have wf: "bs_wf s" and idle: "m_commitQueue (m_downloadingQueue s) = []" "c_executedBlock (m_config s) = c_blockNumber (m_config s)"
    and blocks: "{c_blockNumber (m_config s) + 1 .. c_blockNumber (m_config s) + int (Suc n)} \<subseteq>
      block_number ` set (m_blocks (m_downloadingQueue s))"
    using L by blast+
  have h: "heights_ok s" using L bs_wf_height [OF wf] by (simp add: heights_ok_def height_def)
  have "c_blockNumber (m_config s) + 1 \<in> block_number ` set (m_blocks (m_downloadingQueue s))"
    by (rule subsetD [OF blocks]) simp
  then have "\<exists>b \<in> set (m_blocks (m_downloadingQueue s)). block_number b = c_blockNumber (m_config s) + 1" by force
  moreover have "shouldSyncing s" using L by (simp add: shouldSyncing_def)
  ultimately obtain b q where b: "b \<in> set (m_blocks (m_downloadingQueue s))" "block_number b = c_blockNumber (m_config s) + 1"
    and s1: "maintainDownloadingQueue s = emit (ExecuteBlock b) ((with_blocks q s)\<lparr>m_state := Downloading\<rparr>)"
    and q: "add_mset b (mset q) = filter_mset (\<lambda>b. c_blockNumber (m_config s) < block_number b) (mset (m_blocks (m_downloadingQueue s)))"
    using maintainDownloadingQueue_executes [OF wf h] L by blast
  let ?s1 = "maintainDownloadingQueue s" and ?s5 = "syncRound F execute commit s"
  have s5: "?s5 = answered F b (execute b) (commit b) ?s1" by (simp add: syncRound_def s1)
  have safe1: "bs_safe s ?s1" by blast
  have heap: "blk_heap q" using bs_safe_wf [OF safe1 wf] by (simp add: s1 bs_wf_def dq_wf_def)
  have "c_nextBlock (m_config s) = c_blockNumber (m_config s) + 1" using wf by (simp add: bs_wf_def config_wf_def)
  then have pre: "m_commitQueue (m_downloadingQueue ?s1) = []" "c_nextBlock (m_config ?s1) = c_blockNumber (m_config ?s1) + 1"
    "block_number b = c_blockNumber (m_config ?s1) + 1"
    using idle b by (simp_all add: s1)
  note eff = answered_effect [OF pre execute commit, of F, folded s5, unfolded s1, simplified]
  have "bs_safe ?s1 ?s5" unfolding s5
    by (rule answered_safe) (use L b bs_wf_height [OF wf] in \<open>simp add: commit height_def\<close>)
  then have safe: "bs_safe s ?s5" by (rule bs_safe_trans [OF safe1])
  have mem: "x = b \<or> x \<in> set q \<longleftrightarrow> x \<in> set (m_blocks (m_downloadingQueue s)) \<and> c_blockNumber (m_config s) < block_number x" for x
    using arg_cong [OF q, of "\<lambda>M. x \<in># M"] by simp
  have rest: "set (m_blocks (m_downloadingQueue ?s5)) =
      {x \<in> set (m_blocks (m_downloadingQueue s)). c_blockNumber (m_config s) + 1 < block_number x}" (is "?l = ?r")
  proof (rule set_eqI)
    show "x \<in> ?l \<longleftrightarrow> x \<in> ?r" for x
      using mem [of x] b(2) by (auto simp: eff(7) set_blk_pop_while [OF heap])
  qed
  have "x \<in> block_number ` set (m_blocks (m_downloadingQueue ?s5))"
    if "c_blockNumber (m_config s) + 2 \<le> x" "x \<le> c_blockNumber (m_config s) + 1 + int n" for x
  proof -
    have "x \<in> block_number ` set (m_blocks (m_downloadingQueue s))" by (rule subsetD [OF blocks]) (use that in simp)
    then show ?thesis using that(1) by (auto simp: rest)
  qed
  then have "loaded n ?s5"
    using L eff bs_safe_wf [OF safe wf] b(2) by (auto simp: loaded_def max_def)
  moreover have "length (m_blocks (m_downloadingQueue ?s5)) \<le> length (m_blocks (m_downloadingQueue s))"
  proof -
    have "length (m_blocks (m_downloadingQueue ?s5)) \<le> length q" unfolding eff(7) by (rule length_pop_while)
    also have "\<dots> < size (add_mset b (mset q))" by simp
    also have "\<dots> \<le> length (m_blocks (m_downloadingQueue s))"
      unfolding q using size_filter_mset_lesseq [of _ "mset (m_blocks (m_downloadingQueue s))"] by simp
    finally show ?thesis by simp
  qed
  moreover have "c_knownHighestNumber (m_config ?s5) = c_knownHighestNumber (m_config s)" using eff(4) L b(2) by auto
  moreover have "\<forall>x \<in> set (m_blocks (m_downloadingQueue ?s5)). c_blockNumber (m_config s) + 1 < block_number x" by (simp add: rest)
  moreover have "dq_world.more ((with_blocks q s)\<lparr>m_state := Downloading\<rparr>) = dq_world.more (s\<lparr>m_state := Downloading\<rparr>)"
    by (cases s) simp
  ultimately show thesis using that b eff rest safe wf by (auto simp: bs_safe_def)
qed


lemma rounds_grow:
  assumes "loaded n s" "\<And>b. bh_hash (execute b) = bh_hash (blockHeader b)" "\<And>b. lc_blockNumber (commit b) = block_number b"
  shows "set (calls s) \<subseteq> set (calls ((syncRound F execute commit ^^ n) s))"
  using assms(1)
proof (induction n arbitrary: s)
  case (Suc n)
  let ?s = "syncRound F execute commit s"
  obtain cs where "loaded n ?s" "calls ?s = calls s @ cs" by (rule loaded_round [OF Suc.prems assms(2,3)]) blast
  with Suc.IH [of ?s] show ?case by (simp add: funpow_swap1)
qed simp

lemma upto_Cons: "n + 1 \<le> m \<Longrightarrow> [n + 1 .. m] = (n + 1) # [n + 2 .. m]" for n :: int
  by (subst upto_rec1) (simp_all add: add.assoc)

section \<open>Properties\<close>

text \<open>
  C7: a lagging node catches up. If the next \<open>n\<close> blocks are in the queue, nothing is in the pipeline
  and the services answer every call with success, then \<open>n\<close> rounds of
  \<^verbatim>\<open>maintainDownloadingQueue\<close> and answers commit \<open>n\<close> blocks of the queue with consecutive numbers, the
  node's height has grown by \<open>n\<close>, and its hash is the one of the last commit.
\<close>

theorem sync_blocks:
  assumes "loaded n s" and "\<And>b. bh_hash (execute b) = bh_hash (blockHeader b)"
    and "\<And>b. lc_blockNumber (commit b) = block_number b" and "s' = (syncRound F execute commit ^^ n) s"
  shows "c_blockNumber (m_config s') = c_blockNumber (m_config s) + int n \<and>
    (\<exists>bs. set bs \<subseteq> set (m_blocks (m_downloadingQueue s)) \<and>
      map block_number bs = [c_blockNumber (m_config s) + 1 .. c_blockNumber (m_config s) + int n] \<and>
      CommitBlock ` set bs \<subseteq> set (calls s') \<and>
      (0 < n \<longrightarrow> c_hash (m_config s') = lc_hash (commit (last bs))))"
  using assms(1) unfolding assms(4)
proof (induction n arbitrary: s)
  case (Suc n)
  let ?s = "syncRound F execute commit s"
  let ?s' = "(syncRound F execute commit ^^ n) ?s"
  from Suc.prems obtain b where b: "b \<in> set (m_blocks (m_downloadingQueue s))" "block_number b = c_blockNumber (m_config s) + 1"
    "loaded n ?s" "c_blockNumber (m_config ?s) = c_blockNumber (m_config s) + 1" "c_hash (m_config ?s) = lc_hash (commit b)"
    "CommitBlock b \<in> set (calls ?s)" "set (m_blocks (m_downloadingQueue ?s)) \<subseteq> set (m_blocks (m_downloadingQueue s))"
    by (rule loaded_round [OF _ assms(2,3)])
  obtain bs where bs: "set bs \<subseteq> set (m_blocks (m_downloadingQueue ?s))"
    "map block_number bs = [c_blockNumber (m_config ?s) + 1 .. c_blockNumber (m_config ?s) + int n]"
    "CommitBlock ` set bs \<subseteq> set (calls ?s')" "0 < n \<longrightarrow> c_hash (m_config ?s') = lc_hash (commit (last bs))"
    "c_blockNumber (m_config ?s') = c_blockNumber (m_config ?s) + int n"
    using Suc.IH [OF b(3)] by blast
  have "length bs = n" using arg_cong [OF bs(2), of length] by simp
  then have "c_hash (m_config ?s') = lc_hash (commit (last (b # bs)))" using bs(4) b(5) by auto
  moreover have "CommitBlock ` set (b # bs) \<subseteq> set (calls ?s')"
    using bs(3) b(6) rounds_grow [OF b(3) assms(2,3), where F = F] by auto
  moreover have "map block_number (b # bs) = [c_blockNumber (m_config s) + 1 .. c_blockNumber (m_config s) + int (Suc n)]"
    using bs(2) b(2,4) upto_Cons [of "c_blockNumber (m_config s)" "c_blockNumber (m_config s) + int (Suc n)"]
    by (simp add: algebra_simps)
  moreover have "set (b # bs) \<subseteq> set (m_blocks (m_downloadingQueue s))" using bs(1) b(1,7) by auto
  moreover have "c_blockNumber (m_config ?s') = c_blockNumber (m_config s) + int (Suc n)" using bs(5) b(4) by simp
  ultimately show ?case unfolding funpow_Suc_right o_apply by blast
qed simp

text \<open>Blocks 7, 8 and 9 wait in the queue of the node at height 6, received out of order.\<close>

definition demoFull :: "DemoSync BlockSync" where
  "demoFull = maintainDownloadingBuffer demoFramework
     (onPeerBlocks (demoPacket [demoBlock 9 0, demoBlock 7 1, demoBlock 8 2]) demoModule)"

definition demoCommit :: "Block \<Rightarrow> LedgerConfig" where
  "demoCommit b = (demoLedgerConfig (block_number b))\<lparr>lc_hash := bh_hash (blockHeader b)\<rparr>"

lemma loaded_demoFull: "loaded 3 demoFull"
proof -
  have "bs_wf demoFull"
    unfolding demoFull_def
    by (intro bs_safe_wf [OF bs_safe_maintainDownloadingBuffer] bs_safe_wf [OF bs_safe_onPeerBlocks] bs_wf_demoModule)
  moreover have "c_blockNumber (m_config demoFull) = 6" "c_executedBlock (m_config demoFull) = 6" "m_waterMark demoFull = 10"
    "c_knownHighestNumber (m_config demoFull) = 40" "c_committedProposalNumber (m_config demoFull) = 0"
    "m_commitQueue (m_downloadingQueue demoFull) = []"
    by code_simp+
  moreover have "{7 .. 9} \<subseteq> block_number ` set (m_blocks (m_downloadingQueue demoFull))" by code_simp
  ultimately show ?thesis by (simp add: loaded_def)
qed

theorem sync_blocks_witness:
  "c_blockNumber (m_config demoFull) = 6 \<and>
    c_blockNumber (m_config ((syncRound demoFramework blockHeader demoCommit ^^ 3) demoFull)) = 9 \<and>
    (\<exists>bs. map block_number bs = [7, 8, 9] \<and>
      CommitBlock ` set bs \<subseteq> set (calls ((syncRound demoFramework blockHeader demoCommit ^^ 3) demoFull)))"
proof -
  have six: "c_blockNumber (m_config demoFull) = 6" by code_simp
  have nums: "[6 + 1 .. 9] = [7, 8, 9 :: int]" "6 + int 3 = (9 :: int)" by code_simp+
  have "lc_blockNumber (demoCommit b) = block_number b" for b by (simp add: demoCommit_def demoLedgerConfig_def)
  note W = sync_blocks [OF loaded_demoFull refl this refl, of demoFramework, unfolded six nums]
  from conjunct2 [OF W] obtain bs where "map block_number bs = [7, 8, 9]"
    "CommitBlock ` set bs \<subseteq> set (calls ((syncRound demoFramework blockHeader demoCommit ^^ 3) demoFull))"
    by (elim exE conjE)
  with six conjunct1 [OF W] show ?thesis by (intro conjI exI)
qed

end
