(* ===== verification/SyncSafety.thy ===== *)
theory SyncSafety
  imports SyncSystem
begin

text \<open>
  The invariant of the whole module and what follows from it in every reachable state:
  the state is well-formed, a block's state is committed only after the scheduler has
  executed it with the announced hash and the consensus module has accepted it, and
  execution runs ahead of the ledger by at most the water mark. A forward simulation shows
  that the node's view of the ledger only moves forward, on reports of the consensus module
  or the scheduler.
\<close>

section \<open>Where the calls come from\<close>

definition executed_ok :: "event list \<Rightarrow> Block \<Rightarrow> bool" where
  "executed_ok h b \<longleftrightarrow> (\<exists>header. Executed b (Inr header) \<in> set h \<and> bh_hash header = bh_hash (blockHeader b))"

definition checked_ok :: "event list \<Rightarrow> Block \<Rightarrow> bool" where
  "checked_ok h b \<longleftrightarrow> Checked b (Inr True) \<in> set h"

definition stored_ok :: "event list \<Rightarrow> Block \<Rightarrow> bool" where
  "stored_ok h b \<longleftrightarrow> Stored b (Inr ()) \<in> set h"

fun call_justified :: "event list \<Rightarrow> call \<Rightarrow> bool" where
  "call_justified h (CheckBlock b) = executed_ok h b"
| "call_justified h (StoreTransactions txs hashes b) = (executed_ok h b \<and> checked_ok h b)"
| "call_justified h (CommitBlock b) =
     (executed_ok h b \<and> checked_ok h b \<and> (transactions b = [] \<or> stored_ok h b))"
| "call_justified h _ = True"

definition justified :: "event list \<Rightarrow> ('sc, 'z) dq_world_scheme \<Rightarrow> bool" where
  "justified h w \<longleftrightarrow> (\<forall>b \<in> commits w. executed_ok h b) \<and> (\<forall>c \<in> set (calls w). call_justified h c)"

lemma ok_mono:
  "executed_ok h b \<Longrightarrow> executed_ok (h @ h') b" "checked_ok h b \<Longrightarrow> checked_ok (h @ h') b"
  "stored_ok h b \<Longrightarrow> stored_ok (h @ h') b"
  by (auto simp: executed_ok_def checked_ok_def stored_ok_def)

lemma call_justified_mono: "call_justified h c \<Longrightarrow> call_justified (h @ h') c"
  by (cases c) (auto intro: ok_mono)

lemma justified_mono: "justified h w \<Longrightarrow> justified (h @ h') w"
  by (auto simp: justified_def intro: ok_mono call_justified_mono)

lemma call_justified_other: "\<not> pipeline_call c \<Longrightarrow> call_justified h c"
  by (cases c) simp_all

lemma justified_calm: "calm w w' \<Longrightarrow> justified h w \<Longrightarrow> justified h w'"
proof -
  assume calm: "calm w w'" and j: "justified h w"
  obtain cs where cs: "calls w' = calls w @ cs" "\<forall>c \<in> set cs. pipeline_call c \<longrightarrow> c \<in> CheckBlock ` commits w"
    using calm by (auto simp: calm_def adds_calls_def)
  have "call_justified h c" if c: "c \<in> set cs" for c
  proof (cases "pipeline_call c")
    case True
    then obtain b where "c = CheckBlock b" "b \<in> commits w" using cs(2) c by blast
    with j show ?thesis by (simp add: justified_def)
  qed (rule call_justified_other)
  with calm j cs(1) show ?thesis by (auto simp: justified_def calm_def)
qed

lemma calm_setExecuted: "calm w (setExecuted n w)"
  by (simp add: calm_def adds_calls_def)

lemma calm_tryToCommit: "calm w (tryToCommitBlockToLedger w)"
  by (rule silent_calm) blast

lemma calm_onNewBlock: "blk_heap (m_commitQueue (m_downloadingQueue w)) \<Longrightarrow> calm w (onNewBlock F lc w)"
  using set_clearExpired [of "m_downloadingQueue w"]
  by (auto simp: calm_def adds_calls_def onNewBlock_calls resetConfig_snd)

lemma calm_finalize:
  "blk_heap (m_commitQueue (m_downloadingQueue w)) \<Longrightarrow> calm w (tryToCommitBlockToLedger (onNewBlock F lc w))"
  using calm_trans [OF calm_onNewBlock calm_tryToCommit] .

section \<open>The execution window\<close>

definition window :: "BlockNumber \<Rightarrow> ('sc, 'z) dq_world_scheme \<Rightarrow> bool" where
  "window k w \<longleftrightarrow> c_executedBlock (m_config w) \<le> c_blockNumber (m_config w) + k \<and>
     (\<forall>b. ExecuteBlock b \<in> set (calls w) \<longrightarrow> 1 \<le> block_number b \<and> block_number b \<le> c_blockNumber (m_config w) + k)"

lemma calm_executes: "calm w w' \<Longrightarrow> ExecuteBlock b \<in> set (calls w') \<longleftrightarrow> ExecuteBlock b \<in> set (calls w)"
  by (fastforce simp: calm_def adds_calls_def)

lemma window_silent: "silent w w' \<Longrightarrow> window k w \<Longrightarrow> window k w'"
  using calm_executes [of w w'] by (auto simp: window_def silent_def)

lemma window_setExecuted:
  "window k w \<Longrightarrow> n \<le> c_blockNumber (m_config w) + k \<Longrightarrow> window k (setExecuted n w)"
  by (auto simp: window_def setExecutedBlock_def)

lemma window_newBlock:
  assumes "window k w" "0 \<le> k" "chain_height (lc_blockNumber lc)" "0 \<le> c_blockNumber (m_config w)"
    and "blk_heap (m_commitQueue (m_downloadingQueue w))"
  shows "window k (tryToCommitBlockToLedger (onNewBlock F lc w))"
proof -
  let ?n = "c_blockNumber (m_config w)" and ?l = "lc_blockNumber lc"
  let ?cfg = "fst (resetConfig F lc (m_config w))"
  have "(c_blockNumber ?cfg = ?n \<and> c_executedBlock ?cfg = c_executedBlock (m_config w)) \<or>
      (c_blockNumber ?cfg = ?l \<and> ?n \<le> ?l \<and> c_executedBlock ?cfg = max (c_executedBlock (m_config w)) ?l)"
    using assms(3,4) by (auto simp: resetConfig_fst config_defs chain_height_def Let_def max_def)
  then show ?thesis
    using assms(1,2) calm_executes [OF calm_finalize [OF assms(5), of F lc]]
    by (fastforce simp: window_def)
qed

section \<open>The invariant\<close>

definition sync_inv :: "'sc system \<Rightarrow> bool" where
  "sync_inv sys \<longleftrightarrow> bs_wf (node sys) \<and> m_waterMark (node sys) = 10 \<and>
     chain_height (c_blockNumber (m_config (node sys))) \<and>
     set_mset (pending sys) \<subseteq> set (calls (node sys)) \<and>
     (\<forall>e \<in> set (history sys). \<forall>c. call_of e = Some c \<longrightarrow> c \<in> set (calls (node sys))) \<and>
     justified (history sys) (node sys) \<and> window 10 (node sys)"

lemma sync_invD:
  assumes "sync_inv sys"
  shows "bs_wf (node sys)" "m_waterMark (node sys) = 10" "chain_height (c_blockNumber (m_config (node sys)))"
    "set_mset (pending sys) \<subseteq> set (calls (node sys))" "justified (history sys) (node sys)" "window 10 (node sys)"
    "blk_heap (m_commitQueue (m_downloadingQueue (node sys)))" "0 \<le> c_blockNumber (m_config (node sys))"
    "heights_ok (node sys)"
proof -
  show *: "bs_wf (node sys)" "m_waterMark (node sys) = 10" "chain_height (c_blockNumber (m_config (node sys)))"
    "set_mset (pending sys) \<subseteq> set (calls (node sys))" "justified (history sys) (node sys)" "window 10 (node sys)"
    using assms by (simp_all add: sync_inv_def)
  from * show "blk_heap (m_commitQueue (m_downloadingQueue (node sys)))" "0 \<le> c_blockNumber (m_config (node sys))"
    by (simp_all add: bs_wf_def dq_wf_def chain_height_def)
  show "heights_ok (node sys)"
    using * by (auto simp: heights_ok_def chain_height_def window_def height_def bs_wf_def config_wf_def)
qed

text \<open>A block whose execution was answered has been handed to the scheduler.\<close>

lemma executed_in_window:
  assumes "sync_inv sys" "executed_ok (history sys) b"
  shows "1 \<le> block_number b" "block_number b \<le> c_blockNumber (m_config (node sys)) + 10"
    "i64 (block_number b - 1) = block_number b - 1"
proof -
  obtain header where "Executed b (Inr header) \<in> set (history sys)" using assms(2) by (auto simp: executed_ok_def)
  with assms(1) have "ExecuteBlock b \<in> set (calls (node sys))" by (fastforce simp: sync_inv_def call_of_def)
  with sync_invD(6) [OF assms(1)] show *: "1 \<le> block_number b" "block_number b \<le> c_blockNumber (m_config (node sys)) + 10"
    by (simp_all add: window_def)
  then show "i64 (block_number b - 1) = block_number b - 1"
    using sync_invD(3) [OF assms(1)] by (simp add: chain_height_def in_i64_def)
qed

section \<open>Preservation\<close>

lemma commitBlock_calls:
  "calls (commitBlock b w) = calls w @ (if transactions b = [] then [CommitBlock b] else []) @ [storeCall b]"
  by (simp add: commitBlock_def commitBlockState_def storeCall_def Let_def)

lemma justified_calls:
  "m_downloadingQueue w' = m_downloadingQueue w \<Longrightarrow> calls w' = calls w @ cs \<Longrightarrow> justified h w \<Longrightarrow>
   (\<And>c. c \<in> set cs \<Longrightarrow> call_justified h c) \<Longrightarrow> justified h w'"
  by (auto simp: justified_def)

lemma justified_handle:
  assumes inv: "sync_inv sys" and step: "sync_step F sys e sys'"
  shows "justified (history sys') (node sys')"
proof -
  let ?s = "node sys" and ?h = "history sys @ [e]"
  note D = sync_invD [OF inv]
  have made: "c \<in> set (calls ?s)" if "call_of e = Some c" for c
    using sync_step_node(5) [OF step that] D(4) by blast
  then have just: "call_justified (history sys) c" if "call_of e = Some c" for c
    using that D(5) by (simp add: justified_def)
  have j: "justified ?h ?s" by (rule justified_mono [OF D(5)])
  have "justified ?h (handle F e ?s)"
  proof (cases e)
    case (NewBlock lc)
    then show ?thesis using justified_calm [OF calm_finalize [OF D(7)] j] j by (simp add: asyncNotifyNewBlock_def)
  next
    case (DownloadRun rnds)
    let ?t = "takeDownloadTask ?s"
    have t: "silent ?s ?t" by (rule silent_same) (simp_all add: takeDownloadTask_def)
    have "bs_wf ?t" "heights_ok ?t" using D(1,9) by (simp_all add: takeDownloadTask_def bs_wf_def heights_ok_def)
    then obtain s1 s2 where s: "silent ?t s1" "may_execute s1 s2" "silent s2 (downloadTask F rnds ?t)"
      using downloadTask_shape by blast
    have "justified ?h s1" by (rule justified_calm [OF silent_calm [OF silent_trans [OF t s(1)]] j])
    then have "justified ?h s2" using s(2) by (auto simp: may_execute_def justified_def)
    then have "justified ?h (downloadTask F rnds ?t)" by (rule justified_calm [OF silent_calm [OF s(3)]])
    then show ?thesis by (simp add: DownloadRun)
  next
    case (Executed b ans)
    show ?thesis
    proof (cases "\<exists>header. ans = Inr header \<and> bh_hash header = bh_hash (blockHeader b)")
      case True
      then have ok: "executed_ok ?h b" by (auto simp: executed_ok_def Executed)
      let ?w = "with_commitQueue (pq_push BlockCmp b (m_commitQueue (m_downloadingQueue ?s))) (setExecuted (block_number b) ?s)"
      have "justified ?h ?w" using j ok by (simp add: justified_def)
      then have "justified ?h (tryToCommitBlockToLedger ?w)" by (rule justified_calm [OF calm_tryToCommit])
      then show ?thesis
        using True by (auto simp: Executed onExecuted_def verifyExecutedBlock_def updateCommitQueue_def)
    next
      case False
      then show ?thesis
        using justified_calm [OF calm_setExecuted j]
        by (auto simp: Executed onExecuted_def verifyExecutedBlock_def split: sum.split)
    qed
  next
    case (Checked b ans)
    have ex: "executed_ok ?h b" using just by (simp add: Checked call_of_def ok_mono)
    show ?thesis
    proof (cases "ans = Inr True")
      case True
      then have "checked_ok ?h b" by (simp add: Checked checked_ok_def)
      with ex have "justified ?h (commitBlock b ?s)"
        by (intro justified_calls [OF _ commitBlock_calls j]) (auto simp: storeCall_def commitBlock_def commitBlockState_def Let_def)
      with True show ?thesis by (simp add: Checked onChecked_def)
    next
      case False
      then show ?thesis
        using justified_calm [OF calm_setExecuted j] by (auto simp: Checked onChecked_def split: sum.split)
    qed
  next
    case (Stored b ans)
    have ok: "executed_ok ?h b" "checked_ok ?h b"
      using just by (simp_all add: Stored call_of_def storeCall_def ok_mono)
    moreover have "stored_ok ?h b" if "ans = Inr ()" using that by (simp add: Stored stored_ok_def)
    ultimately show ?thesis
      using justified_calm [OF calm_setExecuted j] j
      by (auto simp: Stored onStored_def commitBlockState_def justified_def split: sum.split)
  next
    case (Committed b ans)
    then show ?thesis
      using justified_calm [OF calm_setExecuted j] justified_calm [OF calm_finalize [OF D(7)] j]
      by (cases ans) (simp_all add: onCommitted_def finalizeBlock_def Let_def)
  qed (rule justified_calm [OF silent_calm [OF silent_outside] j], simp)+
  then show ?thesis using sync_step_node [OF step] by simp
qed

lemma window_handle:
  assumes inv: "sync_inv sys" and step: "sync_step F sys e sys'"
  shows "window 10 (node sys')"
proof -
  let ?s = "node sys"
  note D = sync_invD [OF inv]
  have just: "call_justified (history sys) c" "c \<in> set (calls ?s)" if "call_of e = Some c" for c
    using sync_step_node(5) [OF step that] D(4,5) by (auto simp: justified_def)
  have rollback: "window 10 (setExecuted (i64 (block_number b - 1)) ?s)" if "executed_ok (history sys) b" for b
    using executed_in_window [OF inv that] by (intro window_setExecuted [OF D(6)]) simp
  have same: "window 10 (setExecuted (c_blockNumber (m_config ?s)) ?s)"
    by (rule window_setExecuted [OF D(6)]) simp
  have commit: "window 10 (tryToCommitBlockToLedger w)" if "window 10 w" for w
    using window_silent [OF silent_tryToCommit that] .
  have "window 10 (handle F e ?s)"
  proof (cases e)
    case (NewBlock lc)
    then have "chain_height (lc_blockNumber lc)" using sync_step_node(3) [OF step] by simp
    then show ?thesis using NewBlock window_newBlock [OF D(6) _ _ D(8,7)] D(6) by (simp add: asyncNotifyNewBlock_def)
  next
    case (DownloadRun rnds)
    let ?t = "takeDownloadTask ?s"
    have t: "silent ?s ?t" by (rule silent_same) (simp_all add: takeDownloadTask_def)
    have "bs_wf ?t" "heights_ok ?t" "m_waterMark ?t = 10"
      using D(1,2,9) by (simp_all add: takeDownloadTask_def bs_wf_def heights_ok_def)
    then obtain s1 s2 where s: "silent ?t s1" "m_waterMark s1 = 10" "may_execute s1 s2" "silent s2 (downloadTask F rnds ?t)"
      using downloadTask_shape by metis
    have t1: "silent ?s s1" using t s(1) by (rule silent_trans)
    then have "window 10 s1" "0 \<le> c_executedBlock (m_config s1)"
      using window_silent [OF t1 D(6)] D(1,8) by (auto simp: silent_def bs_wf_def config_wf_def)
    then have "window 10 s2" using s(2,3) by (auto simp: may_execute_def window_def)
    then have "window 10 (downloadTask F rnds ?t)" by (rule window_silent [OF s(4)])
    then show ?thesis by (simp add: DownloadRun)
  next
    case (Executed b ans)
    then have "ExecuteBlock b \<in> set (calls ?s)" using just(2) by (simp add: call_of_def)
    then have "window 10 (setExecuted (block_number b) ?s)"
      using D(6) by (intro window_setExecuted [OF D(6)]) (simp add: window_def)
    then have "window 10 (with_commitQueue q (setExecuted (block_number b) ?s))" for q by (simp add: window_def)
    then show ?thesis
      using same commit by (auto simp: Executed onExecuted_def updateCommitQueue_def split: sum.split)
  next
    case (Checked b ans)
    then have "executed_ok (history sys) b" using just(1) by (simp add: call_of_def)
    then have "window 10 (setExecuted (i64 (block_number b - 1)) ?s)" by (rule rollback)
    moreover have "window 10 (commitBlock b ?s)" using D(6) by (auto simp: window_def commitBlock_def commitBlockState_def Let_def)
    ultimately show ?thesis by (auto simp: Checked onChecked_def split: sum.split)
  next
    case (Stored b ans)
    then have "executed_ok (history sys) b" using just(1) by (simp add: call_of_def storeCall_def)
    then have "window 10 (setExecuted (i64 (block_number b - 1)) ?s)" by (rule rollback)
    moreover have "window 10 (commitBlockState b ?s)" using D(6) by (auto simp: window_def commitBlockState_def)
    ultimately show ?thesis by (auto simp: Stored onStored_def split: sum.split)
  next
    case (Committed b ans)
    then have "executed_ok (history sys) b" using just(1) by (simp add: call_of_def)
    then have "window 10 (setExecuted (i64 (block_number b - 1)) ?s)" by (rule rollback)
    moreover have "chain_height (lc_blockNumber lc)" if "ans = Inr lc" for lc
      using sync_step_node(3) [OF step] that by (simp add: Committed)
    ultimately show ?thesis
      using window_newBlock [OF D(6) _ _ D(8,7)] by (cases ans) (simp_all add: Committed onCommitted_def finalizeBlock_def Let_def)
  qed (rule window_silent [OF silent_outside D(6)], simp)+
  then show ?thesis using sync_step_node(1) [OF step] by simp
qed

section \<open>The node's view of the ledger\<close>

text \<open>
  The abstract specification: a height and the hash of the block at that height. The view
  moves only when the consensus module announces a new block or the scheduler has committed
  one, to the height and hash reported, and only upwards (from the genesis height 0, the
  report of the genesis block itself is taken over too).
\<close>

type_synonym ledger_view = "BlockNumber \<times> HashType"

fun reported :: "event \<Rightarrow> LedgerConfig option" where
  "reported (NewBlock lc) = Some lc"
| "reported (Committed _ (Inr lc)) = Some lc"
| "reported _ = None"

inductive view_step :: "ledger_view \<Rightarrow> event \<Rightarrow> ledger_view \<Rightarrow> bool" where
  stay: "view_step v e v"
| adopt: "reported e = Some lc \<Longrightarrow> h < lc_blockNumber lc \<or> h = 0 \<and> lc_blockNumber lc = 0 \<Longrightarrow>
    view_step (h, x) e (lc_blockNumber lc, lc_hash lc)"

inductive_simps view_step_iff: "view_step v e v'"

definition view_of :: "'sc BlockSync \<Rightarrow> ledger_view" where
  "view_of s = (c_blockNumber (m_config s), c_hash (m_config s))"

lemma view_setExecuted [simp]: "view_of (setExecuted n s) = view_of s"
  by (simp add: view_of_def setExecutedBlock_def)

lemma view_silent: "silent s s' \<Longrightarrow> view_of s' = view_of s"
  by (simp add: view_of_def silent_def)

lemma view_newBlock:
  assumes "reported e = Some lc'" "lc_blockNumber lc' = lc_blockNumber lc" "lc_hash lc' = lc_hash lc"
    and "chain_height (lc_blockNumber lc)" "0 \<le> c_blockNumber (m_config s)"
  shows "view_step (view_of s) e (view_of (tryToCommitBlockToLedger (onNewBlock F lc s)))"
proof (cases "staleConfig lc (m_config s)")
  case True
  then show ?thesis by (simp add: view_of_def resetConfig_fst view_step.stay)
next
  case False
  then have "view_of (tryToCommitBlockToLedger (onNewBlock F lc s)) = (lc_blockNumber lc', lc_hash lc')"
    using assms(2,3) by (auto simp: view_of_def resetConfig_fst resetBlockInfo_def config_defs Let_def)
  moreover have "c_blockNumber (m_config s) < lc_blockNumber lc' \<or>
      c_blockNumber (m_config s) = 0 \<and> lc_blockNumber lc' = 0"
    using False assms(2,4,5) by (auto simp: staleConfig_def chain_height_def)
  ultimately show ?thesis
    using view_step.adopt [OF assms(1), of "c_blockNumber (m_config s)" "c_hash (m_config s)"]
    by (simp add: view_of_def)
qed

lemma view_handle:
  assumes ok: "event_ok e" and wf: "bs_wf s" and h: "heights_ok s"
  shows "view_step (view_of s) e (view_of (handle F e s))"
proof (cases e)
  case (NewBlock lc)
  then have "chain_height (lc_blockNumber lc)" using ok by simp
  then have "view_step (view_of s) e (view_of (tryToCommitBlockToLedger (onNewBlock F lc s)))"
    using NewBlock bs_wf_height [OF wf] by (intro view_newBlock [of _ lc]) simp_all
  then show ?thesis by (simp add: NewBlock asyncNotifyNewBlock_def view_step.stay)
next
  case (DownloadRun rnds)
  have "bs_wf (takeDownloadTask s)" "heights_ok (takeDownloadTask s)"
    using wf h by (simp_all add: takeDownloadTask_def bs_wf_def heights_ok_def)
  then obtain s1 s2 where s: "silent (takeDownloadTask s) s1" "may_execute s1 s2"
    "silent s2 (downloadTask F rnds (takeDownloadTask s))"
    using downloadTask_shape by blast
  have "view_of s2 = view_of s1" using s(2) by (auto simp: may_execute_def view_of_def)
  then have "view_of (handle F e s) = view_of s"
    using view_silent [OF s(1)] view_silent [OF s(3)] by (simp add: DownloadRun) (simp add: view_of_def takeDownloadTask_def)
  then show ?thesis by (simp add: view_step.stay)
next
  case (Executed b ans)
  then have "view_of (handle F e s) = view_of s"
    by (auto simp: onExecuted_def updateCommitQueue_def view_of_def setExecutedBlock_def split: sum.split)
  then show ?thesis by (simp add: view_step.stay)
next
  case (Checked b ans)
  then have "view_of (handle F e s) = view_of s"
    by (auto simp: onChecked_def commitBlock_def commitBlockState_def view_of_def setExecutedBlock_def Let_def split: sum.split)
  then show ?thesis by (simp add: view_step.stay)
next
  case (Stored b ans)
  then have "view_of (handle F e s) = view_of s"
    by (auto simp: onStored_def commitBlockState_def view_of_def setExecutedBlock_def split: sum.split)
  then show ?thesis by (simp add: view_step.stay)
next
  case (Committed b ans)
  show ?thesis
  proof (cases ans)
    case (Inr lc)
    then have "chain_height (lc_blockNumber lc)" using ok Committed by simp
    then show ?thesis
      using Committed Inr bs_wf_height [OF wf]
      by (simp add: onCommitted_def finalizeBlock_def Let_def) (intro view_newBlock [of _ lc]; simp)
  qed (simp add: Committed onCommitted_def view_step.stay)
qed (auto simp: view_silent [OF silent_outside] view_step.stay simp del: handle.simps)

section \<open>The invariant holds\<close>

lemma init_calls:
  "calls (start (init F genesisHash lc (createBlockSync sc))) = [ConsensusNewBlock lc, GetNodeIDs, StartWorking]"
  by (simp add: start_def init_def createBlockSync_def newBlockSync_def case_prod_unfold Let_def resetConfig_snd
      staleConfig_def setGenesisHash_def setKnownLatestHash_def newBlockSyncConfig_def)

lemma init_fields:
  assumes "s = start (init F genesisHash lc (createBlockSync sc))" "chain_height (lc_blockNumber lc)"
  shows "c_blockNumber (m_config s) = lc_blockNumber lc" "c_executedBlock (m_config s) = lc_blockNumber lc"
    "m_waterMark s = 10" "m_downloadingQueue s = newDownloadingQueue"
  using assms
  by (simp_all add: start_def init_def createBlockSync_def newBlockSync_def case_prod_unfold Let_def resetConfig_fst
      resetBlockInfo_def config_defs newBlockSyncConfig_def chain_height_def)

lemma sync_inv_init: "sync_init F sys \<Longrightarrow> sync_inv sys"
proof (cases rule: sync_init.cases, assumption)
  fix lc s genesisHash sc
  assume sys: "sys = \<lparr>node = s, pending = mset (calls s), history = []\<rparr>" and h: "chain_height (lc_blockNumber lc)"
    and s: "s = start (init F genesisHash lc (createBlockSync sc))"
  have "bs_wf s" unfolding s by (rule bs_safe_wf [OF bs_safe_start bs_wf_init [OF chain_height_height [OF h]]])
  moreover have "calls s = [ConsensusNewBlock lc, GetNodeIDs, StartWorking]" unfolding s by (rule init_calls)
  ultimately show ?thesis
    using init_fields [OF s h] h
    by (simp add: sync_inv_def sys justified_def window_def newDownloadingQueue_def)
qed

lemma sync_inv_step:
  assumes inv: "sync_inv sys" and step: "sync_step F sys e sys'"
  shows "sync_inv sys'"
proof -
  note D = sync_invD [OF inv] and N = sync_step_node [OF step]
  have safe: "bs_wf (node sys')" "m_waterMark (node sys') = 10"
    and ex: "\<exists>cs. calls (node sys') = calls (node sys) @ cs"
    using bs_safe_handle [OF N(3), of "node sys" F] D(1,2) by (auto simp: bs_safe_def N(1))
  have "view_step (view_of (node sys)) e (view_of (node sys'))"
    using view_handle [OF N(3) D(1,9)] by (simp add: N(1))
  then have "chain_height (c_blockNumber (m_config (node sys')))"
    using D(3) N(3) by (cases rule: view_step.cases) (auto simp: view_of_def elim!: reported.elims)
  moreover have "set_mset (pending sys') \<subseteq> set (calls (node sys'))"
    using N(4) D(4) ex by (auto simp: new_calls_def subset_iff)
  moreover have "\<forall>e' \<in> set (history sys'). \<forall>c. call_of e' = Some c \<longrightarrow> c \<in> set (calls (node sys'))"
    using inv N(2,5) D(4) ex by (auto simp: sync_inv_def)
  ultimately show ?thesis
    using safe justified_handle [OF inv step] window_handle [OF inv step] by (simp add: sync_inv_def)
qed

definition view_init :: "ledger_view \<Rightarrow> bool" where
  "view_init v \<longleftrightarrow> chain_height (fst v)"

interpretation sync: simulation "sync_init F" "sync_step F" sync_inv view_init view_step "\<lambda>sys. view_of (node sys)"
proof
  show "sync_inv sys" if "sync_init F sys" for sys
    by (rule sync_inv_init [OF that])
  show "sync_inv sys'" if "sync_inv sys" "sync_step F sys e sys'" for sys e sys'
    by (rule sync_inv_step [OF that])
  show "view_init (view_of (node sys))" if "sync_init F sys" for sys
    using sync_invD(3) [OF sync_inv_init [OF that]] by (simp add: view_init_def view_of_def)
  show "view_step (view_of (node sys)) e (view_of (node sys'))" if "sync_inv sys" "sync_step F sys e sys'" for sys e sys'
    using view_handle [OF sync_step_node(3) [OF that(2)] sync_invD(1,9) [OF that(1)]] sync_step_node(1) [OF that(2)]
    by simp
qed

section \<open>A concrete run\<close>

text \<open>
  A scheduler that answers the given events in order: the executable counterpart of the step
  relation. The run below takes a node from height 6 to height 7.
\<close>

definition exec_event :: "'sc Framework \<Rightarrow> event \<Rightarrow> 'sc system \<Rightarrow> 'sc system" where
  "exec_event F e sys =
     after F e (case call_of e of None \<Rightarrow> pending sys | Some c \<Rightarrow> pending sys - {#c#}) sys"

definition can_happen :: "event \<Rightarrow> 'sc system \<Rightarrow> bool" where
  "can_happen e sys \<longleftrightarrow> event_ok e \<and>
     (case call_of e of None \<Rightarrow> enabled e (node sys) | Some c \<Rightarrow> c \<in># pending sys)"

fun can_run :: "'sc Framework \<Rightarrow> event list \<Rightarrow> 'sc system \<Rightarrow> bool" where
  "can_run F [] sys = True"
| "can_run F (e # es) sys = (can_happen e sys \<and> can_run F es (exec_event F e sys))"

lemma exec_event_step: "can_happen e sys \<Longrightarrow> sync_step F sys e (exec_event F e sys)"
  by (auto simp: can_happen_def exec_event_def intro: sync_step.intros split: option.splits)

lemma can_run_run: "can_run F es sys \<Longrightarrow> run (sync_step F) sys es (fold (exec_event F) es sys)"
  by (induction es arbitrary: sys) (auto intro: run.intros exec_event_step)

definition demoStart :: "DemoSync system" where
  "demoStart = (let s = start (init demoFramework (replicate 32 9) (demoLedgerConfig 6) (createBlockSync demoSync))
     in \<lparr>node = s, pending = mset (calls s), history = []\<rparr>)"

definition demoEvents :: "event list" where
  "demoEvents =
     [Message None (demoNode 1) (msg_encode demo_encodePB (announce 40)),
      Message None (demoNode 1) (msg_encode demo_encodePB (demoPacket [demoBlock 7 1])),
      WorkerRound, DownloadRun (\<lambda>_ i. i),
      Executed (demoBlock 7 1) (Inr (blockHeader (demoBlock 7 1))), Checked (demoBlock 7 1) (Inr True),
      Stored (demoBlock 7 1) (Inr ()), Committed (demoBlock 7 1) (Inr (demoLedgerConfig 7))]"

definition demoEnd :: "DemoSync system" where
  "demoEnd = fold (exec_event demoFramework) demoEvents demoStart"

lemma demoStart_init: "sync_init demoFramework demoStart"
  unfolding demoStart_def Let_def
  by (rule sync_init.intros [OF _ refl]) (simp add: demoLedgerConfig_def chain_height_def)

lemma demoStart_reachable: "reachable demoFramework demoStart"
  by (rule reach_init) (rule demoStart_init)

lemma demo_run: "run (sync_step demoFramework) demoStart demoEvents demoEnd"
  unfolding demoEnd_def by (rule can_run_run) code_simp

lemma demoEnd_reachable: "reachable demoFramework demoEnd"
  by (rule reach_run [OF demo_run demoStart_reachable])

lemma demoEnd_calls: "CommitBlock (demoBlock 7 1) \<in> set (calls (node demoEnd))"
  by code_simp

section \<open>Properties\<close>

text \<open>
  C2: in every reachable state, whatever the order of notifications, messages, tasks and
  callbacks, the module is well-formed: the next block is the successor of the ledger's
  height, executed and known heights are at least the ledger's, the block queues are heaps
  and the packet buffer is within its limit, and the peer table satisfies its invariant.
\<close>

theorem reachable_wellformed:
  assumes "reach (sync_init F) (sync_step F) sys"
  shows "config_wf (m_config (node sys)) \<and> dq_wf (m_config (node sys)) (m_downloadingQueue (node sys)) \<and>
    peers_wf (m_config (node sys)) (m_syncStatus (node sys))"
  using sync_invD(1) [OF sync.reach_inv [OF assms]] by (simp add: bs_wf_def)

theorem reachable_wellformed_witness:
  "config_wf (m_config (node demoEnd)) \<and> dq_wf (m_config (node demoEnd)) (m_downloadingQueue (node demoEnd)) \<and>
    peers_wf (m_config (node demoEnd)) (m_syncStatus (node demoEnd))"
  by (rule reachable_wellformed [OF demoEnd_reachable])

text \<open>
  C1: only verified blocks are committed. In every reachable state, if the scheduler has
  been asked to commit a block, then it had executed the block before with a header of
  the block's own hash, the consensus module had accepted the block, and the ledger had
  stored its transactions unless there are none.
\<close>

theorem commit_only_verified:
  assumes "reach (sync_init F) (sync_step F) sys" and "CommitBlock b \<in> set (calls (node sys))"
  shows "(\<exists>header. Executed b (Inr header) \<in> set (history sys) \<and> bh_hash header = bh_hash (blockHeader b)) \<and>
    Checked b (Inr True) \<in> set (history sys) \<and> (transactions b = [] \<or> Stored b (Inr ()) \<in> set (history sys))"
proof -
  have "call_justified (history sys) (CommitBlock b)"
    using sync_invD(5) [OF sync.reach_inv [OF assms(1)]] assms(2) unfolding justified_def by blast
  then show ?thesis by (simp add: executed_ok_def checked_ok_def stored_ok_def)
qed

theorem commit_only_verified_witness:
  "(\<exists>header. Executed (demoBlock 7 1) (Inr header) \<in> set (history demoEnd) \<and>
      bh_hash header = bh_hash (blockHeader (demoBlock 7 1))) \<and>
    Checked (demoBlock 7 1) (Inr True) \<in> set (history demoEnd) \<and>
    (transactions (demoBlock 7 1) = [] \<or> Stored (demoBlock 7 1) (Inr ()) \<in> set (history demoEnd))"
  by (rule commit_only_verified [OF demoEnd_reachable demoEnd_calls])

text \<open>
  C3: execution never runs away from the ledger. In every reachable state the executed
  height is at least the ledger's and at most \<^verbatim>\<open>m_waterMark\<close> (10) above it, and no block
  beyond that was ever handed to the scheduler.
\<close>

theorem execution_window:
  assumes "reach (sync_init F) (sync_step F) sys"
  shows "c_blockNumber (m_config (node sys)) \<le> c_executedBlock (m_config (node sys)) \<and>
    c_executedBlock (m_config (node sys)) \<le> c_blockNumber (m_config (node sys)) + 10 \<and>
    (\<forall>b. ExecuteBlock b \<in> set (calls (node sys)) \<longrightarrow>
       1 \<le> block_number b \<and> block_number b \<le> c_blockNumber (m_config (node sys)) + 10)"
  using sync_invD(1,6) [OF sync.reach_inv [OF assms]] by (auto simp: window_def bs_wf_def config_wf_def)

theorem execution_window_witness:
  "ExecuteBlock (demoBlock 7 1) \<in> set (calls (node demoEnd)) \<and>
    c_blockNumber (m_config (node demoEnd)) \<le> c_executedBlock (m_config (node demoEnd)) \<and>
    c_executedBlock (m_config (node demoEnd)) \<le> c_blockNumber (m_config (node demoEnd)) + 10 \<and>
    1 \<le> block_number (demoBlock 7 1) \<and>
    block_number (demoBlock 7 1) \<le> c_blockNumber (m_config (node demoEnd)) + 10"
proof -
  have "ExecuteBlock (demoBlock 7 1) \<in> set (calls (node demoEnd))" by code_simp
  with execution_window [OF demoEnd_reachable] show ?thesis by blast
qed

text \<open>
  C4: the module refines the abstract ledger view. Every run of the module from a reachable
  state is, event by event, a run of the specification on height and hash: they change only
  when the consensus module announces a block or the scheduler reports a commit, to what
  was reported, and the height never falls.
\<close>

theorem ledger_view_refinement:
  assumes "reach (sync_init F) (sync_step F) sys" and "run (sync_step F) sys es sys'"
  shows "run view_step (view_of (node sys)) es (view_of (node sys')) \<and>
    c_blockNumber (m_config (node sys)) \<le> c_blockNumber (m_config (node sys'))"
proof -
  have inv: "sync_inv sys" by (rule sync.reach_inv [OF assms(1)])
  have "run view_step v es v' \<Longrightarrow> fst v \<le> fst v'" for v v' es
    by (induction rule: run.induct) (auto simp: view_step_iff)
  from this [OF sync.run_abs [OF assms(2) inv]] sync.run_abs [OF assms(2) inv]
  show ?thesis by (simp add: view_of_def)
qed

theorem ledger_view_refinement_witness:
  "run view_step (view_of (node demoStart)) demoEvents (view_of (node demoEnd)) \<and>
    c_blockNumber (m_config (node demoStart)) \<le> c_blockNumber (m_config (node demoEnd))"
  by (rule ledger_view_refinement [OF demoStart_reachable demo_run])

end
