(* ===== verification/SyncNetwork.thy ===== *)
theory SyncNetwork
  imports SyncSafety
begin

text \<open>
  Many nodes. Each node of the network runs the module as in \<open>SyncSystem\<close>; a message arrives at a
  node only if its sender has sent it to that node, but messages may be lost, repeated,
  delayed and reordered. What a node believes of the others is then never more than the
  truth: \<open>fair\<close> states it for one node, for given bounds \<open>H\<close> on the heights, and every operation of the
  module keeps it.
\<close>

section \<open>Networks\<close>

type_synonym 'sc network = "NodeID \<Rightarrow> 'sc system"

definition heights :: "'sc network \<Rightarrow> NodeID \<Rightarrow> BlockNumber" where
  "heights net k = c_blockNumber (m_config (node (net k)))"

text \<open>The front service delivers what was sent to this node and names the true sender.\<close>

fun sentTo :: "NodeID \<Rightarrow> bytes \<Rightarrow> call \<Rightarrow> bool" where
  "sentTo k data (SendMessage dst d) = (np_data dst = k \<and> d = data)"
| "sentTo k data _ = False"

fun delivered :: "'sc network \<Rightarrow> NodeID \<Rightarrow> event \<Rightarrow> bool" where
  "delivered net k (Message None sender data) =
     list_ex (sentTo k data) (calls (node (net (np_data sender))))"
| "delivered net k _ = True"

lemma sentTo_iff: "sentTo k data c \<longleftrightarrow> (\<exists>dst. c = SendMessage dst data \<and> np_data dst = k)"
  by (cases c) auto

inductive net_step :: "'sc Framework \<Rightarrow> 'sc network \<Rightarrow> NodeID \<times> event \<Rightarrow> 'sc network \<Rightarrow> bool" for F where
  local_step: "sync_step F (net k) e sys \<Longrightarrow> delivered net k e \<Longrightarrow> net_step F net (k, e) (net(k := sys))"

inductive_cases net_stepE: "net_step F net ke net'"

definition net_init :: "'sc Framework \<Rightarrow> 'sc network \<Rightarrow> bool" where
  "net_init F net \<longleftrightarrow> (\<forall>k. sync_init F (net k) \<and> np_data (fw_nodeID F (cfg_sync (node (net k)))) = k)"

text \<open>
  What the module relies on in the framework: the serialiser gives back the message it was
  given, and replacing a node list does not change the node's own identity.
\<close>

definition faithful :: "'sc Framework \<Rightarrow> bool" where
  "faithful F \<longleftrightarrow>
     (\<forall>m. fw_decodePB F (fw_encodePB F m) = Some m) \<and>
     (\<forall>ns sc. fw_nodeID F (fw_setConsensusNodeList F ns sc) = fw_nodeID F sc \<and>
        fw_nodeID F (fw_setObserverList F ns sc) = fw_nodeID F sc \<and>
        fw_nodeID F (fw_setConnectedNodeList F ns sc) = fw_nodeID F sc \<and>
        fw_nodeID F (fw_notifyConnectedNodes F ns sc) = fw_nodeID F sc)"

section \<open>What a node says and believes\<close>

text \<open>
  A status message states no more than the sender's height, a request names at least one block, and
  no block above the receiver's height.
\<close>

definition truthful :: "(NodeID \<Rightarrow> BlockNumber) \<Rightarrow> NodeID \<Rightarrow> NodeIDPtr \<Rightarrow> BlockSyncMessage \<Rightarrow> bool" where
  "truthful H k dst m \<longleftrightarrow>
     (pb_packetType m = packetCode BlockStatusPacket \<longrightarrow> pb_number m \<le> H k) \<and>
     (pb_packetType m = packetCode BlockRequestPacket \<longrightarrow>
        1 \<le> pb_number m \<and> 1 \<le> pb_size m \<and> pb_number m + pb_size m - 1 \<le> H (np_data dst))"

definition honest :: "'sc Framework \<Rightarrow> (NodeID \<Rightarrow> BlockNumber) \<Rightarrow> NodeID \<Rightarrow> call \<Rightarrow> bool" where
  "honest F H k c \<longleftrightarrow> (\<forall>dst data. c = SendMessage dst data \<longrightarrow> (\<exists>m. data = fw_encodePB F m \<and> truthful H k dst m))"

definition believes :: "(NodeID \<Rightarrow> BlockNumber) \<Rightarrow> 'sc BlockSyncConfig \<Rightarrow> SyncPeerStatus \<Rightarrow> bool" where
  "believes H cfg st \<longleftrightarrow>
     (\<forall>q p. (q, p) \<in> set (m_peersStatus st) \<longrightarrow> ps_number p \<le> H q) \<and> (\<exists>j. c_knownHighestNumber cfg \<le> H j)"

definition fair :: "'sc Framework \<Rightarrow> (NodeID \<Rightarrow> BlockNumber) \<Rightarrow> NodeID \<Rightarrow> 'sc BlockSync \<Rightarrow> bool" where
  "fair F H k s \<longleftrightarrow>
     np_data (fw_nodeID F (cfg_sync s)) = k \<and> c_blockNumber (m_config s) \<le> H k \<and>
     (\<forall>c \<in> set (calls s). honest F H k c) \<and> believes H (m_config s) (m_syncStatus s)"

lemma fairD:
  assumes "fair F H k s"
  shows "np_data (fw_nodeID F (cfg_sync s)) = k" "c_blockNumber (m_config s) \<le> H k"
    "c \<in> set (calls s) \<Longrightarrow> honest F H k c" "believes H (m_config s) (m_syncStatus s)"
  using assms by (auto simp: fair_def)

lemma truthful_mono: "truthful H k dst m \<Longrightarrow> (\<And>j. H j \<le> H' j) \<Longrightarrow> truthful H' k dst m"
  by (auto simp: truthful_def intro: order_trans)

lemma honest_mono:
  assumes "honest F H k c" "\<And>j. H j \<le> H' j"
  shows "honest F H' k c"
  using assms(1) truthful_mono [where H = H and H' = H', OF _ assms(2)] unfolding honest_def by blast

lemma fair_mono:
  assumes "fair F H k s" "\<And>j. H j \<le> H' j"
  shows "fair F H' k s"
proof -
  have "believes H' (m_config s) (m_syncStatus s)"
    using fairD(4) [OF assms(1)] assms(2) unfolding believes_def by (meson order_trans)
  moreover have "\<forall>c \<in> set (calls s). honest F H' k c"
    by (intro ballI honest_mono [where H = H and H' = H', OF _ assms(2)] fairD(3) [OF assms(1)])
  moreover have "c_blockNumber (m_config s) \<le> H' k" by (rule order_trans [OF fairD(2) [OF assms(1)] assms(2)])
  ultimately show ?thesis using fairD(1) [OF assms(1)] by (simp add: fair_def)
qed

lemma honest_other [simp]:
  "honest F H k (ExecuteBlock b)" "honest F H k (CheckBlock b)" "honest F H k (StoreTransactions ts hs b)"
  "honest F H k (CommitBlock b)" "honest F H k (ConsensusNewBlock lc)" "honest F H k (NotifyHighestSyncingNumber n)"
  "honest F H k (GetBlockData a p n)" "honest F H k GetNodeIDs" "honest F H k StartWorking"
  by (simp_all add: honest_def)

text \<open>
  A step that keeps the peer table and the identity, raises the known height at most to the
  node's own and sends only honest messages.
\<close>

lemma fair_step:
  assumes "fair F H k s" "fw_nodeID F (cfg_sync s') = fw_nodeID F (cfg_sync s)" "c_blockNumber (m_config s') \<le> H k"
    "c_knownHighestNumber (m_config s') = c_knownHighestNumber (m_config s) \<or> c_knownHighestNumber (m_config s') \<le> H k"
    "m_peersStatus (m_syncStatus s') = m_peersStatus (m_syncStatus s)"
    "calls s' = calls s @ cs" "\<And>c. c \<in> set cs \<Longrightarrow> honest F H k c"
  shows "fair F H k s'"
  using assms by (auto simp: fair_def believes_def)

lemma fair_config:
  assumes "fair F H k s" "m_config s' = m_config s" "m_peersStatus (m_syncStatus s') = m_peersStatus (m_syncStatus s)"
    "calls s' = calls s @ cs" "\<And>c. c \<in> set cs \<Longrightarrow> honest F H k c"
  shows "fair F H k s'"
  by (rule fair_step [OF assms(1) _ _ _ assms(3-5)]) (use assms(2) fairD(2) [OF assms(1)] in simp_all)

lemma fair_same:
  assumes "fair F H k s" "m_config s' = m_config s" "m_peersStatus (m_syncStatus s') = m_peersStatus (m_syncStatus s)" "calls s' = calls s"
  shows "fair F H k s'"
  by (rule fair_config [OF assms(1-3), of "[]"]) (simp_all add: assms(4))

lemma fair_emit: "fair F H k s \<Longrightarrow> honest F H k c \<Longrightarrow> fair F H k (emit c s)"
  by (rule fair_config [where cs = "[c]"]) auto

lemma fair_setExecuted: "fair F H k s \<Longrightarrow> fair F H k (setExecuted n s)"
  by (rule fair_step [where cs = "[]"]) (auto simp: setExecuted_def setExecutedBlock_def fair_def)

lemma fair_fold: "fair F H k s \<Longrightarrow> (\<And>x s. fair F H k s \<Longrightarrow> fair F H k (f x s)) \<Longrightarrow> fair F H k (fold f xs s)"
  by (induction xs arbitrary: s) auto


section \<open>The operations\<close>

lemma honest_status:
  "n \<le> H k \<Longrightarrow> honest F H k (SendMessage dst (msg_encode (fw_encodePB F) (createBlockSyncStatusMsg n h g v)))"
  by (auto simp: honest_def truthful_def createBlockSyncStatusMsg_eq msg_encode_def)

lemma honest_blocks: "honest F H k (SendMessage dst (msg_encode (fw_encodePB F) (setNumber n (appendBlockData b newBlocksMsg))))"
  by (auto simp: honest_def truthful_def msg_encode_def appendBlockData_snoc message_defs emptyMessage_def)

lemma honest_request:
  assumes "1 \<le> f" "f \<le> t" "t \<le> H (np_data dst)" "t < 2 ^ 63"
  shows "honest F H k (SendMessage dst (msg_encode (fw_encodePB F) (shardRequest f t)))"
proof -
  have "in_i64 (t - f + 1)" using assms by (simp add: in_i64_def)
  then have "m_syncMessage (shardRequest f t) = \<lparr>pb_version = 0, pb_packetType = 1, pb_number = f, pb_hash = [],
      pb_genesisHash = [], pb_size = t - f + 1, pb_blocksData = []\<rparr>"
    by (simp add: shardRequest_def message_defs emptyMessage_def)
  then show ?thesis using assms by (auto simp: honest_def truthful_def msg_encode_def)
qed

lemma fair_tryToCommit: "fair F H k s \<Longrightarrow> fair F H k (tryToCommitBlockToLedger s)"
proof -
  assume s: "fair F H k s"
  have "\<exists>cs. calls (tryToCommitBlockToLedger s) = calls s @ cs \<and> set cs \<subseteq> range CheckBlock"
    by (auto simp: tryToCommitBlockToLedger_def checkAndCommitBlock_def Let_def split: option.split)
  then obtain cs where cs: "calls (tryToCommitBlockToLedger s) = calls s @ cs" "set cs \<subseteq> range CheckBlock" by blast
  have "m_syncStatus (tryToCommitBlockToLedger s) = m_syncStatus s" by (rule same_more(1)) simp
  then show ?thesis using cs by (intro fair_config [OF s _ _ cs(1)]) auto
qed

lemma resetConfig_heights:
  "c_blockNumber (fst (resetConfig F lc cfg)) = (if staleConfig lc cfg then c_blockNumber cfg else lc_blockNumber lc)"
  "c_knownHighestNumber (fst (resetConfig F lc cfg)) =
     (if staleConfig lc cfg then c_knownHighestNumber cfg else max (c_knownHighestNumber cfg) (lc_blockNumber lc))"
  by (simp_all add: resetConfig_fst resetBlockInfo_def setHash_def setKnownLatestHash_def Let_def)

lemma fair_onNewBlock:
  assumes s: "fair F H k s" and F: "faithful F" and h: "c_blockNumber (m_config (onNewBlock F lc s)) \<le> H k"
  shows "fair F H k (onNewBlock F lc s)"
proof (rule fair_step [OF s _ h _ _ onNewBlock_calls])
  show "fw_nodeID F (cfg_sync (onNewBlock F lc s)) = fw_nodeID F (cfg_sync s)"
    using F by (simp add: faithful_def resetConfig_fst config_defs Let_def)
  show "c_knownHighestNumber (m_config (onNewBlock F lc s)) = c_knownHighestNumber (m_config s) \<or>
      c_knownHighestNumber (m_config (onNewBlock F lc s)) \<le> H k"
    using h by (auto simp: resetConfig_heights max_def split: if_splits)
  have "m_syncStatus (onNewBlock F lc s) = m_syncStatus s" by (rule same_more(1)) simp
  then show "m_peersStatus (m_syncStatus (onNewBlock F lc s)) = m_peersStatus (m_syncStatus s)" by simp
  show "honest F H k c" if "c \<in> set (snd (resetConfig F lc (m_config s)) @ map (\<lambda>n. SendMessage n (msg_encode (fw_encodePB F)
      (currentStatus (m_config (onNewBlock F lc s))))) (statusReceivers F (cfg_sync (onNewBlock F lc s))))" for c
    using that h by (auto simp: resetConfig_snd currentStatus_def intro!: honest_status split: if_splits)
qed

lemma fair_newBlock:
  assumes s: "fair F H k s" and F: "faithful F" and h: "c_blockNumber (m_config (asyncNotifyNewBlock F lc s)) \<le> H k"
  shows "fair F H k (asyncNotifyNewBlock F lc s)"
proof (cases "c_blockNumber (m_config s) < lc_blockNumber lc")
  case True
  then have "c_blockNumber (m_config (onNewBlock F lc s)) \<le> H k" using h by (simp add: asyncNotifyNewBlock_def)
  then show ?thesis using True fair_tryToCommit [OF fair_onNewBlock [OF s F]] by (simp add: asyncNotifyNewBlock_def)
qed (simp add: asyncNotifyNewBlock_def s)

lemma fair_onCommitted:
  assumes s: "fair F H k s" and F: "faithful F"
    and h: "c_blockNumber (m_config (onCommitted (Some (onNewBlock F)) b ans s)) \<le> H k"
  shows "fair F H k (onCommitted (Some (onNewBlock F)) b ans s)"
proof (cases ans)
  case (Inl e)
  then show ?thesis by (simp add: onCommitted_def fair_setExecuted [OF s])
next
  case (Inr lc)
  then show ?thesis
    using h fair_tryToCommit [OF fair_onNewBlock [OF s F]] by (simp add: onCommitted_def finalizeBlock_def Let_def)
qed

lemma fair_onExecuted: "fair F H k s \<Longrightarrow> fair F H k (onExecuted b ans s)"
  by (auto simp: onExecuted_def updateCommitQueue_def intro!: fair_setExecuted fair_tryToCommit split: sum.split)
    (rule fair_same [OF fair_setExecuted]; simp)

lemma fair_onChecked: "fair F H k s \<Longrightarrow> fair F H k (onChecked b ans s)"
  by (auto simp: onChecked_def commitBlock_def commitBlockState_def Let_def intro!: fair_setExecuted fair_emit split: sum.split)

lemma fair_onStored: "fair F H k s \<Longrightarrow> fair F H k (onStored b ans s)"
  by (auto simp: onStored_def commitBlockState_def intro!: fair_setExecuted fair_emit split: sum.split)


text \<open>A status of a peer that does not exceed the peer's height keeps the beliefs true.\<close>

lemma set_map_insert_subset: "set (map_insert k v m) \<subseteq> insert (k, v) (set m)"
  by (induction m) auto

lemma set_map_modify_subset: "set (map_modify k f m) \<subseteq> {e \<in> set m. fst e \<noteq> k} \<union> (\<lambda>e. (k, f (snd e))) ` set m"
  by (auto simp: map_modify_def)

lemma peer_update_number: "peer_update status p = (changed, p') \<Longrightarrow> ps_number p' = msg_number status \<or> p' = p"
  by (auto simp: peer_update_def Let_def split: if_splits)

lemma believes_known:
  assumes "believes H cfg st" "msg_number status \<le> H j"
  shows "believes H (updateKnownMaxBlockInfo status cfg) st"
  using assms by (auto simp: believes_def updateKnownMaxBlockInfo_def config_defs)

lemma believes_update:
  assumes b: "believes H cfg st" and upd: "updatePeerStatus peer status cfg st = (ok, cfg', st')"
    and n: "msg_number status \<le> H (np_data peer)"
  shows "believes H cfg' st'"
proof (cases "m_genesisHash status = c_genesisHash cfg")
  case gen: True
  show ?thesis
  proof (cases "map_of (m_peersStatus st) (np_data peer)")
    case None
    with upd gen have cfg': "cfg' = updateKnownMaxBlockInfo status cfg"
      and st': "m_peersStatus st' = map_insert (np_data peer) (fst (peerStatusOf peer status st)) (m_peersStatus st)"
      by (auto simp: updatePeerStatus_def peerStatusOf_def newPeerStatus_def Let_def)
    have "ps_number p \<le> H q" if "(q, p) \<in> set (m_peersStatus st')" for q p
      using that set_map_insert_subset [of "np_data peer"] b n unfolding st'
      by (auto simp: believes_def peerStatusOf_def newPeerStatus_def dest!: subsetD [OF set_map_insert_subset])
    then show ?thesis using believes_known [OF b n] by (simp add: cfg' believes_def)
  next
    case (Some p0)
    obtain changed p1 where p1: "peer_update status p0 = (changed, p1)" by force
    with upd gen Some have cfg': "cfg' = (if changed then updateKnownMaxBlockInfo status cfg else cfg)"
      and st': "m_peersStatus st' = map_modify (np_data peer) (\<lambda>_. p1) (m_peersStatus st)"
      by (auto simp: updatePeerStatus_def)
    have "ps_number p1 \<le> H (np_data peer)"
      using peer_update_number [OF p1] n b map_of_SomeD [OF Some] by (auto simp: believes_def)
    then have "ps_number p \<le> H q" if "(q, p) \<in> set (m_peersStatus st')" for q p
      using that b unfolding st' by (auto simp: believes_def dest!: subsetD [OF set_map_modify_subset])
    then show ?thesis using believes_known [OF b n] b by (simp add: cfg' believes_def)
  qed
qed (use b upd in \<open>auto simp: updatePeerStatus_def\<close>)

lemma fair_update:
  assumes s: "fair F H k s" and upd: "updatePeerStatus peer status (m_config s) (m_syncStatus s) = (ok, cfg', st')"
    and n: "msg_number status \<le> H (np_data peer)"
  shows "fair F H k (s\<lparr>m_config := cfg', m_syncStatus := st'\<rparr>)"
proof -
  have "c_sync cfg' = cfg_sync s" "c_blockNumber cfg' = c_blockNumber (m_config s)"
    using upd by (auto simp: updatePeerStatus_def updateKnownMaxBlockInfo_def config_defs Let_def split: if_splits option.splits prod.splits)
  then show ?thesis
    using s believes_update [OF fairD(4) [OF s] upd n] by (simp add: fair_def)
qed

lemma fair_connectNode:
  assumes s: "fair F H k s"
  shows "fair F H k (connectNode F n s)"
proof -
  obtain ok cfg' st' where upd: "updatePeerStatus (fw_nodeID F (cfg_sync s)) (currentStatus (m_config s))
      (m_config s) (m_syncStatus s) = (ok, cfg', st')"
    by (metis prod_cases3)
  have num: "msg_number (currentStatus (m_config s)) \<le> H (np_data (fw_nodeID F (cfg_sync s)))"
    using fairD(1,2) [OF s] by (simp add: currentStatus_def createBlockSyncStatusMsg_eq msg_number_def)
  have "honest F H k (SendMessage n (msg_encode (fw_encodePB F) (currentStatus (m_config s))))"
    unfolding currentStatus_def by (rule honest_status) (rule fairD(2) [OF s])
  with fair_emit [OF fair_update [OF s upd num]] show ?thesis using s upd by (simp add: connectNode_def Let_def)
qed

lemma fair_executeWorker:
  assumes s: "fair F H k s"
  shows "fair F H k (executeWorker F s)"
proof -
  have "believes H cfg (deletePeer p st)" if "believes H cfg st" for cfg :: "'a BlockSyncConfig" and p st
    using that by (auto simp: believes_def deletePeer_def map_erase_def split: option.split)
  then have del: "believes H cfg (fold deletePeer ps st)" if "believes H cfg st" for cfg :: "'a BlockSyncConfig" and ps st
    using that by (induction ps arbitrary: st) auto
  let ?s = "s\<lparr>m_syncStatus := fold deletePeer (foreachPeer (peerToDelete F (m_config s)) (m_syncStatus s) []) (m_syncStatus s)\<rparr>"
  have "fair F H k ?s" using s del [OF fairD(4) [OF s]] by (simp add: fair_def)
  then have "fair F H k (fold (connectNode F) (fw_groupNodeList F (cfg_sync ?s)) ?s)"
    by (rule fair_fold) (rule fair_connectNode)
  then have "fair F H k (maintainPeersConnection F s)" using s by (simp add: maintainPeersConnection_def Let_def)
  then show ?thesis by (rule fair_same) (simp_all add: executeWorker_def Let_def)
qed

lemma fair_maintainBlockRequest:
  assumes "fair F H k s"
  shows "fair F H k (maintainBlockRequest rnd s)"
  unfolding maintainBlockRequest_def
proof (rule foreachPeerRandom_inv [where P = "fair F H k"])
  show "fair F H k s" by (rule assms)
  fix p :: PeerStatus and s :: "'a BlockSync" assume s: "fair F H k s"
  obtain ns where ns: "serveRequests (ps_downloadRequests p) (ps_nodeId p) (req_store (m_syncStatus s) ! ps_downloadRequests p) s =
      ([], s\<lparr>calls := calls s @ map (GetBlockData (ps_downloadRequests p) (ps_nodeId p)) ns\<rparr>)"
    using serveRequests_general by blast
  show "fair F H k (snd (servePeer p s))"
  proof (cases "drq_empty (req_store (m_syncStatus s) ! ps_downloadRequests p)")
    case False
    then show ?thesis
      by (intro fair_config [OF s, where cs = "map (GetBlockData (ps_downloadRequests p) (ps_nodeId p)) ns"])
        (auto simp: servePeer_def ns Let_def)
  qed (simp add: servePeer_def s Let_def)
qed

lemma fair_onBlockData: "fair F H k s \<Longrightarrow> fair F H k (onBlockData F q peer n ans s)"
proof (cases ans)
  case (Inl e)
  assume "fair F H k s"
  then show ?thesis by (rule fair_same) (simp_all add: onBlockData_def Inl push_at_def)
next
  case (Inr b)
  assume "fair F H k s"
  then show ?thesis by (simp add: onBlockData_def Inr fair_emit honest_blocks)
qed


text \<open>Requests go to peers at the known height, which is at least the last block asked for.\<close>

lemma fair_requestBlocks:
  assumes s: "fair F H k s" and wf: "bs_wf s" and range: "range_ok f t (c_maxRequestBlocks (m_config s))"
    and t: "t \<le> c_knownHighestNumber (m_config s)"
  shows "fair F H k (requestBlocks F rnds f t s)"
proof -
  let ?sz = "c_maxRequestBlocks (m_config s)"
  obtain ps where ps: "requestBlocks F rnds f t s = sent F f t 0 ps (s\<lparr>m_state := Downloading, m_timerRunning := True\<rparr>)"
    and len: "length ps \<le> shards f t ?sz"
    and cnt: "\<And>p. count (mset ps) p \<le> unat (c_maxShardPerPeer (m_config s)) * count (sources s) p"
    using requestBlocks_sent [OF wf range t, of F rnds] by auto
  have "honest F H k (SendMessage (ps_nodeId p) (msg_encode (fw_encodePB F)
      (shardRequest (shardFrom f ?sz (of_nat j)) (shardTo f t ?sz (of_nat j)))))"
    if j: "j < length ps" and p: "p = ps ! j" for j p
  proof (rule honest_request)
    have i: "j < shards f t ?sz" using j len by simp
    note within = shard_within [OF range i] shardFrom_eq [OF range i] shardTo_eq [OF range i]
    have pos: "0 \<le> int j * uint ?sz" "0 < uint ?sz" "0 \<le> f" "t < 2 ^ 63" using range by (simp_all add: range_ok_def)
    show "1 \<le> shardFrom f ?sz (of_nat j)" using within(2) pos by simp
    show "shardFrom f ?sz (of_nat j) \<le> shardTo f t ?sz (of_nat j)"
      using within pos by (simp add: algebra_simps)
    have "p \<in># sources s" using senders_among [OF cnt] j p by auto
    then have "c_knownHighestNumber (m_config s) \<le> ps_number p" "p \<in> snd ` set (m_peersStatus (m_syncStatus s))"
      by (auto simp: sources_def upToDate_def)
    then obtain q where q: "(q, p) \<in> set (m_peersStatus (m_syncStatus s))" by auto
    have P: "peers_wf (m_config s) (m_syncStatus s)" using wf by (simp add: bs_wf_def)
    have "np_data (ps_nodeId p) = q"
      using peers_wfD(2) [OF P, of q p] q map_sorted_distinct [OF peers_wfD(1) [OF P]] by (simp add: peer_ok_def)
    moreover have "ps_number p \<le> H q" using fairD(4) [OF s] q by (simp add: believes_def)
    ultimately show "shardTo f t ?sz (of_nat j) \<le> H (np_data (ps_nodeId p))"
      using within(3) t \<open>c_knownHighestNumber (m_config s) \<le> ps_number p\<close> by simp
    show "shardTo f t ?sz (of_nat j) < 2 ^ 63" using within(3) pos by simp
  qed
  then have "honest F H k c" if "c \<in> set (requestCalls F f t ?sz 0 ps)" for c
    using that by (auto simp: requestCalls_def set_zip)
  then show ?thesis unfolding ps by (intro fair_config [OF s]) auto
qed

lemma fair_tryToRequestBlocks:
  assumes s: "fair F H k s" and wf: "bs_wf s" and sz: "c_maxRequestBlocks (m_config s) = 8"
    and H: "\<And>j. H j < 2 ^ 62"
  shows "fair F H k (tryToRequestBlocks F rnds s)"
proof (cases "requestBlocked s")
  case True
  show ?thesis
  proof (rule fair_same [OF s])
    show "m_config (tryToRequestBlocks F rnds s) = m_config s" by (rule tryToRequestBlocks_inv) simp_all
    have "m_syncStatus (tryToRequestBlocks F rnds s) = m_syncStatus s" by (rule tryToRequestBlocks_inv) simp_all
    then show "m_peersStatus (m_syncStatus (tryToRequestBlocks F rnds s)) = m_peersStatus (m_syncStatus s)" by simp
  qed (rule tryToRequestBlocks_blocked [OF True])
next
  case False
  then obtain s1 where s1: "m_config s1 = m_config s" "m_downloadingQueue s1 = m_downloadingQueue s" "m_syncStatus s1 = m_syncStatus s"
    "calls s1 = calls s @ [NotifyHighestSyncingNumber (c_knownHighestNumber (m_config s))]"
    "tryToRequestBlocks F rnds s = (if requestTarget s \<le> c_blockNumber (m_config s) then s1
       else requestBlocks F rnds (c_blockNumber (m_config s)) (requestTarget s) s1)"
    by (rule tryToRequestBlocks_active)
  have f1: "fair F H k s1" by (rule fair_config [OF s s1(1) _ s1(4)]) (simp_all add: s1(3))
  obtain j where "c_knownHighestNumber (m_config s) \<le> H j" using fairD(4) [OF s] by (auto simp: believes_def)
  then have known: "c_knownHighestNumber (m_config s) < 2 ^ 62" using H [of j] by simp
  have wf1: "bs_wf s1" using wf s1 by (simp add: bs_wf_def)
  show ?thesis
  proof (cases "requestTarget s \<le> c_blockNumber (m_config s)")
    case False
    have "range_ok (c_blockNumber (m_config s)) (requestTarget s) (c_maxRequestBlocks (m_config s1))"
      using False known requestTarget_le [of s] bs_wf_height [OF wf] by (simp add: range_ok_def s1(1) sz)
    from fair_requestBlocks [OF f1 wf1 this] show ?thesis
      using False requestTarget_le [of s] by (simp add: s1)
  qed (simp add: s1(5) f1)
qed


lemma fair_downloadTask:
  assumes s: "fair F H k s" and wf: "bs_wf s" and sz: "c_maxRequestBlocks (m_config s) = 8" and H: "\<And>j. H j < 2 ^ 62"
  shows "fair F H k (downloadTask F rnds s)"
proof -
  let ?s1 = "maintainDownloadingBuffer F s"
  have s1: "fair F H k ?s1" by (rule fair_same [OF s]) (simp_all add: maintainDownloadingBuffer_def Let_def)
  have blocks: "fair F H k (with_blocks q s)" "fair F H k ((with_blocks q s)\<lparr>m_state := st\<rparr>)" if "fair F H k s" for q st s
    by (rule fair_same [OF that]; simp)+
  have "fair F H k (applyBlock b s)" if "fair F H k s" for b s
    using that by (auto simp: applyBlock_def intro: fair_setExecuted fair_emit)
  moreover have "fair F H k (downloadFinish (s\<lparr>m_downloadingQueue := dq_clear (m_downloadingQueue s)\<rparr>))" if "fair F H k s" for s
    by (rule fair_same [OF that]) simp_all
  ultimately have "fair F H k (maintainDownloadingQueue ?s1)"
    using s1 fair_tryToCommit [OF s1] blocks by (auto simp: maintainDownloadingQueue_eq Let_def split: option.split)
  moreover have "bs_safe s (maintainDownloadingQueue ?s1)"
    by (rule bs_safe_trans [OF bs_safe_maintainDownloadingBuffer bs_safe_maintainDownloadingQueue])
  then have "bs_wf (maintainDownloadingQueue ?s1)" "c_maxRequestBlocks (m_config (maintainDownloadingQueue ?s1)) = 8"
    using wf sz by (simp_all add: bs_safe_def advances_def)
  ultimately show ?thesis unfolding downloadTask_def using H by (intro fair_tryToRequestBlocks)
qed

lemma fair_message:
  assumes s: "fair F H k s" and F: "faithful F" and H: "\<And>j. 0 \<le> H j"
    and m: "err = None \<Longrightarrow> \<exists>m dst. data = fw_encodePB F m \<and> truthful H (np_data peer) dst m"
  shows "fair F H k (asyncNotifyBlockSyncMessage F err peer data s)"
proof (cases err)
  case None
  with m obtain pb dst where pb: "data = fw_encodePB F pb" "truthful H (np_data peer) dst pb" by blast
  define msg where "msg = newBlockSyncMsg\<lparr>m_syncMessage := pb\<rparr>"
  have dec: "createBlockSyncMsg (fw_decodePB F) data = Some msg"
    using F by (simp add: faithful_def pb(1) createBlockSyncMsg_def msg_decode_def msg_def)
  have "fair F H k (onPeerStatus F peer msg s)" if t: "msg_packetType msg = packetCode BlockStatusPacket"
  proof -
    have "msg_number (statusOfMsg msg) \<le> H (np_data peer)"
      using pb(2) t by (simp add: truthful_def msg_def message_defs Let_def)
    then show ?thesis
      using s fair_update [OF s] by (auto simp: onPeerStatus_def split: prod.split)
  qed
  moreover have "fair F H k (onPeerBlocks msg s)"
    by (rule fair_same [OF s]) (simp_all add: onPeerBlocks_def)
  moreover have "fair F H k (onPeerBlocksRequest F peer msg s)"
  proof -
    have "believes H (m_config s) (snd (insertEmptyPeer peer (m_syncStatus s)))"
      using fairD(4) [OF s] H
      by (auto simp: believes_def insertEmptyPeer_def newEmptyPeerStatus_def newPeerStatus_def dest!: subsetD [OF set_map_insert_subset])
    then have "believes H (m_config s) (m_syncStatus (onPeerBlocksRequest F peer msg s))"
      using fairD(4) [OF s] by (auto simp: onPeerBlocksRequest_def believes_def push_at_def Let_def split: prod.split option.split)
    then show ?thesis
      using s by (auto simp: fair_def onPeerBlocksRequest_def Let_def split: prod.split option.split)
  qed
  ultimately show ?thesis using None dec s by (simp add: asyncNotifyBlockSyncMessage_def)
qed (simp add: asyncNotifyBlockSyncMessage_def s)

lemma fair_handle:
  assumes s: "fair F H k s" and wf: "bs_wf s" "c_maxRequestBlocks (m_config s) = 8" and F: "faithful F"
    and H: "\<And>j. 0 \<le> H j" "\<And>j. H j < 2 ^ 62" and h: "c_blockNumber (m_config (handle F e s)) \<le> H k"
    and m: "\<And>peer data. e = Message None peer data \<Longrightarrow> \<exists>m dst. data = fw_encodePB F m \<and> truthful H (np_data peer) dst m"
  shows "fair F H k (handle F e s)"
proof (cases e)
  case (NewBlock lc)
  then show ?thesis using fair_newBlock [OF s F] h by simp
next
  case (Committed b ans)
  then show ?thesis using fair_onCommitted [OF s F] h by simp
next
  case (Message err peer data)
  then show ?thesis using fair_message [OF s F H(1)] m by simp
next
  case (DownloadRun rnds)
  have "fair F H k (takeDownloadTask s)" by (rule fair_same [OF s]) (simp_all add: takeDownloadTask_def)
  moreover have "bs_wf (takeDownloadTask s)" by (rule bs_safe_wf [OF bs_safe_task(1) wf(1)])
  ultimately show ?thesis using wf(2) H(2) by (simp add: DownloadRun fair_downloadTask takeDownloadTask_def)
next
  case (SendRun rnd)
  have "fair F H k (takeSendTask s)" by (rule fair_same [OF s]) (simp_all add: takeSendTask_def)
  then show ?thesis by (simp add: SendRun fair_maintainBlockRequest)
next
  case (NodeIDs ans)
  then show ?thesis using s F by (auto simp: onNodeIDs_def fair_def faithful_def believes_def split: sum.split option.split)
next
  case (ConnectedNodes ns)
  then show ?thesis using s F by (simp add: notifyConnectedNodes_def fair_def faithful_def believes_def)
next
  case (CommittedIndex n)
  then show ?thesis using s by (simp add: asyncNotifyCommittedIndex_def setCommittedProposalNumber_def fair_def believes_def)
next
  case DownloadTimeout
  then show ?thesis by (auto simp: onDownloadTimeout_def intro: fair_same [OF s])
qed (simp_all add: s fair_executeWorker fair_onExecuted fair_onChecked fair_onStored fair_onBlockData)

section \<open>The invariant of the network\<close>

definition net_inv :: "'sc Framework \<Rightarrow> 'sc network \<Rightarrow> bool" where
  "net_inv F net \<longleftrightarrow> (\<forall>k. sync_inv (net k) \<and> c_maxRequestBlocks (m_config (node (net k))) = 8 \<and>
     fair F (heights net) k (node (net k)))"

lemma net_inv_init:
  assumes "net_init F net"
  shows "net_inv F net"
  unfolding net_inv_def
proof (intro allI conjI)
  fix k
  have init: "sync_init F (net k)" and id: "np_data (fw_nodeID F (cfg_sync (node (net k)))) = k"
    using assms by (simp_all add: net_init_def)
  show "sync_inv (net k)" by (rule sync.init_inv [OF init])
  from init obtain lc g sc where s: "node (net k) = start (init F g lc (createBlockSync sc))" and h: "chain_height (lc_blockNumber lc)"
    by (auto elim: sync_init.cases)
  note f = init_fields [OF s h]
  show "c_maxRequestBlocks (m_config (node (net k))) = 8"
    by (simp add: s start_def init_def createBlockSync_def newBlockSync_def case_prod_unfold Let_def resetConfig_fst
        resetBlockInfo_def config_defs newBlockSyncConfig_def)
  have "c_knownHighestNumber (m_config (node (net k))) \<le> lc_blockNumber lc" "m_peersStatus (m_syncStatus (node (net k))) = []"
    using h by (simp_all add: s start_def init_def createBlockSync_def newBlockSync_def case_prod_unfold Let_def resetConfig_fst
        resetBlockInfo_def config_defs newBlockSyncConfig_def chain_height_def newSyncPeerStatus_def)
  then have "believes (heights net) (m_config (node (net k))) (m_syncStatus (node (net k)))"
    using f(1) by (auto simp: believes_def heights_def intro: exI [of _ k])
  then show "fair F (heights net) k (node (net k))"
    using id init_calls [of F g lc sc] by (auto simp: fair_def heights_def s)
qed

lemma net_inv_step:
  assumes inv: "net_inv F net" and F: "faithful F" and step: "net_step F net ke net'"
  shows "net_inv F net'"
proof -
  obtain k e sys where ke: "ke = (k, e)" "net' = net(k := sys)" and sys: "sync_step F (net k) e sys" and del: "delivered net k e"
    using step by (auto elim: net_stepE)
  let ?s = "node (net k)" and ?s' = "node sys"
  have s: "sync_inv (net k)" "c_maxRequestBlocks (m_config ?s) = 8" "\<And>j. fair F (heights net) j (node (net j))"
    "\<And>j. sync_inv (net j)"
    using inv by (simp_all add: net_inv_def)
  have s': "?s' = handle F e ?s" by (rule sync_step_node(1) [OF sys])
  have safe: "bs_safe ?s ?s'" unfolding s' by (rule bs_safe_handle [OF sync_step_node(3) [OF sys]])
  have sys_inv: "sync_inv sys" by (rule sync.step_inv [OF s(1) sys])
  have all: "sync_inv (net' j)" for j using s(4) sys_inv by (simp add: ke(2))
  have mono: "heights net j \<le> heights net' j" for j
    using safe sync_invD(1) [OF s(1)] by (simp add: heights_def ke(2) bs_safe_def advances_def)
  have H: "0 \<le> heights net' j" "heights net' j < 2 ^ 62" for j
    using sync_invD(3) [OF all] by (simp_all add: heights_def chain_height_def)
  have old: "fair F (heights net') j (node (net j))" for j by (rule fair_mono [OF s(3) mono])
  have "\<exists>m dst. data = fw_encodePB F m \<and> truthful (heights net') (np_data peer) dst m" if msg: "e = Message None peer data" for peer data
  proof -
    obtain dst where "SendMessage dst data \<in> set (calls (node (net (np_data peer))))"
      using del unfolding msg by (auto simp: list_ex_iff sentTo_iff)
    from fairD(3) [OF old this] show ?thesis by (auto simp: honest_def)
  qed
  then have "fair F (heights net') k ?s'"
    unfolding s' using old [of k] sync_invD(1) [OF s(1)] s(2) F H
    by (intro fair_handle) (simp_all add: heights_def ke(2) s')
  moreover have "c_maxRequestBlocks (m_config ?s') = 8"
    using safe sync_invD(1) [OF s(1)] s(2) by (simp add: bs_safe_def advances_def)
  ultimately show ?thesis using all old inv by (simp add: net_inv_def ke(2))
qed

interpretation nw: inductive_invariant "net_init F" "net_step F" "\<lambda>net. faithful F \<longrightarrow> net_inv F net"
  by unfold_locales (auto intro: net_inv_init net_inv_step)


section \<open>A network of three nodes\<close>

text \<open>
  Node 1 is at height 9 and the others at 6. Node 1 announces its height to node 0, which
  then asks it for the blocks 7 to 9.
\<close>

definition demoNet :: "DemoSync network" where
  "demoNet k = (let s = start (init demoFramework (replicate 32 9) (demoLedgerConfig (if k = 1 then 9 else 6))
       (createBlockSync (demoSync\<lparr>ds_nodeID := demoNode k\<rparr>)))
     in \<lparr>node = s, pending = mset (calls s), history = []\<rparr>)"

definition demoTraffic :: "(NodeID \<times> event) list" where
  "demoTraffic =
     [(1, WorkerRound),
      (0, Message None (demoNode 1) (msg_encode demo_encodePB (createBlockSyncStatusMsg 9 (replicate 32 5) (replicate 32 9) 0))),
      (0, WorkerRound), (0, DownloadRun (\<lambda>_ i. i))]"

definition exec_net :: "'sc Framework \<Rightarrow> NodeID \<times> event \<Rightarrow> 'sc network \<Rightarrow> 'sc network" where
  "exec_net F ke net = net(fst ke := exec_event F (snd ke) (net (fst ke)))"

fun net_can_run :: "'sc Framework \<Rightarrow> (NodeID \<times> event) list \<Rightarrow> 'sc network \<Rightarrow> bool" where
  "net_can_run F [] net = True"
| "net_can_run F (ke # kes) net =
     (can_happen (snd ke) (net (fst ke)) \<and> delivered net (fst ke) (snd ke) \<and> net_can_run F kes (exec_net F ke net))"

lemma net_can_run_run: "net_can_run F kes net \<Longrightarrow> run (net_step F) net kes (fold (exec_net F) kes net)"
proof (induction kes arbitrary: net)
  case (Cons ke kes)
  have "net_step F net (fst ke, snd ke) (exec_net F ke net)"
    unfolding exec_net_def using Cons.prems by (intro local_step exec_event_step) auto
  with Cons show ?case by (auto intro: run_Cons)
qed (simp add: run_Nil)

definition demoNetEnd :: "DemoSync network" where
  "demoNetEnd = fold (exec_net demoFramework) demoTraffic demoNet"

lemma demoNet_init: "net_init demoFramework demoNet"
proof -
  have "sync_init demoFramework (demoNet k)" for k
    unfolding demoNet_def Let_def
    by (rule sync_init.intros [OF _ refl]) (simp add: demoLedgerConfig_def chain_height_def)
  moreover have "np_data (fw_nodeID demoFramework (cfg_sync (node (demoNet k)))) = k" for k
    by (simp add: demoNet_def start_def init_def createBlockSync_def newBlockSync_def case_prod_unfold Let_def resetConfig_fst
        resetBlockInfo_def config_defs newBlockSyncConfig_def demoFramework_def demoNode_def)
  ultimately show ?thesis by (simp add: net_init_def)
qed

lemma demoNetEnd_reachable: "reach (net_init demoFramework) (net_step demoFramework) demoNetEnd"
proof -
  have "net_can_run demoFramework demoTraffic demoNet" by code_simp
  moreover have "reach (net_init demoFramework) (net_step demoFramework) demoNet" by (rule reach_init) (rule demoNet_init)
  ultimately show ?thesis unfolding demoNetEnd_def by (intro reach_run [OF net_can_run_run])
qed

lemma faithful_demoFramework: "faithful demoFramework"
  by (simp add: faithful_def demoFramework_def)

section \<open>Properties\<close>

text \<open>
  C5: in a network of nodes no one believes too much. Whatever the order of events at the nodes, and
  whatever messages are lost, repeated, delayed or reordered: the number a node has
  recorded for a peer is at most that peer's height, some node has reached the highest
  number a node knows of, and every request a node has sent asks for at least one block and
  only for blocks that its receiver has.
\<close>

theorem network_sound:
  assumes "faithful F" and "reach (net_init F) (net_step F) net"
  shows "(\<forall>q p. (q, p) \<in> set (m_peersStatus (m_syncStatus (node (net k)))) \<longrightarrow>
       ps_number p \<le> c_blockNumber (m_config (node (net q)))) \<and>
    (\<exists>j. c_knownHighestNumber (m_config (node (net k))) \<le> c_blockNumber (m_config (node (net j)))) \<and>
    (\<forall>dst data m. SendMessage dst data \<in> set (calls (node (net k))) \<longrightarrow> fw_decodePB F data = Some m \<longrightarrow>
       pb_packetType m = packetCode BlockRequestPacket \<longrightarrow>
       1 \<le> pb_number m \<and> 1 \<le> pb_size m \<and>
       pb_number m + pb_size m - 1 \<le> c_blockNumber (m_config (node (net (np_data dst)))))"
proof -
  have "fair F (heights net) k (node (net k))"
    using nw.reach_inv [OF assms(2)] assms(1) by (simp add: net_inv_def)
  note f = fairD [OF this]
  have "truthful (heights net) k dst m"
    if sent: "SendMessage dst data \<in> set (calls (node (net k)))" and dec: "fw_decodePB F data = Some m" for dst data m
  proof -
    obtain m' where "data = fw_encodePB F m'" "truthful (heights net) k dst m'" using f(3) [OF sent] by (auto simp: honest_def)
    with dec assms(1) show ?thesis by (simp add: faithful_def)
  qed
  with f(4) show ?thesis by (auto simp: believes_def heights_def truthful_def)
qed

theorem network_sound_witness:
  "\<exists>p. (1, p) \<in> set (m_peersStatus (m_syncStatus (node (demoNetEnd 0)))) \<and> ps_number p = 9 \<and>
     ps_number p \<le> c_blockNumber (m_config (node (demoNetEnd 1))) \<and>
     SendMessage (demoNode 1) (demo_encodePB (m_syncMessage (shardRequest 7 9))) \<in> set (calls (node (demoNetEnd 0))) \<and>
     pb_number (m_syncMessage (shardRequest 7 9)) + pb_size (m_syncMessage (shardRequest 7 9)) - 1 \<le>
       c_blockNumber (m_config (node (demoNetEnd 1)))"
proof -
  define p where "p = the (map_of (m_peersStatus (m_syncStatus (node (demoNetEnd 0)))) 1)"
  have "(1, p) \<in> set (m_peersStatus (m_syncStatus (node (demoNetEnd 0)))) \<and> ps_number p = 9"
    unfolding p_def by code_simp
  moreover have "SendMessage (demoNode 1) (demo_encodePB (m_syncMessage (shardRequest 7 9))) \<in> set (calls (node (demoNetEnd 0)))"
    by code_simp
  moreover have "fw_decodePB demoFramework (demo_encodePB (m_syncMessage (shardRequest 7 9))) = Some (m_syncMessage (shardRequest 7 9))"
    by (simp add: demoFramework_def)
  moreover have "pb_packetType (m_syncMessage (shardRequest 7 9)) = packetCode BlockRequestPacket" "np_data (demoNode 1) = 1"
    by code_simp+
  ultimately show ?thesis
    using network_sound [OF faithful_demoFramework demoNetEnd_reachable, of 0] by metis
qed

end
