(* ===== verification/CatchUp.thy ===== *)
theory CatchUp
  imports SyncProgress SyncNetwork
begin

text \<open>
  Modules at work together: a lagging one and any number that are ahead. In an exchange the lagging node
  runs its download task and sends requests; each of the others takes those addressed to it from its dispatcher into the
  request queue, serves them from its ledger and sends the blocks; the first takes these, in whatever order they arrive, into its
  buffer and then runs download tasks, whose calls its services answer with success, until the
  requested blocks are committed. The theory composes what the nodes do, up to the statement
  that repeated exchanges bring the lagging node level, also when some of them are lost.
\<close>

section \<open>An exchange\<close>

text \<open>The messages among some calls that are addressed to node \<open>k\<close>.\<close>

definition addressed :: "NodeID \<Rightarrow> call list \<Rightarrow> bytes list" where
  "addressed k cs = List.map_filter
     (\<lambda>c. case c of SendMessage dst data \<Rightarrow> if np_data dst = k then Some data else None | _ \<Rightarrow> None) cs"

definition deliver :: "'sc Framework \<Rightarrow> NodeIDPtr \<Rightarrow> bytes list \<Rightarrow> 'sc BlockSync \<Rightarrow> 'sc BlockSync" where
  "deliver F sender msgs s = fold (asyncNotifyBlockSyncMessage F None sender) msgs s"

text \<open>The ledger answers each fetch with the block \<open>chain n\<close>.\<close>

definition ledgerAnswers :: "'sc Framework \<Rightarrow> (BlockNumber \<Rightarrow> Block) \<Rightarrow> call list \<Rightarrow> 'sc BlockSync \<Rightarrow> 'sc BlockSync" where
  "ledgerAnswers F chain cs s =
     fold (\<lambda>c s. case c of GetBlockData q peer n \<Rightarrow> onBlockData F q peer n (Inr (chain n)) s | _ \<Rightarrow> s) cs s"

definition serve ::
  "'sc Framework \<Rightarrow> (nat \<Rightarrow> nat) \<Rightarrow> (BlockNumber \<Rightarrow> Block) \<Rightarrow> NodeIDPtr \<Rightarrow> bytes list \<Rightarrow> 'sc BlockSync \<Rightarrow> 'sc BlockSync" where
  "serve F rnd chain sender msgs s =
     (let s1 = deliver F sender msgs s; s2 = maintainBlockRequest rnd s1
      in ledgerAnswers F chain (new_calls s1 s2) s2)"

text \<open>A download task and the answers to the block it hands to the scheduler, if any.\<close>

definition taskRound ::
  "'sc Framework \<Rightarrow> (nat \<Rightarrow> nat \<Rightarrow> nat) \<Rightarrow> (Block \<Rightarrow> BlockHeader) \<Rightarrow> (Block \<Rightarrow> LedgerConfig) \<Rightarrow> 'sc BlockSync \<Rightarrow> 'sc BlockSync" where
  "taskRound F rnds execute commit s =
     (let s1 = downloadTask F rnds s
      in case last (calls s1) of
           ExecuteBlock b \<Rightarrow> answered F b (execute b) (commit b) s1
         | _ \<Rightarrow> s1)"

definition receive :: "'sc Framework \<Rightarrow> (NodeIDPtr \<times> bytes) list \<Rightarrow> 'sc BlockSync \<Rightarrow> 'sc BlockSync" where
  "receive F msgs s = fold (\<lambda>(sender, data). asyncNotifyBlockSyncMessage F None sender data) msgs s"

text \<open>
  An exchange between node \<open>idA\<close>, which lags, and the nodes \<open>bs\<close>, each with its identity; the front service
  hands each node the messages addressed to it, and the lagging one the blocks of all others in the order \<open>order\<close>.
\<close>

definition servedBy ::
  "'sc Framework \<Rightarrow> (NodeIDPtr \<Rightarrow> nat \<Rightarrow> nat) \<Rightarrow> (BlockNumber \<Rightarrow> Block) \<Rightarrow> NodeIDPtr \<Rightarrow> call list \<Rightarrow> NodeIDPtr \<times> 'sc BlockSync \<Rightarrow> 'sc BlockSync" where
  "servedBy F rnd chain idA cs x = serve F (rnd (fst x)) chain idA (addressed (np_data (fst x)) cs) (snd x)"

definition exchange ::
  "'sc Framework \<Rightarrow> (nat \<Rightarrow> nat \<Rightarrow> nat) \<Rightarrow> (NodeIDPtr \<Rightarrow> nat \<Rightarrow> nat) \<Rightarrow> ((NodeIDPtr \<times> bytes) list \<Rightarrow> (NodeIDPtr \<times> bytes) list) \<Rightarrow>
   (BlockNumber \<Rightarrow> Block) \<Rightarrow> (Block \<Rightarrow> BlockHeader) \<Rightarrow> (Block \<Rightarrow> LedgerConfig) \<Rightarrow> NodeIDPtr \<Rightarrow>
   'sc BlockSync \<times> (NodeIDPtr \<times> 'sc BlockSync) list \<Rightarrow> 'sc BlockSync \<times> (NodeIDPtr \<times> 'sc BlockSync) list" where
  "exchange F rnds rnd order chain execute commit idA = (\<lambda>(a, bs).
     let a1 = downloadTask F rnds a;
         served = servedBy F rnd chain idA (new_calls a a1);
         answers = \<lambda>x. map (Pair (fst x)) (addressed (np_data idA) (new_calls (snd x) (served x)));
         a2 = receive F (order (concat (map answers bs))) a1
     in ((taskRound F rnds execute commit ^^ nat (m_maxRequestNumber a2 - c_blockNumber (m_config a2))) a2,
         map (\<lambda>x. (fst x, served x)) bs))"

text \<open>
  An attempt at an exchange: the requests may be lost, or the answers to them. Then the download timer fires, which lets the
  node ask again.
\<close>

datatype delivery = Delivered | RequestsLost | AnswersLost

definition attempt ::
  "'sc Framework \<Rightarrow> (nat \<Rightarrow> nat \<Rightarrow> nat) \<Rightarrow> (NodeIDPtr \<Rightarrow> nat \<Rightarrow> nat) \<Rightarrow> ((NodeIDPtr \<times> bytes) list \<Rightarrow> (NodeIDPtr \<times> bytes) list) \<Rightarrow>
   (BlockNumber \<Rightarrow> Block) \<Rightarrow> (Block \<Rightarrow> BlockHeader) \<Rightarrow> (Block \<Rightarrow> LedgerConfig) \<Rightarrow> NodeIDPtr \<Rightarrow> delivery \<Rightarrow>
   'sc BlockSync \<times> (NodeIDPtr \<times> 'sc BlockSync) list \<Rightarrow> 'sc BlockSync \<times> (NodeIDPtr \<times> 'sc BlockSync) list" where
  "attempt F rnds rnd order chain execute commit idA d = (\<lambda>(a, bs).
     case d of
       Delivered \<Rightarrow> exchange F rnds rnd order chain execute commit idA (a, bs)
     | RequestsLost \<Rightarrow> (onDownloadTimeout (downloadTask F rnds a), bs)
     | AnswersLost \<Rightarrow> (onDownloadTimeout (downloadTask F rnds a),
         map (\<lambda>x. (fst x, servedBy F rnd chain idA (new_calls a (downloadTask F rnds a)) x)) bs))"

lemma addressed_simps [simp]:
  "addressed k [] = []"
  "addressed k (cs @ cs') = addressed k cs @ addressed k cs'"
  "addressed k (SendMessage dst data # cs) = (if np_data dst = k then data # addressed k cs else addressed k cs)"
  "addressed k (NotifyHighestSyncingNumber n # cs) = addressed k cs"
  by (simp_all add: addressed_def List.map_filter_def)

lemma new_calls_append: "calls s' = calls s @ cs \<Longrightarrow> new_calls s s' = cs"
  by (simp add: new_calls_def)

section \<open>The lagging node asks\<close>

text \<open>The limits of a fresh configuration, which no operation of the module changes.\<close>

definition standard :: "'sc BlockSyncConfig \<Rightarrow> bool" where
  "standard cfg \<longleftrightarrow> c_maxRequestBlocks cfg = 8 \<and> c_maxShardPerPeer cfg = 2 \<and>
     c_maxDownloadingBlockQueueSize cfg = 256 \<and> c_maxDownloadRequestQueueSize cfg = 1000"

lemma standard_new: "standard (newBlockSyncConfig sc)"
  by (simp add: standard_def newBlockSyncConfig_def)

lemma standard_advances: "advances cfg cfg' \<Longrightarrow> standard cfg \<Longrightarrow> standard cfg'"
  by (simp add: standard_def advances_def)

text \<open>The shards of an exchange with \<open>k\<close> nodes, and the last block they cover.\<close>

definition shardsAsked :: "nat \<Rightarrow> BlockNumber \<Rightarrow> BlockNumber \<Rightarrow> nat" where
  "shardsAsked k h t = min (2 * k) (shards h t 8)"

definition lastAsked :: "nat \<Rightarrow> BlockNumber \<Rightarrow> BlockNumber \<Rightarrow> BlockNumber" where
  "lastAsked k h t = min (h + 16 * int k) t"

abbreviation shardRange :: "BlockNumber \<Rightarrow> BlockNumber \<Rightarrow> nat \<Rightarrow> BlockNumber \<times> BlockNumber" where
  "shardRange h t j \<equiv> (shardFrom h 8 (of_nat j), shardTo h t 8 (of_nat j))"

text \<open>
  A node with nothing downloaded and nothing in the pipeline, whose peers at the highest known
  number are the nodes \<open>ks\<close>. What it has asked for before is in the ledger, or its download timer has fired.
\<close>

definition peerKey :: "PeerStatus \<Rightarrow> NodeID" where
  "peerKey p = np_data (ps_nodeId p)"

definition lagging :: "NodeID list \<Rightarrow> 'sc BlockSync \<Rightarrow> bool" where
  "lagging ks a \<longleftrightarrow> bs_wf a \<and> standard (m_config a) \<and> m_waterMark a = 10 \<and> c_knownHighestNumber (m_config a) < 2 ^ 62 \<and>
     c_committedProposalNumber (m_config a) < c_knownHighestNumber (m_config a) \<and>
     c_executedBlock (m_config a) = c_blockNumber (m_config a) \<and>
     (m_maxRequestNumber a \<le> c_blockNumber (m_config a) \<or>
      m_state a = Idle \<and> m_maxRequestNumber a \<le> lastAsked (length ks) (c_blockNumber (m_config a)) (c_knownHighestNumber (m_config a))) \<and>
     m_blocks (m_downloadingQueue a) = [] \<and> m_blockBuffer (m_downloadingQueue a) = [] \<and> m_commitQueue (m_downloadingQueue a) = [] \<and>
     image_mset peerKey (sources a) = mset ks"

lemma range_std: "0 \<le> h \<Longrightarrow> h < t \<Longrightarrow> t < 2 ^ 62 \<Longrightarrow> range_ok h t 8"
  by (simp add: range_ok_def)

lemma shardsAsked_pos:
  assumes "0 < k" "0 \<le> h" "h < t" "t < 2 ^ 62"
  shows "0 < shardsAsked k h t" "shardsAsked k h t \<le> shards h t 8" "h + int (shardsAsked k h t) * 8 \<ge> lastAsked k h t"
proof -
  note r = range_std [OF assms(2-4)]
  have "t \<le> h + int (shards h t 8) * 8" using shards_all [OF r] by simp
  then show "0 < shardsAsked k h t" "h + int (shardsAsked k h t) * 8 \<ge> lastAsked k h t" "shardsAsked k h t \<le> shards h t 8"
    using assms(1,3) by (auto simp: shardsAsked_def lastAsked_def min_def)
qed

lemma shards_asked:
  assumes "0 < k" "0 \<le> h" "h < t" "t < 2 ^ 62"
  shows "(\<Union>i\<in>{..<shardsAsked k h t}. {shardFrom h 8 (of_nat i) .. shardTo h t 8 (of_nat i)}) = {h + 1 .. lastAsked k h t}"
    "j < shardsAsked k h t \<Longrightarrow> 1 \<le> shardFrom h 8 (of_nat j) \<and> shardFrom h 8 (of_nat j) \<le> shardTo h t 8 (of_nat j) \<and>
       shardTo h t 8 (of_nat j) \<le> lastAsked k h t"
    "Max ((\<lambda>j. shardTo h t 8 (of_nat j)) ` {0 ..< shardsAsked k h t}) = lastAsked k h t"
    "i < j \<Longrightarrow> j < shardsAsked k h t \<Longrightarrow> shardTo h t 8 (of_nat i) < shardFrom h 8 (of_nat j)"
proof -
  note r = range_std [OF assms(2-4)] and k = shardsAsked_pos [OF assms]
  have last: "min (h + int (shardsAsked k h t) * uint (8 :: size_t)) t = lastAsked k h t"
    using k(3) by (auto simp: lastAsked_def shardsAsked_def min_def split: if_splits)
  show "(\<Union>i\<in>{..<shardsAsked k h t}. {shardFrom h 8 (of_nat i) .. shardTo h t 8 (of_nat i)}) = {h + 1 .. lastAsked k h t}"
    unfolding shards_cover [OF r k(2)] last ..
  have ends: "shardFrom h 8 (of_nat j) = h + 1 + int j * 8" "shardTo h t 8 (of_nat j) = min (h + (int j + 1) * 8) t"
    "h + 1 + int j * 8 \<le> t" if "j < shardsAsked k h t" for j
    using that k(2) shardFrom_eq [OF r, of j] shardTo_eq [OF r, of j] shard_within [OF r, of j] by simp_all
  have le: "shardTo h t 8 (of_nat j) \<le> lastAsked k h t" if "j < shardsAsked k h t" for j
  proof -
    have "(int j + 1) * 8 \<le> int (shardsAsked k h t) * 8" using that by simp
    then show ?thesis using ends(2) [OF that] last by auto
  qed
  show "1 \<le> shardFrom h 8 (of_nat j) \<and> shardFrom h 8 (of_nat j) \<le> shardTo h t 8 (of_nat j) \<and>
      shardTo h t 8 (of_nat j) \<le> lastAsked k h t" if "j < shardsAsked k h t"
    using le [OF that] ends [OF that] assms(2) by simp
  have "lastAsked k h t = shardTo h t 8 (of_nat (shardsAsked k h t - 1))"
    using ends(2) [of "shardsAsked k h t - 1"] k(1) last by (simp add: of_nat_diff)
  then show "Max ((\<lambda>j. shardTo h t 8 (of_nat j)) ` {0 ..< shardsAsked k h t}) = lastAsked k h t"
    using le k(1) by (intro Max_eqI) (auto intro: image_eqI [of _ _ "shardsAsked k h t - 1"])
  show "shardTo h t 8 (of_nat i) < shardFrom h 8 (of_nat j)" if "i < j" "j < shardsAsked k h t"
    using that ends(2) [of i] ends(1) [of j] by simp
qed

lemma no_blocks: "m_blocks (m_downloadingQueue s) = [] \<Longrightarrow> with_blocks [] s = s"
  by (cases s; cases "m_downloadingQueue s") auto

lemma nothing_downloaded:
  assumes "m_blocks (m_downloadingQueue a) = []" "m_blockBuffer (m_downloadingQueue a) = []"
    "m_commitQueue (m_downloadingQueue a) = []" "shouldSyncing a"
  shows "downloadTask F rnds a = tryToRequestBlocks F rnds a"
  using assms by (simp add: downloadTask_def maintainDownloadingBuffer_def dq_size_def maintainDownloadingQueue_eq
      tryToCommit_idle no_blocks Let_def)

lemma lagging_syncs: "lagging ks a \<Longrightarrow> c_blockNumber (m_config a) < c_knownHighestNumber (m_config a) \<Longrightarrow> shouldSyncing a"
  by (simp add: lagging_def shouldSyncing_def)

lemma requests_sent:
  assumes a: "lagging ks a" "ks \<noteq> []" and h: "c_blockNumber (m_config a) = h" "c_knownHighestNumber (m_config a) = t" "h < t"
    and a1: "a1 = downloadTask F rnds a"
  shows "m_config a1 = m_config a" "m_downloadingQueue a1 = m_downloadingQueue a" "m_syncStatus a1 = m_syncStatus a"
    "m_state a1 = Downloading" "m_maxRequestNumber a1 = lastAsked (length ks) h t" "m_waterMark a1 = m_waterMark a"
    "\<exists>ps. new_calls a a1 = NotifyHighestSyncingNumber t # requestCalls F h t 8 0 ps \<and> length ps = shardsAsked (length ks) h t \<and>
       peerKey ` set ps \<subseteq> set ks"
proof -
  note L = a(1) [unfolded lagging_def]
  have sync: "shouldSyncing a" using lagging_syncs [OF a(1)] h by simp
  have wf: "bs_wf a" using L by blast
  have k: "0 < length ks" using a(2) by simp
  have h0: "0 \<le> h" "t < 2 ^ 62" using bs_wf_height [OF wf] L h by simp_all
  have task: "a1 = tryToRequestBlocks F rnds a"
    unfolding a1 by (rule nothing_downloaded) (use L sync in simp_all)
  define f where "f = (if m_maxRequestNumber a \<le> h then downloadFinish a else a)"
  define s0 where "s0 = emit (NotifyHighestSyncingNumber t) f"
  have f: "m_config f = m_config a" "m_downloadingQueue f = m_downloadingQueue a" "m_state f = Idle"
    using L h by (auto simp: f_def downloadFinish_def)
  have s0: "m_config s0 = m_config a" "m_downloadingQueue s0 = m_downloadingQueue a" "m_syncStatus s0 = m_syncStatus a"
    "calls s0 = calls a @ [NotifyHighestSyncingNumber t]" "m_maxRequestNumber s0 = m_maxRequestNumber a" "m_waterMark s0 = m_waterMark a"
    by (simp_all add: s0_def f_def downloadFinish_def)
  have target: "requestTarget s0 = t" using L h by (simp add: requestTarget_def s0 dq_top_def pq_top_def)
  have "(if m_maxRequestNumber a \<le> c_blockNumber (m_config a) \<or> m_maxRequestNumber a \<le> c_executedBlock (m_config a)
      then downloadFinish a else a) = f" using L h by (simp add: f_def)
  then have a1': "a1 = requestBlocks F rnds h t s0"
    unfolding task tryToRequestBlocks_def using L h sync f target shouldSyncing_cong [of f a]
    by (simp only: Let_def) (simp add: isSyncing_def s0_def)
  have std: "c_maxRequestBlocks (m_config a) = 8" "c_maxShardPerPeer (m_config a) = 2" using L by (simp_all add: standard_def)
  have wf0: "bs_wf s0" using wf s0 by (simp add: bs_wf_def)
  have src: "sources s0 = sources a" by (simp add: sources_def s0)
  have keys: "size (sources a) = length ks" "peerKey ` set_mset (sources a) = set ks"
    using L by (metis size_image_mset size_mset, metis set_image_mset set_mset_mset)
  obtain ps where ps: "a1 = sent F h t 0 ps (s0\<lparr>m_state := Downloading, m_timerRunning := True\<rparr>)"
    "length ps = shardsAsked (length ks) h t" "\<forall>x. count (mset ps) x \<le> 2 * count (sources a) x"
    using requestBlocks_sent [OF wf0, of h t F rnds] range_std [OF h0(1) h(3) h0(2)] h
    by (auto simp: a1' std src s0(1) shardsAsked_def keys(1))
  show "m_config a1 = m_config a" "m_downloadingQueue a1 = m_downloadingQueue a" "m_syncStatus a1 = m_syncStatus a"
    "m_state a1 = Downloading" "m_waterMark a1 = m_waterMark a"
    by (simp_all add: ps(1) sent_def s0)
  have "m_maxRequestNumber a \<le> lastAsked (length ks) h t" using h k L by (auto simp: lastAsked_def)
  then have "Max (insert (m_maxRequestNumber a) ((\<lambda>j. shardTo h t 8 (of_nat j)) ` {0 ..< shardsAsked (length ks) h t})) = lastAsked (length ks) h t"
    using shards_asked(3) [OF k h0(1) h(3) h0(2)] shardsAsked_pos(1) [OF k h0(1) h(3) h0(2)] L h by (subst Max_insert) auto
  then show "m_maxRequestNumber a1 = lastAsked (length ks) h t" by (simp add: ps sent_def std s0 fold_max)
  have "new_calls a a1 = NotifyHighestSyncingNumber t # requestCalls F h t 8 0 ps"
    by (intro new_calls_append) (simp add: ps(1) sent_def s0 std)
  moreover have "peerKey ` set ps \<subseteq> set ks" using senders_among [of ps 2 "sources a"] ps(3) keys(2) by blast
  ultimately show "\<exists>ps. new_calls a a1 = NotifyHighestSyncingNumber t # requestCalls F h t 8 0 ps \<and>
      length ps = shardsAsked (length ks) h t \<and> peerKey ` set ps \<subseteq> set ks"
    using ps(2) by blast
qed

text \<open>The ranges asked of node \<open>k\<close>, when the shards go to the peers \<open>ps\<close> in order.\<close>

definition rangesFor :: "BlockNumber \<Rightarrow> BlockNumber \<Rightarrow> PeerStatus list \<Rightarrow> NodeID \<Rightarrow> (BlockNumber \<times> BlockNumber) list" where
  "rangesFor h t ps k = map (shardRange h t) (filter (\<lambda>j. peerKey (ps ! j) = k) [0 ..< length ps])"

definition numbersFor :: "BlockNumber \<Rightarrow> BlockNumber \<Rightarrow> PeerStatus list \<Rightarrow> NodeID \<Rightarrow> BlockNumber set" where
  "numbersFor h t ps k = (\<Union>r \<in> set (rangesFor h t ps k). {fst r .. snd r})"

abbreviation rangeMessage :: "'sc Framework \<Rightarrow> BlockNumber \<times> BlockNumber \<Rightarrow> bytes" where
  "rangeMessage F r \<equiv> msg_encode (fw_encodePB F) (shardRequest (fst r) (snd r))"

lemma addressed_requests: "addressed k (requestCalls F h t 8 0 ps) = map (rangeMessage F) (rangesFor h t ps k)"
proof -
  have "zip [0 ..< length ps] ps = map (\<lambda>j. (j, ps ! j)) [0 ..< length ps]"
    by (intro nth_equalityI) simp_all
  then have calls: "requestCalls F h t 8 0 ps = map (\<lambda>j. SendMessage (ps_nodeId (ps ! j)) (rangeMessage F (shardRange h t j))) [0 ..< length ps]"
    by (simp add: requestCalls_def)
  have "addressed k (map (\<lambda>j. SendMessage (dst j) (f j)) js) = map f (filter (\<lambda>j. np_data (dst j) = k) js)"
    for dst :: "nat \<Rightarrow> NodeIDPtr" and f js by (induction js) simp_all
  then show ?thesis unfolding calls by (simp add: rangesFor_def peerKey_def)
qed

lemma ranges_ok:
  assumes "0 < k" "0 \<le> h" "h < t" "t < 2 ^ 62" "length ps = shardsAsked k h t"
  shows "\<forall>r \<in> set (rangesFor h t ps i). 1 \<le> fst r \<and> fst r \<le> snd r \<and> snd r < 2 ^ 62" "length (rangesFor h t ps i) \<le> 2 * k"
proof -
  show "\<forall>r \<in> set (rangesFor h t ps i). 1 \<le> fst r \<and> fst r \<le> snd r \<and> snd r < 2 ^ 62"
    using shards_asked(2) [OF assms(1-4)] assms(4,5) by (fastforce simp: rangesFor_def lastAsked_def)
  have "length (rangesFor h t ps i) \<le> length ps"
    using length_filter_le [of "\<lambda>j. peerKey (ps ! j) = i" "[0 ..< length ps]"] by (simp add: rangesFor_def)
  then show "length (rangesFor h t ps i) \<le> 2 * k" using assms(5) by (simp add: shardsAsked_def)
qed

text \<open>The nodes \<open>ks\<close> are asked for every missing number once.\<close>

lemma numbers_once:
  assumes k: "0 < k" "0 \<le> h" "h < t" "t < 2 ^ 62" and ps: "length ps = shardsAsked k h t" "peerKey ` set ps \<subseteq> set ks" and ks: "distinct ks"
  shows "mset (concat (map (\<lambda>i. sorted_list_of_set (numbersFor h t ps i)) ks)) = mset [h + 1 .. lastAsked k h t]"
proof -
  note sh = shards_asked [OF k]
  have numbers: "numbersFor h t ps i = (\<Union>j \<in> {j. j < length ps \<and> peerKey (ps ! j) = i}. {shardFrom h 8 (of_nat j) .. shardTo h t 8 (of_nat j)})" for i
    by (auto simp: numbersFor_def rangesFor_def)
  then have fin: "finite (numbersFor h t ps i)" for i by simp
  have disj: "j = j'" if "n \<in> {shardFrom h 8 (of_nat j) .. shardTo h t 8 (of_nat j)}" "n \<in> {shardFrom h 8 (of_nat j') .. shardTo h t 8 (of_nat j')}"
    "j < length ps" "j' < length ps" for n j j'
    using sh(4) [of j j'] sh(4) [of j' j] that ps(1) by (cases j j' rule: linorder_cases) auto
  have "i = i'" if n: "n \<in> numbersFor h t ps i" "n \<in> numbersFor h t ps i'" for n i i'
  proof -
    obtain j j' where "j < length ps" "peerKey (ps ! j) = i" "n \<in> {shardFrom h 8 (of_nat j) .. shardTo h t 8 (of_nat j)}"
      "j' < length ps" "peerKey (ps ! j') = i'" "n \<in> {shardFrom h 8 (of_nat j') .. shardTo h t 8 (of_nat j')}"
      using n unfolding numbers by blast
    then show ?thesis using disj by blast
  qed
  then have "distinct (concat (map (\<lambda>i. sorted_list_of_set (numbersFor h t ps i)) ks))"
    using ks by (induction ks) (auto simp: fin)
  moreover have "set (concat (map (\<lambda>i. sorted_list_of_set (numbersFor h t ps i)) ks)) = (\<Union>i \<in> set ks. numbersFor h t ps i)"
    by (simp add: fin)
  moreover have "(\<Union>i \<in> set ks. numbersFor h t ps i) = (\<Union>j \<in> {..<shardsAsked k h t}. {shardFrom h 8 (of_nat j) .. shardTo h t 8 (of_nat j)})"
    unfolding numbers using ps by force
  ultimately show ?thesis unfolding sh(1) by (simp add: set_eq_iff_mset_eq_distinct [symmetric])
qed

section \<open>The other nodes serve\<close>

text \<open>A node that has the peer \<open>k\<close> in its table, with no request of it pending.\<close>

definition serves :: "NodeID \<Rightarrow> 'sc BlockSync \<Rightarrow> bool" where
  "serves k b \<longleftrightarrow> bs_wf b \<and> requests_ok (m_syncStatus b) \<and> standard (m_config b) \<and>
     (\<exists>p. map_of (m_peersStatus (m_syncStatus b)) k = Some p \<and> queueOf (m_syncStatus b) p = [])"

definition blockMessage :: "'sc Framework \<Rightarrow> (BlockNumber \<Rightarrow> Block) \<Rightarrow> BlockNumber \<Rightarrow> BlockSyncMsgImpl" where
  "blockMessage F chain n = setNumber n (appendBlockData (fw_encodeBlock F (chain n)) newBlocksMsg)"

lemma deliver_request:
  assumes F: "faithful F" and p: "map_of (m_peersStatus (m_syncStatus b)) (np_data peer) = Some p"
    and range: "1 \<le> f" "f \<le> t" "t < 2 ^ 62"
  shows "asyncNotifyBlockSyncMessage F None peer (msg_encode (fw_encodePB F) (shardRequest f t)) b =
    b\<lparr>m_syncStatus := push_at (m_config b) (ps_downloadRequests p) f (to_size (t - f + 1)) (m_syncStatus b)\<rparr>"
proof -
  have n: "in_i64 (t - f + 1)" using range by (simp add: in_i64_def)
  have "asyncNotifyBlockSyncMessage F None peer (msg_encode (fw_encodePB F) (shardRequest f t)) b =
      onPeerBlocksRequest F peer (shardRequest f t) b"
    using F by (simp add: faithful_def asyncNotifyBlockSyncMessage_def createBlockSyncMsg_def msg_decode_def msg_encode_def
        shardRequest_def request_setSize_def setNumber_def newBlockRequest_def setPacketType_def newBlockSyncMsg_def
        msg_packetType_def emptyMessage_def)
  moreover have "msg_number (requestOfMsg (shardRequest f t)) = f" "request_size (requestOfMsg (shardRequest f t)) = to_size (t - f + 1)"
    using n by (simp_all add: shardRequest_def message_defs)
  ultimately show ?thesis using p by (simp add: onPeerBlocksRequest_def peerStatus_def)
qed

definition pushRanges :: "'sc BlockSyncConfig \<Rightarrow> (BlockNumber \<times> BlockNumber) list \<Rightarrow> DownloadRequestQueue \<Rightarrow> DownloadRequestQueue" where
  "pushRanges cfg rs q = fold (\<lambda>(f, t). drq_push cfg f (to_size (t - f + 1))) rs q"

lemma deliver_requests:
  assumes F: "faithful F" and p: "map_of (m_peersStatus (m_syncStatus b)) (np_data peer) = Some p"
    and idx: "ps_downloadRequests p < length (req_store (m_syncStatus b))"
    and range: "\<forall>(f, t) \<in> set rs. 1 \<le> f \<and> f \<le> t \<and> t < 2 ^ 62"
  shows "deliver F peer (map (\<lambda>(f, t). msg_encode (fw_encodePB F) (shardRequest f t)) rs) b =
    b\<lparr>m_syncStatus := (m_syncStatus b)\<lparr>req_store := (req_store (m_syncStatus b))
      [ps_downloadRequests p := pushRanges (m_config b) rs (queueOf (m_syncStatus b) p)]\<rparr>\<rparr>"
  using p idx range
proof (induction rs arbitrary: b)
  case Nil
  then show ?case by (simp add: deliver_def pushRanges_def queueOf_def)
next
  case (Cons r rs)
  obtain f t where r: "r = (f, t)" by (cases r)
  let ?b = "b\<lparr>m_syncStatus := push_at (m_config b) (ps_downloadRequests p) f (to_size (t - f + 1)) (m_syncStatus b)\<rparr>"
  have "deliver F peer (map (\<lambda>(f, t). msg_encode (fw_encodePB F) (shardRequest f t)) (r # rs)) b =
      deliver F peer (map (\<lambda>(f, t). msg_encode (fw_encodePB F) (shardRequest f t)) rs) ?b"
    using deliver_request [OF F Cons.prems(1), of f t] Cons.prems(3) by (simp add: deliver_def r)
  also have "\<dots> = ?b\<lparr>m_syncStatus := (m_syncStatus ?b)\<lparr>req_store := (req_store (m_syncStatus ?b))
      [ps_downloadRequests p := pushRanges (m_config ?b) rs (queueOf (m_syncStatus ?b) p)]\<rparr>\<rparr>"
    using Cons.prems by (intro Cons.IH) (simp_all add: push_at_def)
  also have "\<dots> = b\<lparr>m_syncStatus := (m_syncStatus b)\<lparr>req_store := (req_store (m_syncStatus b))
      [ps_downloadRequests p := pushRanges (m_config b) (r # rs) (queueOf (m_syncStatus b) p)]\<rparr>\<rparr>"
    using Cons.prems(2) by (simp add: push_at_def pushRanges_def queueOf_def r)
  finally show ?case .
qed

definition rangeRequest :: "BlockNumber \<times> BlockNumber \<Rightarrow> DownloadRequest" where
  "rangeRequest r = \<lparr>fromNumber = fst r, req_size = to_size (snd r - fst r + 1)\<rparr>"

lemma set_pushRanges:
  "length q + length rs \<le> unat (c_maxDownloadRequestQueueSize cfg) \<Longrightarrow>
   set (pushRanges cfg rs q) = set q \<union> rangeRequest ` set rs"
proof (induction rs arbitrary: q)
  case (Cons r rs)
  have "length (drq_push cfg (fst r) (to_size (snd r - fst r + 1)) q) = Suc (length q)"
    "set (drq_push cfg (fst r) (to_size (snd r - fst r + 1)) q) = insert (rangeRequest r) (set q)"
    using Cons.prems by (simp_all add: drq_push_def rangeRequest_def)
  then show ?case using Cons by (simp add: pushRanges_def case_prod_unfold)
qed (simp add: pushRanges_def)

lemma rangeRequest_range:
  assumes "1 \<le> fst r" "fst r \<le> snd r" "snd r < 2 ^ 62"
  shows "req_range (rangeRequest r) = {fst r .. snd r}" "req_ok (rangeRequest r)"
proof -
  have "uint (to_size (snd r - fst r + 1)) = snd r - fst r + 1" using assms by (intro uint_to_size) simp_all
  then show "req_range (rangeRequest r) = {fst r .. snd r}" "req_ok (rangeRequest r)"
    using assms by (auto simp: req_range_def req_ok_def rangeRequest_def)
qed

lemma covered_pushRanges:
  assumes "length rs \<le> unat (c_maxDownloadRequestQueueSize cfg)" "\<forall>r \<in> set rs. 1 \<le> fst r \<and> fst r \<le> snd r \<and> snd r < 2 ^ 62"
  shows "covered (pushRanges cfg rs []) = (\<Union>r \<in> set rs. {fst r .. snd r})"
    "\<forall>r \<in> set (pushRanges cfg rs []). req_ok r"
  using assms by (auto simp: set_pushRanges covered_def rangeRequest_range)

text \<open>The ledger's answers to fetched numbers, and the messages for one node among them.\<close>

lemma ledgerAnswers_append: "ledgerAnswers F chain (cs @ cs') s = ledgerAnswers F chain cs' (ledgerAnswers F chain cs s)"
  by (simp add: ledgerAnswers_def)

lemma ledgerAnswers_fetch:
  "ledgerAnswers F chain (map (GetBlockData q peer) ns) s =
   s\<lparr>calls := calls s @ map (\<lambda>n. SendMessage peer (msg_encode (fw_encodePB F) (blockMessage F chain n))) ns\<rparr>"
  by (induction ns arbitrary: s) (simp_all add: ledgerAnswers_def onBlockData_def blockMessage_def emit_def)

lemma ledgerAnswers_fetchCalls:
  "ledgerAnswers F chain (concat (map (fetchCalls st) ps)) s =
   s\<lparr>calls := calls s @ concat (map (\<lambda>p. map (\<lambda>n. SendMessage (ps_nodeId p) (msg_encode (fw_encodePB F) (blockMessage F chain n)))
     (sorted_list_of_set (covered (queueOf st p)))) ps)\<rparr>"
  by (induction ps arbitrary: s)
    (simp_all add: ledgerAnswers_append fetchCalls_def ledgerAnswers_fetch, simp add: ledgerAnswers_def)

lemma addressed_fetch [simp]: "addressed k (concat (map (fetchCalls st) ps)) = []"
proof -
  have "addressed k (map (GetBlockData q peer) ns) = []" for q peer ns
    by (simp add: addressed_def List.map_filter_def)
  then show ?thesis by (induction ps) (simp_all add: fetchCalls_def)
qed

lemma addressed_concat:
  "addressed k (concat (map (\<lambda>p. map (\<lambda>n. SendMessage (ps_nodeId p) (f n)) (ns p)) ps)) =
   concat (map (\<lambda>p. if np_data (ps_nodeId p) = k then map f (ns p) else []) ps)"
proof -
  have "addressed k (map (\<lambda>n. SendMessage dst (f n)) xs) = (if np_data dst = k then map f xs else [])" for dst xs
    by (induction xs) simp_all
  then show ?thesis by (induction ps) simp_all
qed

lemma concat_only:
  assumes "distinct (map f ps)" "p \<in> set ps"
  shows "concat (map (\<lambda>x. if f x = f p then g x else []) ps) = g p"
proof -
  obtain xs ys where ps: "ps = xs @ p # ys" using split_list [OF assms(2)] by blast
  have none: "concat (map (\<lambda>x. if f x = k then g x else []) zs) = []" if "k \<notin> f ` set zs" for zs k
    using that by (induction zs) auto
  have "f p \<notin> f ` set xs" "f p \<notin> f ` set ys" using assms(1) by (auto simp: ps)
  then show ?thesis by (simp add: ps none)
qed

lemma peers_distinct_ids:
  assumes "peers_wf cfg st"
  shows "distinct (map (\<lambda>p. np_data (ps_nodeId p)) (map snd (m_peersStatus st)))"
proof -
  note D = peers_wfD [OF assms]
  have dist: "distinct (map fst (m_peersStatus st))" by (rule map_sorted_distinct [OF D(1)])
  have "np_data (ps_nodeId (snd e)) = fst e" if "e \<in> set (m_peersStatus st)" for e
    using D(2) [of "fst e" "snd e"] that dist by (simp add: peer_ok_def)
  then have "map (\<lambda>p. np_data (ps_nodeId p)) (map snd (m_peersStatus st)) = map fst (m_peersStatus st)" by simp
  then show ?thesis using dist by (rule ssubst)
qed

lemma set_fold_clear: "set (fold (\<lambda>p st. st[f p := []]) ps st) \<subseteq> insert [] (set st)"
proof (induction ps arbitrary: st)
  case (Cons p ps)
  show ?case using Cons.IH [of "st[f p := []]"] set_update_subset_insert [of st "f p" "[]"] by auto
qed auto

text \<open>After the requests are delivered, the queue of the peer covers exactly the range asked for.\<close>

lemma requests_queued:
  assumes F: "faithful F" and b: "serves (np_data peer) b"
    and range: "\<forall>r \<in> set rs. 1 \<le> fst r \<and> fst r \<le> snd r \<and> snd r < 2 ^ 62" and room: "length rs \<le> 1000"
  obtains p q where "map_of (m_peersStatus (m_syncStatus b)) (np_data peer) = Some p"
    "ps_downloadRequests p < length (req_store (m_syncStatus b))" "np_data (ps_nodeId p) = np_data peer"
    "deliver F peer (map (rangeMessage F) rs) b =
       b\<lparr>m_syncStatus := (m_syncStatus b)\<lparr>req_store := (req_store (m_syncStatus b))[ps_downloadRequests p := q]\<rparr>\<rparr>"
    "covered q = (\<Union>r \<in> set rs. {fst r .. snd r})" "\<forall>r \<in> set q. req_ok r"
proof -
  let ?st = "m_syncStatus b"
  obtain p where p: "map_of (m_peersStatus ?st) (np_data peer) = Some p" "queueOf ?st p = []"
    and wf: "bs_wf b" and std: "standard (m_config b)"
    using b by (auto simp: serves_def)
  have idx: "ps_downloadRequests p < length (req_store ?st)" "np_data (ps_nodeId p) = np_data peer"
    using wf peers_wfD(2) [OF _ p(1)] by (auto simp: bs_wf_def peer_ok_def)
  have room': "length rs \<le> unat (c_maxDownloadRequestQueueSize (m_config b))" using std room by (simp add: standard_def)
  let ?q = "pushRanges (m_config b) rs []"
  have "deliver F peer (map (rangeMessage F) rs) b =
      b\<lparr>m_syncStatus := ?st\<lparr>req_store := (req_store ?st)[ps_downloadRequests p := ?q]\<rparr>\<rparr>"
    using deliver_requests [OF F p(1) idx(1), of rs] range p(2) by (simp add: case_prod_unfold)
  then show thesis using that p(1) idx covered_pushRanges [OF room' range] by blast
qed

text \<open>A run of \<^verbatim>\<open>maintainBlockRequest\<close> with the answers of the ledger: what node \<open>k\<close> is sent.\<close>

lemma fetch_and_answer:
  assumes wf: "bs_wf s" and ok: "requests_ok (m_syncStatus s)" and p: "map_of (m_peersStatus (m_syncStatus s)) k = Some p"
    and s': "s' = ledgerAnswers F chain (new_calls s (maintainBlockRequest rnd s)) (maintainBlockRequest rnd s)"
  shows "m_config s' = m_config s" "bs_wf s'" "m_peersStatus (m_syncStatus s') = m_peersStatus (m_syncStatus s)"
    "requests_ok (m_syncStatus s')" "queueOf (m_syncStatus s') p = []" "\<exists>cs. calls s' = calls s @ cs"
    "addressed k (new_calls s s') = map (\<lambda>n. msg_encode (fw_encodePB F) (blockMessage F chain n))
       (sorted_list_of_set (covered (queueOf (m_syncStatus s) p)))"
proof -
  let ?st = "m_syncStatus s" and ?enc = "\<lambda>n. msg_encode (fw_encodePB F) (blockMessage F chain n)"
  have pwf: "peers_wf (m_config s) ?st" using wf by (simp add: bs_wf_def)
  have idx: "ps_downloadRequests p < length (req_store ?st)" and id: "np_data (ps_nodeId p) = k"
    using peers_wfD(2) [OF pwf p] by (simp_all add: peer_ok_def)
  obtain ps where ps: "mset ps = mset (map snd (m_peersStatus ?st))"
    and s1: "maintainBlockRequest rnd s = s\<lparr>calls := calls s @ concat (map (fetchCalls ?st) ps),
       m_syncStatus := ?st\<lparr>req_store := fold (\<lambda>p st. st[ps_downloadRequests p := []]) ps (req_store ?st)\<rparr>\<rparr>"
    by (rule maintainBlockRequest_eq [OF wf ok])
  define out where "out = concat (map (\<lambda>p. map (\<lambda>n. SendMessage (ps_nodeId p) (?enc n)) (sorted_list_of_set (covered (queueOf ?st p)))) ps)"
  have new: "new_calls s (maintainBlockRequest rnd s) = concat (map (fetchCalls ?st) ps)"
    by (rule new_calls_append) (simp add: s1)
  have s2: "s' = (maintainBlockRequest rnd s)\<lparr>calls := calls (maintainBlockRequest rnd s) @ out\<rparr>"
    unfolding s' new out_def by (rule ledgerAnswers_fetchCalls)
  have calls: "calls s' = calls s @ concat (map (fetchCalls ?st) ps) @ out" by (simp add: s2 s1)
  have psin: "p \<in> set ps" using map_of_SomeD [OF p] arg_cong [OF ps, of set_mset] by force
  have dist: "distinct (map (\<lambda>p. np_data (ps_nodeId p)) ps)"
    using peers_distinct_ids [OF pwf] arg_cong [OF ps, of "image_mset (\<lambda>p. np_data (ps_nodeId p))"]
    by (metis mset_eq_imp_distinct_iff mset_map)
  show "m_config s' = m_config s" "m_peersStatus (m_syncStatus s') = m_peersStatus (m_syncStatus s)" by (simp_all add: s2 s1)
  show "\<exists>cs. calls s' = calls s @ cs" using calls by blast
  have "bs_safe s (maintainBlockRequest rnd s)" by blast
  then show "bs_wf s'" using wf bs_safe_wf [of s "maintainBlockRequest rnd s"] by (simp add: s2 bs_wf_def)
  show "requests_ok (m_syncStatus s')"
    using ok set_fold_clear [of ps_downloadRequests ps "req_store ?st"] by (auto simp: requests_ok_def s2 s1)
  show "queueOf (m_syncStatus s') p = []" using psin idx by (simp add: s2 s1 queueOf_def fold_clear_nth)
  show "addressed k (new_calls s s') = map ?enc (sorted_list_of_set (covered (queueOf ?st p)))"
    unfolding new_calls_append [OF calls] out_def
    using concat_only [OF dist psin, of "\<lambda>p. map ?enc (sorted_list_of_set (covered (queueOf ?st p)))"]
    by (simp add: addressed_concat id)
qed

lemma serve_effect:
  assumes F: "faithful F" and b: "serves (np_data peer) b"
    and range: "\<forall>r \<in> set rs. 1 \<le> fst r \<and> fst r \<le> snd r \<and> snd r < 2 ^ 62" and room: "length rs \<le> 1000"
    and b1: "b1 = serve F rnd chain peer (map (rangeMessage F) rs) b"
  shows "addressed (np_data peer) (new_calls b b1) =
      map (\<lambda>n. msg_encode (fw_encodePB F) (blockMessage F chain n)) (sorted_list_of_set (\<Union>r \<in> set rs. {fst r .. snd r}))"
    "serves (np_data peer) b1" "m_config b1 = m_config b"
proof -
  let ?st = "m_syncStatus b"
  define s1 where "s1 = deliver F peer (map (rangeMessage F) rs) b"
  obtain p q where p: "map_of (m_peersStatus ?st) (np_data peer) = Some p" "ps_downloadRequests p < length (req_store ?st)"
    and s1: "s1 = b\<lparr>m_syncStatus := ?st\<lparr>req_store := (req_store ?st)[ps_downloadRequests p := q]\<rparr>\<rparr>"
    and q: "covered q = (\<Union>r \<in> set rs. {fst r .. snd r})" "\<forall>r \<in> set q. req_ok r"
    unfolding s1_def by (rule requests_queued [OF F b range room])
  have wf: "bs_wf b" and ok: "requests_ok ?st" and std: "standard (m_config b)" using b by (auto simp: serves_def)
  have "bs_safe b s1" unfolding s1_def deliver_def by (rule bs_safe_fold) blast
  then have wf1: "bs_wf s1" using wf by (rule bs_safe_wf)
  have ok1: "requests_ok (m_syncStatus s1)"
    using ok q(2) set_update_subset_insert [of "req_store ?st" "ps_downloadRequests p" q]
    unfolding requests_ok_def s1 by auto
  have p1: "map_of (m_peersStatus (m_syncStatus s1)) (np_data peer) = Some p" using p(1) by (simp add: s1)
  have b1': "b1 = ledgerAnswers F chain (new_calls s1 (maintainBlockRequest rnd s1)) (maintainBlockRequest rnd s1)"
    by (simp add: b1 serve_def s1_def Let_def)
  note eff = fetch_and_answer [OF wf1 ok1 p1 b1']
  show "m_config b1 = m_config b" by (simp add: eff(1)) (simp add: s1)
  then show "serves (np_data peer) b1" using eff(2-5) p1 std by (simp add: serves_def)
  have "new_calls b b1 = new_calls s1 b1" by (simp add: new_calls_def s1)
  moreover have "queueOf (m_syncStatus s1) p = q" using p(2) by (simp add: s1 queueOf_def)
  ultimately show "addressed (np_data peer) (new_calls b b1) =
      map (\<lambda>n. msg_encode (fw_encodePB F) (blockMessage F chain n)) (sorted_list_of_set (\<Union>r \<in> set rs. {fst r .. snd r}))"
    using eff(7) by (simp add: q(1))
qed

section \<open>The lagging node receives\<close>

text \<open>The serialiser of blocks gives back the blocks of the chain, which are numbered in order.\<close>

definition good_chain :: "'sc Framework \<Rightarrow> (BlockNumber \<Rightarrow> Block) \<Rightarrow> bool" where
  "good_chain F chain \<longleftrightarrow> (\<forall>n. fw_createBlock F (fw_encodeBlock F (chain n)) = Some (chain n) \<and> block_number (chain n) = n)"

lemma blockMessage_fields:
  "m_syncMessage (blockMessage F chain n) = \<lparr>pb_version = 0, pb_packetType = 2, pb_number = n, pb_hash = [], pb_genesisHash = [],
     pb_size = 0, pb_blocksData = [fw_encodeBlock F (chain n)]\<rparr>"
  by (simp add: blockMessage_def appendBlockData_snoc message_defs emptyMessage_def)

lemma deliver_block:
  assumes F: "faithful F"
  shows "asyncNotifyBlockSyncMessage F None sender (msg_encode (fw_encodePB F) (blockMessage F chain n)) a =
    onPeerBlocks (blockMessage F chain n) a"
proof -
  have "createBlockSyncMsg (fw_decodePB F) (msg_encode (fw_encodePB F) (blockMessage F chain n)) =
      Some (newBlockSyncMsg\<lparr>m_syncMessage := m_syncMessage (blockMessage F chain n)\<rparr>)"
    using F by (simp add: faithful_def createBlockSyncMsg_def msg_decode_def msg_encode_def)
  also have "newBlockSyncMsg\<lparr>m_syncMessage := m_syncMessage (blockMessage F chain n)\<rparr> = blockMessage F chain n"
    by (cases "blockMessage F chain n") (simp add: newBlockSyncMsg_def)
  finally show ?thesis
    by (simp add: asyncNotifyBlockSyncMessage_def msg_packetType_def blockMessage_fields)
qed

lemma receive_blocks:
  assumes F: "faithful F" and room: "length (m_blockBuffer (m_downloadingQueue a)) + length xs \<le> unat (c_maxDownloadingBlockQueueSize (m_config a))"
  shows "receive F (map (\<lambda>(sender, n). (sender, msg_encode (fw_encodePB F) (blockMessage F chain n))) xs) a =
    a\<lparr>m_downloadingQueue := (m_downloadingQueue a)
      \<lparr>m_blockBuffer := m_blockBuffer (m_downloadingQueue a) @ map (\<lambda>x. blockMessage F chain (snd x)) xs\<rparr>\<rparr>"
  using room
proof (induction xs arbitrary: a)
  case Nil
  then show ?case by (simp add: receive_def)
next
  case (Cons x xs)
  obtain sender n where x: "x = (sender, n)" by (cases x)
  have "blocksOfMsg (blockMessage F chain n) = blockMessage F chain n"
    using blockMessage_fields [of F chain n] by (simp add: message_defs)
  then have "onPeerBlocks (blockMessage F chain n) a =
      a\<lparr>m_downloadingQueue := (m_downloadingQueue a)\<lparr>m_blockBuffer := m_blockBuffer (m_downloadingQueue a) @ [blockMessage F chain n]\<rparr>\<rparr>"
    using Cons.prems by (simp add: onPeerBlocks_def dq_push_def)
  then show ?case using Cons by (simp add: receive_def deliver_block [OF F] x)
qed

lemma newBlocksOf_blockMessage:
  "good_chain F chain \<Longrightarrow> c_blockNumber cfg < n \<Longrightarrow> newBlocksOf F cfg (blockMessage F chain n) = [chain n]"
  by (simp add: newBlocksOf_def blockMessage_fields good_chain_def List.map_filter_def)

lemma flush_blocks:
  assumes chain: "good_chain F chain" and sync: "shouldSyncing a" and limit: "length ns < unat (c_maxDownloadingBlockQueueSize (m_config a))"
    and above: "\<forall>n \<in> set ns. c_blockNumber (m_config a) < n"
    and q: "m_blocks (m_downloadingQueue a) = []" "m_blockBuffer (m_downloadingQueue a) = map (blockMessage F chain) ns" "ns \<noteq> []"
  obtains bs where "maintainDownloadingBuffer F a =
      a\<lparr>m_downloadingQueue := (m_downloadingQueue a)\<lparr>m_blocks := bs, m_blockBuffer := []\<rparr>\<rparr>" "mset bs = mset (map chain ns)"
proof -
  let ?q = "m_downloadingQueue a" and ?q' = "flushBuffer F (m_config a) True (m_downloadingQueue a)"
  obtain n where n: "n \<le> length ns" "mset (m_blocks ?q') = mset (concat (map (newBlocksOf F (m_config a)) (take n (m_blockBuffer ?q))))"
    "m_blockBuffer ?q' = drop (Suc n) (m_blockBuffer ?q)" "m_commitQueue ?q' = m_commitQueue ?q"
    "n < length ns \<longrightarrow> unat (c_maxDownloadingBlockQueueSize (m_config a)) \<le> length (m_blocks ?q')"
    using flushBuffer_spec [OF _ refl, of ?q F "m_config a"] q by (auto simp: blk.is_heap_Nil)
  have "map (newBlocksOf F (m_config a)) (take n (m_blockBuffer ?q)) = map (\<lambda>n. [chain n]) (take n ns)"
    using above by (auto simp: q(2) take_map newBlocksOf_blockMessage [OF chain] dest: in_set_takeD)
  then have blocks: "mset (m_blocks ?q') = mset (map chain (take n ns))" unfolding n(2) by (simp add: concat_map_singleton)
  have "length (m_blocks ?q') \<le> length ns" using mset_eq_length [OF blocks] by simp
  then have "n = length ns" using n(1,5) limit by linarith
  then have q': "?q' = ?q\<lparr>m_blocks := m_blocks ?q', m_blockBuffer := []\<rparr>" "mset (m_blocks ?q') = mset (map chain ns)"
    using n(3,4) q(2) blocks by (cases ?q', cases ?q, auto)
  have "clearFullQueueIfNotHas (m_config a) k ?q = ?q" for k
    using q(1) by (simp add: clearFullQueueIfNotHas_def pq_top_def)
  then have "maintainDownloadingBuffer F a = a\<lparr>m_downloadingQueue := ?q'\<rparr>"
    using sync q by (simp add: maintainDownloadingBuffer_def dq_size_def flushBufferToQueue_def Let_def)
  then show thesis by (intro that [of "m_blocks ?q'"] q'(2)) (subst (asm) q'(1))
qed

text \<open>While the requested blocks are worked off, a download task only executes the next one.\<close>

lemma still_waiting:
  "m_state s = Downloading \<Longrightarrow> c_blockNumber (m_config s) < m_maxRequestNumber s \<Longrightarrow>
   c_executedBlock (m_config s) < m_maxRequestNumber s \<Longrightarrow> tryToRequestBlocks F rnds s = s"
  by (simp add: tryToRequestBlocks_def isSyncing_def Let_def)

definition at_work :: "(BlockNumber \<Rightarrow> Block) \<Rightarrow> nat \<Rightarrow> 'sc BlockSync \<Rightarrow> bool" where
  "at_work chain n s \<longleftrightarrow> loaded n s \<and> m_blockBuffer (m_downloadingQueue s) = [] \<and> standard (m_config s) \<and>
     length (m_blocks (m_downloadingQueue s)) < 256 \<and> m_maxRequestNumber s = c_blockNumber (m_config s) + int n \<and>
     set (m_blocks (m_downloadingQueue s)) \<subseteq> chain ` {c_blockNumber (m_config s) + 1 .. c_blockNumber (m_config s) + int n}"

lemma buffer_empty:
  assumes "m_blockBuffer (m_downloadingQueue s) = []" "length (m_blocks (m_downloadingQueue s)) < 256" "standard (m_config s)" "shouldSyncing s"
  shows "maintainDownloadingBuffer F s = s"
proof -
  have "clearFullQueueIfNotHas (m_config s) k (m_downloadingQueue s) = m_downloadingQueue s" for k
    using assms(2,3) by (simp add: clearFullQueueIfNotHas_def standard_def)
  then show ?thesis using assms(1,4)
    by (simp add: maintainDownloadingBuffer_def flushBufferToQueue_def flushBuffer.simps Let_def)
qed

text \<open>What a run keeps and adds, seen from a node that works off its blocks.\<close>

definition same_goal :: "'sc BlockSync \<Rightarrow> 'sc BlockSync \<Rightarrow> bool" where
  "same_goal s s' \<longleftrightarrow> m_syncStatus s' = m_syncStatus s \<and> m_waterMark s' = m_waterMark s \<and>
     c_knownHighestNumber (m_config s') = c_knownHighestNumber (m_config s) \<and>
     c_committedProposalNumber (m_config s') = c_committedProposalNumber (m_config s) \<and> set (calls s) \<subseteq> set (calls s')"

lemma same_goal_refl [simp, intro]: "same_goal s s"
  by (simp add: same_goal_def)

lemma same_goal_trans [trans]: "same_goal a b \<Longrightarrow> same_goal b c \<Longrightarrow> same_goal a c"
  by (auto simp: same_goal_def)

lemma loaded_syncs: "loaded n s \<Longrightarrow> 0 < n \<Longrightarrow> shouldSyncing s"
  by (auto simp: loaded_def shouldSyncing_def)

lemma taskRound_loaded:
  assumes s: "at_work chain (Suc n) s"
  shows "taskRound F rnds execute commit s = syncRound F execute commit s"
proof -
  note W = s [unfolded at_work_def]
  then have L: "loaded (Suc n) s" by blast
  note L' = L [unfolded loaded_def]
  then have wf: "bs_wf s" by blast
  have h: "heights_ok s" using L' bs_wf_height [OF wf] by (simp add: heights_ok_def height_def)
  have sync: "shouldSyncing s" using loaded_syncs [OF L] by simp
  have "c_blockNumber (m_config s) + 1 \<in> block_number ` set (m_blocks (m_downloadingQueue s))"
    using L' by (auto dest!: subsetD [of _ _ "c_blockNumber (m_config s) + 1"])
  then have "\<exists>b \<in> set (m_blocks (m_downloadingQueue s)). block_number b = c_blockNumber (m_config s) + 1" by force
  then obtain b q where s1: "maintainDownloadingQueue s = emit (ExecuteBlock b) ((with_blocks q s)\<lparr>m_state := Downloading\<rparr>)"
    using maintainDownloadingQueue_executes [OF wf h sync] L' by blast
  have "maintainDownloadingBuffer F s = s" by (rule buffer_empty) (use W sync in simp_all)
  then have "downloadTask F rnds s = maintainDownloadingQueue s"
    unfolding downloadTask_def using W L' by (subst still_waiting) (simp_all add: s1)
  then show ?thesis by (simp add: taskRound_def syncRound_def)
qed

lemma at_work_round:
  assumes s: "at_work chain (Suc n) s" and chain: "good_chain F chain" and execute: "\<And>b. bh_hash (execute b) = bh_hash (blockHeader b)"
    and commit: "\<And>b. lc_blockNumber (commit b) = block_number b" and s': "s' = taskRound F rnds execute commit s"
  shows "at_work chain n s'" "c_blockNumber (m_config s') = c_blockNumber (m_config s) + 1"
    "CommitBlock (chain (c_blockNumber (m_config s) + 1)) \<in> set (calls s')" "same_goal s s'"
proof -
  note W = s [unfolded at_work_def]
  then have L: "loaded (Suc n) s" by blast
  have eq: "syncRound F execute commit s = s'" unfolding s' by (rule taskRound_loaded [OF s, symmetric])
  obtain b where b: "b \<in> set (m_blocks (m_downloadingQueue s))" "block_number b = c_blockNumber (m_config s) + 1"
    "CommitBlock b \<in> set (calls s')"
    and s': "loaded n s'" "c_blockNumber (m_config s') = c_blockNumber (m_config s) + 1"
    "set (m_blocks (m_downloadingQueue s')) \<subseteq> set (m_blocks (m_downloadingQueue s))" "\<exists>cs. calls s' = calls s @ cs"
    "advances (m_config s) (m_config s')"
    "\<forall>x \<in> set (m_blocks (m_downloadingQueue s')). c_blockNumber (m_config s) + 1 < block_number x"
    "length (m_blocks (m_downloadingQueue s')) \<le> length (m_blocks (m_downloadingQueue s))"
    "m_blockBuffer (m_downloadingQueue s') = m_blockBuffer (m_downloadingQueue s)"
    "dq_world.more s' = dq_world.more (s\<lparr>m_state := Downloading\<rparr>)"
    "c_knownHighestNumber (m_config s') = c_knownHighestNumber (m_config s)"
    "c_committedProposalNumber (m_config s') = c_committedProposalNumber (m_config s)"
    by (rule loaded_round [OF L execute commit, of F, unfolded eq])
  note more = same_more [OF s'(9), simplified]
  have num: "block_number (chain k) = k" for k using chain by (simp add: good_chain_def)
  show "c_blockNumber (m_config s') = c_blockNumber (m_config s) + 1" by (rule s'(2))
  show "same_goal s s'" using s'(4,10,11) more by (auto simp: same_goal_def)
  have "b = chain (c_blockNumber (m_config s) + 1)" using W b(1,2) num by auto
  then show "CommitBlock (chain (c_blockNumber (m_config s) + 1)) \<in> set (calls s')" using b(3) by simp
  have "x \<in> chain ` {c_blockNumber (m_config s') + 1 .. c_blockNumber (m_config s') + int n}"
    if x: "x \<in> set (m_blocks (m_downloadingQueue s'))" for x
  proof -
    obtain k where k: "x = chain k" "k \<le> c_blockNumber (m_config s) + int (Suc n)" using W s'(3) x by fastforce
    then show ?thesis using s'(2,6) x num by auto
  qed
  then show "at_work chain n s'"
    using W s'(1,2,7,8) standard_advances [OF s'(5)] more by (auto simp: at_work_def)
qed

lemma at_work_rounds:
  assumes "at_work chain n s" and "good_chain F chain" and "\<And>b. bh_hash (execute b) = bh_hash (blockHeader b)"
    and "\<And>b. lc_blockNumber (commit b) = block_number b" and "s' = (taskRound F rnds execute commit ^^ n) s"
  shows "at_work chain 0 s' \<and> c_blockNumber (m_config s') = c_blockNumber (m_config s) + int n \<and> same_goal s s' \<and>
    CommitBlock ` chain ` {c_blockNumber (m_config s) + 1 .. c_blockNumber (m_config s) + int n} \<subseteq> set (calls s')"
  using assms(1) unfolding assms(5)
proof (induction n arbitrary: s)
  case (Suc n)
  let ?s = "taskRound F rnds execute commit s"
  note step = at_work_round [OF Suc.prems assms(2-4) refl, of rnds]
  note IH = Suc.IH [OF step(1)]
  let ?s' = "(taskRound F rnds execute commit ^^ n) ?s"
  have sub: "set (calls ?s) \<subseteq> set (calls ?s')" using IH by (simp add: same_goal_def)
  have range: "{c_blockNumber (m_config s) + 1 .. c_blockNumber (m_config s) + int (Suc n)} =
      insert (c_blockNumber (m_config s) + 1) {c_blockNumber (m_config ?s) + 1 .. c_blockNumber (m_config ?s) + int n}"
    unfolding step(2) by auto
  have "CommitBlock ` chain ` {c_blockNumber (m_config s) + 1 .. c_blockNumber (m_config s) + int (Suc n)} \<subseteq> set (calls ?s')"
    unfolding range using IH step(3) sub by blast
  moreover have "same_goal s ?s'" using step(4) IH by (blast intro: same_goal_trans)
  ultimately show ?case using IH unfolding funpow_Suc_right o_apply by (simp add: step(2))
qed simp

text \<open>The first task after the delivery first takes the blocks out of the buffer.\<close>

lemma taskRound_flush:
  assumes "at_work chain (Suc n) (maintainDownloadingBuffer F s)"
  shows "taskRound F rnds execute commit s = taskRound F rnds execute commit (maintainDownloadingBuffer F s)"
proof -
  let ?s = "maintainDownloadingBuffer F s"
  have "maintainDownloadingBuffer F ?s = ?s"
    using assms loaded_syncs by (intro buffer_empty) (auto simp: at_work_def)
  then show ?thesis by (simp add: taskRound_def downloadTask_def)
qed

section \<open>One exchange and many\<close>

lemma reordered_map: "mset xs = mset (map f ys) \<Longrightarrow> \<exists>zs. xs = map f zs \<and> mset zs = mset ys"
proof (induction xs arbitrary: ys)
  case (Cons x xs)
  then have "x \<in> f ` set ys" by (metis list.set_intros(1) list.set_map set_mset_mset)
  then obtain y where y: "y \<in> set ys" "x = f y" by blast
  then have "mset ys = add_mset y (mset (remove1 y ys))" by simp
  then have "mset (map f ys) = add_mset (f y) (mset (map f (remove1 y ys)))" by (metis image_mset_add_mset mset_map)
  then have "mset xs = mset (map f (remove1 y ys))" using Cons.prems y(2) by simp
  then obtain zs where "xs = map f zs" "mset zs = mset (remove1 y ys)" using Cons.IH by blast
  then show ?case using y by (intro exI [of _ "y # zs"]) simp
qed simp

lemma distinct_submset:
  assumes "distinct xs" "mset ys \<subseteq># mset xs"
  shows "distinct ys"
  unfolding distinct_count_atmost_1
proof
  fix y
  have "count (mset ys) y \<le> count (mset xs) y" by (rule mset_subset_eq_count [OF assms(2)])
  also have "\<dots> \<le> 1" using assms(1) by (cases "y \<in> set xs") (simp_all add: distinct_count_atmost_1 count_eq_zero_iff)
  finally have "count (mset ys) y \<le> 1" .
  moreover have "0 < count (mset ys) y \<longleftrightarrow> y \<in> set ys" by (simp add: count_greater_zero_iff)
  ultimately show "count (mset ys) y = (if y \<in> set ys then 1 else 0)" by (cases "count (mset ys) y") auto
qed

lemma blocks_received:
  assumes a: "lagging ks a" "ks \<noteq> []" "length ks \<le> 15"
    and h: "c_blockNumber (m_config a) = h" "c_knownHighestNumber (m_config a) = t" "h < t"
    and F: "faithful F" and chain: "good_chain F chain"
    and xs: "mset (map snd xs) = mset [h + 1 .. lastAsked (length ks) h t]"
    and a2: "a2 = receive F (map (\<lambda>(sender, n). (sender, msg_encode (fw_encodePB F) (blockMessage F chain n))) xs) (downloadTask F rnds a)"
  shows "at_work chain (nat (lastAsked (length ks) h t - h)) (maintainDownloadingBuffer F a2)"
    "m_config (maintainDownloadingBuffer F a2) = m_config a" "same_goal a (maintainDownloadingBuffer F a2)"
    "m_config a2 = m_config a" "m_maxRequestNumber a2 = lastAsked (length ks) h t"
proof -
  define a1 where "a1 = downloadTask F rnds a"
  note L = a(1) [unfolded lagging_def] and sent = requests_sent [OF a(1,2) h a1_def]
  let ?m = "lastAsked (length ks) h t" and ?ns = "map snd xs"
  have wf: "bs_wf a" and std: "standard (m_config a)" and h0: "0 \<le> h" "t < 2 ^ 62" using L h bs_wf_height [of a] by auto
  have m: "h < ?m" "?m \<le> h + 240" "?m \<le> t" using h(3) a(2,3) by (auto simp: lastAsked_def)
  have "length ?ns = length [h + 1 .. ?m]" by (rule mset_eq_length [OF xs])
  then have len: "length xs \<le> 240" "xs \<noteq> []" using m by auto
  have set_ns: "set ?ns = {h + 1 .. ?m}" using arg_cong [OF xs, of set_mset] by simp
  have q1: "m_blocks (m_downloadingQueue a1) = []" "m_blockBuffer (m_downloadingQueue a1) = []" "m_commitQueue (m_downloadingQueue a1) = []"
    using L by (simp_all add: sent)
  have a2': "a2 = a1\<lparr>m_downloadingQueue := (m_downloadingQueue a1)\<lparr>m_blockBuffer := map (blockMessage F chain) ?ns\<rparr>\<rparr>"
    unfolding a2 a1_def [symmetric] using receive_blocks [OF F, of a1 xs chain] len std
    by (simp add: q1 sent(1) standard_def)
  show cfg: "m_config a2 = m_config a" "m_maxRequestNumber a2 = ?m" by (simp_all add: a2' sent)
  have "shouldSyncing a2" using L h by (simp add: shouldSyncing_def a2' sent(1))
  then obtain bs where a3: "maintainDownloadingBuffer F a2 =
      a2\<lparr>m_downloadingQueue := (m_downloadingQueue a2)\<lparr>m_blocks := bs, m_blockBuffer := []\<rparr>\<rparr>" and bs: "mset bs = mset (map chain ?ns)"
  proof (rule flush_blocks [OF chain])
    show "length ?ns < unat (c_maxDownloadingBlockQueueSize (m_config a2))" using len std by (simp add: cfg standard_def)
    show "\<forall>n \<in> set ?ns. c_blockNumber (m_config a2) < n" unfolding set_ns using h by (simp add: cfg)
  qed (use len in \<open>simp_all add: a2' q1\<close>)
  let ?a3 = "maintainDownloadingBuffer F a2"
  show cfg3: "m_config ?a3 = m_config a" by (simp add: a3 cfg)
  have "calls a1 = calls a @ new_calls a a1"
    using bs_safe_downloadTask [of a F rnds] wf by (auto simp: a1_def bs_safe_def new_calls_def)
  then show "same_goal a ?a3" by (simp add: same_goal_def a3) (auto simp: a2' sent)
  have set: "set bs = chain ` {h + 1 .. ?m}" using arg_cong [OF bs, of set_mset] set_ns by (simp add: image_image [symmetric])
  have num: "block_number (chain k) = k" for k using chain by (simp add: good_chain_def)
  have f3: "m_waterMark ?a3 = m_waterMark a" "m_maxRequestNumber ?a3 = ?m" "m_commitQueue (m_downloadingQueue ?a3) = []"
    "m_blockBuffer (m_downloadingQueue ?a3) = []" "m_blocks (m_downloadingQueue ?a3) = bs"
    by (simp_all only: a3) (simp_all add: a2' sent(5,6) q1)
  have "bs_safe a ?a3" unfolding a2 receive_def
    by (intro bs_safe_trans [OF bs_safe_downloadTask bs_safe_trans [OF bs_safe_fold bs_safe_maintainDownloadingBuffer]]) auto
  then have "bs_wf ?a3" using wf by (rule bs_safe_wf)
  then have "loaded (nat (?m - h)) ?a3"
    using L h m h0 by (auto simp: loaded_def cfg3 f3 set image_image num)
  then show "at_work chain (nat (?m - h)) ?a3"
    using std m len mset_eq_length [OF bs] h set by (simp add: at_work_def cfg3 f3)
qed

text \<open>What the other nodes do in an exchange, and what arrives at the lagging one.\<close>

abbreviation nodeKeys :: "(NodeIDPtr \<times> 'sc BlockSync) list \<Rightarrow> NodeID list" where
  "nodeKeys bs \<equiv> map (\<lambda>x. np_data (fst x)) bs"

lemma answers_received:
  assumes a: "lagging (nodeKeys bs) a" "bs \<noteq> []" "length bs \<le> 15"
    and b: "\<forall>x \<in> set bs. serves (np_data idA) (snd x)"
    and h: "c_blockNumber (m_config a) = h" "c_knownHighestNumber (m_config a) = t" "h < t"
    and F: "faithful F" and order: "\<And>xs. mset (order xs) = mset xs"
    and served: "served = servedBy F rnd chain idA (new_calls a (downloadTask F rnds a))"
    and answers: "answers = (\<lambda>x. map (Pair (fst x)) (addressed (np_data idA) (new_calls (snd x) (served x))))"
  shows "\<exists>xs. order (concat (map answers bs)) = map (\<lambda>(sender, n). (sender, msg_encode (fw_encodePB F) (blockMessage F chain n))) xs \<and>
      mset (map snd xs) = mset [h + 1 .. lastAsked (length bs) h t]"
    "\<forall>x \<in> set bs. serves (np_data idA) (served x)"
proof -
  let ?enc = "\<lambda>(sender, n). (sender, msg_encode (fw_encodePB F) (blockMessage F chain n))"
  note L = a(1) [unfolded lagging_def]
  have h0: "0 \<le> h" "t < 2 ^ 62" using L h bs_wf_height [of a] by auto
  have k: "0 < length bs" "nodeKeys bs \<noteq> []" using a(2) by auto
  obtain ps where ps: "new_calls a (downloadTask F rnds a) = NotifyHighestSyncingNumber t # requestCalls F h t 8 0 ps"
    "length ps = shardsAsked (length bs) h t" "peerKey ` set ps \<subseteq> set (nodeKeys bs)"
    using requests_sent(7) [OF a(1) k(2) h refl, of F rnds] by auto
  note ok = ranges_ok [OF k(1) h0(1) h(3) h0(2) ps(2)]
  have eff: "addressed (np_data idA) (new_calls (snd x) (served x)) =
      map (\<lambda>n. msg_encode (fw_encodePB F) (blockMessage F chain n)) (sorted_list_of_set (numbersFor h t ps (np_data (fst x))))"
    "serves (np_data idA) (served x)" if "x \<in> set bs" for x
    using serve_effect [OF F bspec [OF b that] ok(1), of "np_data (fst x)" "served x" "rnd (fst x)" chain] ok(2) [of "np_data (fst x)"] a(3)
    by (simp_all add: served servedBy_def ps(1) addressed_requests numbersFor_def)
  then show "\<forall>x \<in> set bs. serves (np_data idA) (served x)" by blast
  define ys where "ys = concat (map (\<lambda>x. map (Pair (fst x)) (sorted_list_of_set (numbersFor h t ps (np_data (fst x))))) bs)"
  have "answers x = map ?enc (map (Pair (fst x)) (sorted_list_of_set (numbersFor h t ps (np_data (fst x)))))" if "x \<in> set bs" for x
    using eff(1) [OF that] by (simp add: answers)
  then have "concat (map answers bs) = map ?enc ys" unfolding ys_def by (simp add: map_concat o_def cong: map_cong)
  then obtain xs where xs: "order (concat (map answers bs)) = map ?enc xs" "mset xs = mset ys"
    using reordered_map [of "order (concat (map answers bs))" ?enc ys] order by auto
  have "distinct (nodeKeys bs)"
  proof -
    have "peers_wf (m_config a) (m_syncStatus a)" using L by (simp add: bs_wf_def)
    then have "distinct (map peerKey (map snd (m_peersStatus (m_syncStatus a))))"
      using peers_distinct_ids by (simp add: peerKey_def [abs_def])
    moreover have "image_mset peerKey (sources a) \<subseteq># image_mset peerKey (mset (map snd (m_peersStatus (m_syncStatus a))))"
      unfolding sources_def by (intro image_mset_subseteq_mono multiset_filter_subset)
    then have "mset (nodeKeys bs) \<subseteq># mset (map peerKey (map snd (m_peersStatus (m_syncStatus a))))" using L by (simp add: image_mset.compositionality)
    ultimately show ?thesis by (rule distinct_submset)
  qed
  then have "mset (map snd ys) = mset [h + 1 .. lastAsked (length bs) h t]"
    using numbers_once [OF k(1) h0(1) h(3) h0(2) ps(2,3)] unfolding ys_def by (simp add: map_concat o_def)
  moreover have "mset (map snd xs) = mset (map snd ys)" using xs(2) by (metis mset_map)
  ultimately show "\<exists>xs. order (concat (map answers bs)) = map ?enc xs \<and> mset (map snd xs) = mset [h + 1 .. lastAsked (length bs) h t]"
    using xs(1) by auto
qed

lemma exchange_effect:
  assumes a: "lagging (nodeKeys bs) a" "bs \<noteq> []" "length bs \<le> 15" and b: "\<forall>x \<in> set bs. serves (np_data idA) (snd x)"
    and h: "c_blockNumber (m_config a) = h" "c_knownHighestNumber (m_config a) = t" "h < t"
    and F: "faithful F" and chain: "good_chain F chain" and execute: "\<And>b. bh_hash (execute b) = bh_hash (blockHeader b)"
    and commit: "\<And>b. lc_blockNumber (commit b) = block_number b" and order: "\<And>xs. mset (order xs) = mset xs"
    and x: "exchange F rnds rnd order chain execute commit idA (a, bs) = (a', bs')"
  shows "lagging (nodeKeys bs') a'" "map fst bs' = map fst bs" "\<forall>x \<in> set bs'. serves (np_data idA) (snd x)"
    "c_blockNumber (m_config a') = lastAsked (length bs) h t"
    "c_knownHighestNumber (m_config a') = t" "set (calls a) \<subseteq> set (calls a')"
    "CommitBlock ` chain ` {h + 1 .. lastAsked (length bs) h t} \<subseteq> set (calls a')"
proof -
  define served where "served = servedBy F rnd chain idA (new_calls a (downloadTask F rnds a))"
  define answers where "answers = (\<lambda>x. map (Pair (fst x)) (addressed (np_data idA) (new_calls (snd x) (served x))))"
  define a2 where "a2 = receive F (order (concat (map answers bs))) (downloadTask F rnds a)"
  let ?m = "lastAsked (length bs) h t"
  define n where "n = nat (?m - h)"
  note L = a(1) [unfolded lagging_def]
  have k: "nodeKeys bs \<noteq> []" "length (nodeKeys bs) = length bs" "length (nodeKeys bs) \<le> 15" using a(2,3) by auto
  have m: "h < ?m" using h(3) a(2) by (simp add: lastAsked_def)
  then obtain i where i: "n = Suc i" by (cases n) (auto simp: n_def)
  obtain xs where xs: "order (concat (map answers bs)) = map (\<lambda>(sender, n). (sender, msg_encode (fw_encodePB F) (blockMessage F chain n))) xs"
    "mset (map snd xs) = mset [h + 1 .. ?m]" and ok: "\<forall>x \<in> set bs. serves (np_data idA) (served x)"
    using answers_received [OF a b h F order served_def answers_def] by blast
  note at = blocks_received [OF a(1) k(1,3) h F chain xs(2) [folded k(2)] a2_def [unfolded xs(1)], unfolded k(2)]
  let ?a3 = "maintainDownloadingBuffer F a2"
  have "(a', bs') = ((taskRound F rnds execute commit ^^ nat (m_maxRequestNumber a2 - c_blockNumber (m_config a2))) a2,
      map (\<lambda>x. (fst x, served x)) bs)"
    unfolding x [symmetric] a2_def answers_def served_def by (simp add: exchange_def Let_def)
  then have "(a', bs') = ((taskRound F rnds execute commit ^^ n) a2, map (\<lambda>x. (fst x, served x)) bs)"
    by (simp add: at(4,5) h(1) n_def)
  then have x': "a' = (taskRound F rnds execute commit ^^ n) ?a3" "bs' = map (\<lambda>x. (fst x, served x)) bs"
    using taskRound_flush [OF at(1) [folded n_def, unfolded i]] by (simp_all add: i funpow_Suc_right del: funpow.simps)
  show ids: "map fst bs' = map fst bs" by (simp add: x'(2))
  show "\<forall>x \<in> set bs'. serves (np_data idA) (snd x)" using ok by (simp add: x'(2))
  have R: "at_work chain 0 a'" "c_blockNumber (m_config a') = h + int n" "same_goal ?a3 a'"
    "CommitBlock ` chain ` {h + 1 .. h + int n} \<subseteq> set (calls a')"
    using at_work_rounds [OF at(1) [folded n_def] chain execute commit x'(1)] by (simp_all add: at(2) h(1))
  have n: "h + int n = ?m" using m by (simp add: n_def)
  show "c_blockNumber (m_config a') = ?m" "CommitBlock ` chain ` {h + 1 .. ?m} \<subseteq> set (calls a')"
    using R(2,4) unfolding n by simp_all
  have g: "same_goal a a'" using at(3) R(3) by (rule same_goal_trans)
  then show "c_knownHighestNumber (m_config a') = t" "set (calls a) \<subseteq> set (calls a')" using h(2) by (simp_all add: same_goal_def)
  have "sources a' = sources a" using g by (simp add: same_goal_def sources_def upToDate_def [abs_def])
  moreover have "nodeKeys bs' = nodeKeys bs" using ids by (metis (no_types, lifting) map_map o_def map_eq_conv)
  ultimately show "lagging (nodeKeys bs') a'" using R(1) g L by (auto simp: lagging_def at_work_def loaded_def same_goal_def)
qed

text \<open>When requests or answers are lost, the node is as far as before, and asks again.\<close>

lemma lost_effect:
  assumes a: "lagging (nodeKeys bs) a" "bs \<noteq> []" and h: "c_blockNumber (m_config a) < c_knownHighestNumber (m_config a)"
    and a': "a' = onDownloadTimeout (downloadTask F rnds a)"
  shows "lagging (nodeKeys bs) a'" "m_config a' = m_config a" "set (calls a) \<subseteq> set (calls a')"
proof -
  define a1 where "a1 = downloadTask F rnds a"
  have "nodeKeys bs \<noteq> []" using a(2) by simp
  note sent = requests_sent [OF a(1) this refl refl h a1_def]
  note L = a(1) [unfolded lagging_def]
  have a1': "m_config a' = m_config a1" "m_downloadingQueue a' = m_downloadingQueue a1" "m_syncStatus a' = m_syncStatus a1"
    "m_state a' = Idle" "m_maxRequestNumber a' = m_maxRequestNumber a1" "m_waterMark a' = m_waterMark a1" "calls a' = calls a1"
    by (simp_all add: a' a1_def onDownloadTimeout_def)
  then show "m_config a' = m_config a" using sent(1) by simp
  have safe: "bs_safe a a1" unfolding a1_def by (rule bs_safe_downloadTask)
  then show "set (calls a) \<subseteq> set (calls a')" using L by (auto simp: bs_safe_def a1')
  have "bs_wf a'" using bs_safe_wf [OF safe] L by (simp add: bs_wf_def a1')
  moreover have "sources a' = sources a" by (simp add: sources_def a1' sent)
  ultimately show "lagging (nodeKeys bs) a'" using L by (simp add: lagging_def a1' sent)
qed

definition deliveries :: "delivery list \<Rightarrow> nat" where
  "deliveries ds = length (filter ((=) Delivered) ds)"

lemma attempt_effect:
  assumes a: "lagging (nodeKeys bs) a" "bs \<noteq> []" "length bs \<le> 15" and b: "\<forall>x \<in> set bs. serves (np_data idA) (snd x)"
    and h: "c_blockNumber (m_config a) = h" "c_knownHighestNumber (m_config a) = t" "h < t"
    and F: "faithful F" and chain: "good_chain F chain" and execute: "\<And>b. bh_hash (execute b) = bh_hash (blockHeader b)"
    and commit: "\<And>b. lc_blockNumber (commit b) = block_number b" and order: "\<And>xs. mset (order xs) = mset xs"
    and x: "attempt F rnds rnd order chain execute commit idA d (a, bs) = (a', bs')"
  shows "lagging (nodeKeys bs') a' \<and> map fst bs' = map fst bs \<and> (\<forall>x \<in> set bs'. serves (np_data idA) (snd x)) \<and>
    c_blockNumber (m_config a') = min (h + int (16 * length bs) * int (deliveries [d])) t \<and>
    c_knownHighestNumber (m_config a') = t \<and> set (calls a) \<subseteq> set (calls a') \<and>
    CommitBlock ` chain ` {h + 1 .. min (h + int (16 * length bs) * int (deliveries [d])) t} \<subseteq> set (calls a')"
proof (cases "d = Delivered")
  case True
  then have e: "exchange F rnds rnd order chain execute commit idA (a, bs) = (a', bs')" using x by (simp add: attempt_def)
  have "lastAsked (length bs) h t = min (h + int (16 * length bs) * int (deliveries [d])) t"
    by (simp add: True lastAsked_def deliveries_def)
  with exchange_effect [OF a b h F chain execute commit order e]
  show ?thesis by metis
next
  case False
  let ?cs = "new_calls a (downloadTask F rnds a)"
  have a': "a' = onDownloadTimeout (downloadTask F rnds a)"
    and bs': "bs' = bs \<or> bs' = map (\<lambda>x. (fst x, servedBy F rnd chain idA ?cs x)) bs"
    using x False by (cases d; simp add: attempt_def)+
  have "\<forall>x \<in> set bs. serves (np_data idA) (servedBy F rnd chain idA ?cs x)"
    by (rule answers_received(2) [OF a b h F order refl refl])
  then have "map fst bs' = map fst bs" "\<forall>x \<in> set bs'. serves (np_data idA) (snd x)" using bs' b by (auto simp: o_def)
  moreover from this(1) have "nodeKeys bs' = nodeKeys bs" by (metis (no_types, lifting) map_map o_def map_eq_conv)
  moreover have "c_blockNumber (m_config a) < c_knownHighestNumber (m_config a)" using h by simp
  note lost = lost_effect [OF a(1,2) this a']
  moreover have "deliveries [d] = 0" using False by (simp add: deliveries_def)
  ultimately show ?thesis
    using h by simp
qed

lemma attempts_effect:
  assumes a: "lagging (nodeKeys bs) a" "bs \<noteq> []" "length bs \<le> 15" and b: "\<forall>x \<in> set bs. serves (np_data idA) (snd x)"
    and h: "c_blockNumber (m_config a) = h" "c_knownHighestNumber (m_config a) = t"
    and F: "faithful F" and chain: "good_chain F chain" and execute: "\<And>b. bh_hash (execute b) = bh_hash (blockHeader b)"
    and commit: "\<And>b. lc_blockNumber (commit b) = block_number b" and order: "\<And>xs. mset (order xs) = mset xs"
    and ds: "ds = [] \<or> h + int (16 * length bs) * int (deliveries (butlast ds)) < t"
    and x: "fold (attempt F rnds rnd order chain execute commit idA) ds (a, bs) = (a', bs')"
  shows "lagging (nodeKeys bs') a' \<and> map fst bs' = map fst bs \<and> (\<forall>x \<in> set bs'. serves (np_data idA) (snd x)) \<and>
    c_blockNumber (m_config a') = min (h + int (16 * length bs) * int (deliveries ds)) t \<and> c_knownHighestNumber (m_config a') = t \<and>
    CommitBlock ` chain ` {h + 1 .. min (h + int (16 * length bs) * int (deliveries ds)) t} \<subseteq> set (calls a')"
  using ds x
proof (induction ds arbitrary: a' bs' rule: rev_induct)
  case Nil
  have "h \<le> t" using a(1) h by (auto simp: lagging_def bs_wf_def config_wf_def)
  with Nil a b h show ?case by (auto simp: deliveries_def)
next
  case (snoc d ds)
  let ?k = "int (16 * length bs)"
  define m where "m = ?k * int (deliveries ds)"
  obtain c es where ce: "fold (attempt F rnds rnd order chain execute commit idA) ds (a, bs) = (c, es)" by fastforce
  have lt: "h + m < t" "0 \<le> m" using snoc.prems(1) by (simp_all add: m_def)
  have "deliveries (butlast ds) \<le> deliveries ds" by (cases ds rule: rev_cases) (simp_all add: deliveries_def)
  then have "?k * int (deliveries (butlast ds)) \<le> m" unfolding m_def by (intro mult_left_mono) simp_all
  then have "ds = [] \<or> h + ?k * int (deliveries (butlast ds)) < t" using lt(1) by simp
  from snoc.IH [OF this ce, folded m_def] have IH: "lagging (nodeKeys es) c" "map fst es = map fst bs"
    "\<forall>x \<in> set es. serves (np_data idA) (snd x)" "c_blockNumber (m_config c) = h + m" "c_knownHighestNumber (m_config c) = t"
    "CommitBlock ` chain ` {h + 1 .. h + m} \<subseteq> set (calls c)"
    unfolding min_absorb1 [OF less_imp_le [OF lt(1)]] by blast+
  have len: "length es = length bs" using IH(2) by (metis length_map)
  then have es: "es \<noteq> []" "length es \<le> 15" using a(2,3) by auto
  have "attempt F rnds rnd order chain execute commit idA d (c, es) = (a', bs')" using snoc.prems(2) ce by simp
  note X = attempt_effect [OF IH(1) es IH(3-5) lt(1) F chain execute commit order this, unfolded len]
  have m': "h + ?k * int (deliveries (ds @ [d])) = h + m + ?k * int (deliveries [d])"
    by (simp add: m_def deliveries_def distrib_left)
  have "{h + 1 .. min (h + m + n) t} = {h + 1 .. h + m} \<union> {h + m + 1 .. min (h + m + n) t}" if "0 \<le> n" for n
    using that lt by auto
  from this [of "?k * int (deliveries [d])"] have "{h + 1 .. min (h + m + ?k * int (deliveries [d])) t} =
      {h + 1 .. h + m} \<union> {h + m + 1 .. min (h + m + ?k * int (deliveries [d])) t}" by simp
  then have "CommitBlock ` chain ` {h + 1 .. min (h + m + ?k * int (deliveries [d])) t} \<subseteq> set (calls a')"
    using IH(6) X by (simp add: image_Un) blast
  then show ?case using X IH(2) unfolding m' by simp
qed

section \<open>Properties\<close>

text \<open>
  C6: a group of nodes brings a lagging one level. Node \<open>idA\<close> at height \<open>h\<close> has nothing downloaded, and its peers at the
  highest number \<open>t\<close> are the nodes of \<open>bs\<close>, at least one and at most fifteen, each of which has it as a peer. In an attempt
  the front service delivers all messages, the blocks in any order, or it loses the requests, or the answers to them, and the download timer
  fires. If the ledgers of the nodes answer each fetch with the block of the chain,
  and the services of \<open>idA\<close> execute, accept, store and commit what they are given, then after \<open>\<lceil>(t - h) / 16 k\<rceil>\<close> attempts that
  are not lost, with \<open>k\<close> nodes (two shards of eight blocks for each), and any number that are, the height of \<open>idA\<close> is \<open>t\<close>, and the commits it
  asked for include every block \<open>h + 1, ..., t\<close> of the chain.
\<close>

theorem catch_up:
  assumes "lagging (map (\<lambda>x. np_data (fst x)) bs) a" "bs \<noteq> []" "length bs \<le> 15" "\<forall>x \<in> set bs. serves (np_data idA) (snd x)"
    and "faithful F" "good_chain F chain" and "\<And>xs. mset (order xs) = mset xs"
    and "\<And>b. bh_hash (execute b) = bh_hash (blockHeader b)" "\<And>b. lc_blockNumber (commit b) = block_number b"
    and "h = c_blockNumber (m_config a)" "t = c_knownHighestNumber (m_config a)" "k = int (16 * length bs)"
    and "deliveries ds = nat ((t - h + k - 1) div k)" "ds = [] \<or> last ds = Delivered"
    and "fold (attempt F rnds rnd order chain execute commit idA) ds (a, bs) = (a', bs')"
  shows "c_blockNumber (m_config a') = t \<and> CommitBlock ` chain ` {h + 1 .. t} \<subseteq> set (calls a')"
proof -
  let ?j = "(t - h + k - 1) div k"
  have ht: "h \<le> t" using assms(1,10,11) by (auto simp: lagging_def bs_wf_def config_wf_def)
  have k: "0 < k" using assms(2,12) by simp
  then have "0 \<le> ?j" using ht by (intro div_int_pos_iff [THEN iffD2]) auto
  then have j: "int (deliveries ds) = ?j" using assms(13) by simp
  have "k * ?j = (t - h + k - 1) - (t - h + k - 1) mod k" by (simp add: minus_mod_eq_mult_div)
  moreover have "0 \<le> (t - h + k - 1) mod k" "(t - h + k - 1) mod k < k" using k by simp_all
  ultimately have le: "h + k * int (deliveries ds) < t + k" "t \<le> h + k * int (deliveries ds)" using j by simp_all
  have "h + k * int (deliveries (butlast ds)) < t" if ne: "ds \<noteq> []"
  proof -
    obtain es e where es: "ds = es @ [e]" using ne by (cases ds rule: rev_cases) auto
    then have "deliveries ds = Suc (deliveries (butlast ds))" using assms(14) by (simp add: deliveries_def)
    then show ?thesis using le(1) by (simp add: distrib_left)
  qed
  then have "ds = [] \<or> h + int (16 * length bs) * int (deliveries (butlast ds)) < t" by (auto simp: assms(12))
  from attempts_effect [OF assms(1-4) assms(10) [symmetric] assms(11) [symmetric] assms(5,6,8,9,7) this assms(15), folded assms(12),
      unfolded min_absorb2 [OF le(2)]]
  show ?thesis by blast
qed

text \<open>Node 0 at height 6 and the nodes 1 and 2 at height 40 take two exchanges; two attempts before are lost.\<close>

definition demoAhead :: "nat \<Rightarrow> DemoSync BlockSync" where
  "demoAhead k = asyncNotifyBlockSyncMessage demoFramework None (demoNode 0) (msg_encode demo_encodePB (announce 6))
     (init demoFramework (replicate 32 9) (demoLedgerConfig 40) (createBlockSync (demoSync\<lparr>ds_nodeID := demoNode k\<rparr>)))"

definition demoBehind2 :: "DemoSync BlockSync" where
  "demoBehind2 = asyncNotifyBlockSyncMessage demoFramework None (demoNode 2) (msg_encode demo_encodePB (announce 40)) demoModule"

lemma lagging_demoBehind2: "lagging [1, 2] demoBehind2"
proof -
  have facts: "standard (m_config demoBehind2)" "m_waterMark demoBehind2 = 10" "c_knownHighestNumber (m_config demoBehind2) = 40"
    "c_committedProposalNumber (m_config demoBehind2) = 0" "c_executedBlock (m_config demoBehind2) = 6"
    "c_blockNumber (m_config demoBehind2) = 6" "m_maxRequestNumber demoBehind2 = 0"
    "m_blocks (m_downloadingQueue demoBehind2) = []" "m_blockBuffer (m_downloadingQueue demoBehind2) = []"
    "m_commitQueue (m_downloadingQueue demoBehind2) = []"
    "map (\<lambda>p. (peerKey p, ps_number p)) (map snd (m_peersStatus (m_syncStatus demoBehind2))) = [(1, 40), (2, 40)]"
    by code_simp+
  then obtain p q where "map snd (m_peersStatus (m_syncStatus demoBehind2)) = [p, q]" "peerKey p = 1" "peerKey q = 2"
    "ps_number p = 40" "ps_number q = 40" by (auto simp: map_eq_Cons_conv)
  moreover have "bs_wf demoBehind2" unfolding demoBehind2_def by (rule bs_safe_wf [OF bs_safe_message bs_wf_demoModule])
  ultimately show ?thesis using facts(1-10) by (simp add: lagging_def sources_def upToDate_def)
qed

lemma serves_demoAhead: "serves 0 (demoAhead 1)" "serves 0 (demoAhead 2)"
proof -
  have "bs_wf (demoAhead k)" for k unfolding demoAhead_def
    by (rule bs_safe_wf [OF bs_safe_message bs_wf_init]) (simp add: demoLedgerConfig_def height_def)
  moreover have "standard (m_config (demoAhead 1))" "req_store (m_syncStatus (demoAhead 1)) = [[]]"
    "case map_of (m_peersStatus (m_syncStatus (demoAhead 1))) 0 of None \<Rightarrow> False | Some p \<Rightarrow> queueOf (m_syncStatus (demoAhead 1)) p = []"
    "standard (m_config (demoAhead 2))" "req_store (m_syncStatus (demoAhead 2)) = [[]]"
    "case map_of (m_peersStatus (m_syncStatus (demoAhead 2))) 0 of None \<Rightarrow> False | Some p \<Rightarrow> queueOf (m_syncStatus (demoAhead 2)) p = []"
    by code_simp+
  ultimately show "serves 0 (demoAhead 1)" "serves 0 (demoAhead 2)" by (simp_all add: serves_def requests_ok_def split: option.splits)
qed

theorem catch_up_witness:
  "\<exists>a' bs'. fold (attempt demoFramework (\<lambda>_ i. i) (\<lambda>_ i. i) rev (\<lambda>n. demoBlock n 0) blockHeader demoCommit (demoNode 0))
      [RequestsLost, Delivered, AnswersLost, Delivered] (demoBehind2, [(demoNode 1, demoAhead 1), (demoNode 2, demoAhead 2)]) = (a', bs') \<and>
    c_blockNumber (m_config demoBehind2) = 6 \<and> c_blockNumber (m_config a') = 40 \<and>
    CommitBlock ` (\<lambda>n. demoBlock n 0) ` {7 .. 40} \<subseteq> set (calls a')"
proof -
  let ?X = "attempt demoFramework (\<lambda>_ i. i) (\<lambda>_ i. i) rev (\<lambda>n. demoBlock n 0) blockHeader demoCommit (demoNode 0)"
  let ?bs = "[(demoNode 1, demoAhead 1), (demoNode 2, demoAhead 2)]" and ?ds = "[RequestsLost, Delivered, AnswersLost, Delivered]"
  obtain a' bs' where x: "fold ?X ?ds (demoBehind2, ?bs) = (a', bs')" by (cases "fold ?X ?ds (demoBehind2, ?bs)")
  have h: "6 = c_blockNumber (m_config demoBehind2)" "40 = c_knownHighestNumber (m_config demoBehind2)" by code_simp+
  have lag: "lagging (map (\<lambda>x. np_data (fst x)) ?bs) demoBehind2" using lagging_demoBehind2 by (simp add: demoNode_def)
  have serves: "\<forall>x \<in> set ?bs. serves (np_data (demoNode 0)) (snd x)" using serves_demoAhead by (simp add: demoNode_def)
  have chain: "good_chain demoFramework (\<lambda>n. demoBlock n 0)"
    by (simp add: good_chain_def demoFramework_def) (simp add: demoBlock_def)
  have commit: "lc_blockNumber (demoCommit b) = block_number b" for b by (simp add: demoCommit_def demoLedgerConfig_def)
  have "deliveries ?ds = nat ((40 - 6 + int (16 * length ?bs) - 1) div int (16 * length ?bs))" "?ds = [] \<or> last ?ds = Delivered"
    by (simp_all add: deliveries_def)
  from catch_up [OF lag _ _ serves faithful_demoFramework chain mset_rev refl commit h refl this x]
  have "c_blockNumber (m_config a') = 40" "CommitBlock ` (\<lambda>n. demoBlock n 0) ` {7 .. 40} \<subseteq> set (calls a')" by simp_all
  with x h(1) [symmetric] show ?thesis by blast
qed

end
