(* ===== verification/PeerConnections.thy ===== *)
theory PeerConnections
  imports BlockSync
begin

text \<open>
  Messages and connections: the dispatcher's error paths, which peers
  \<open>maintainPeersConnection\<close> drops from the table and whom it sends the node's status, and
  what a new-block notification does.
\<close>

section \<open>Dropping peers\<close>

definition to_be_deleted :: "'sc Framework \<Rightarrow> 'sc BlockSyncConfig \<Rightarrow> PeerStatus \<Rightarrow> bool" where
  "to_be_deleted F cfg p \<longleftrightarrow> \<not> same_ptr (ps_nodeId p) (fw_nodeID F (c_sync cfg)) \<and>
     (\<not> fw_connected F (c_sync cfg) (ps_nodeId p) \<or>
      \<not> fw_existsInGroup F (c_sync cfg) (ps_nodeId p) \<and> ps_number p \<le> c_blockNumber cfg)"

lemma peerToDelete_eq:
  "peerToDelete F cfg p ns = (True, ns @ (if to_be_deleted F cfg p then [ps_nodeId p] else []))"
  by (simp add: peerToDelete_def to_be_deleted_def)

lemma foreachPeer_delete:
  "foreachPeer (peerToDelete F cfg) st [] = map ps_nodeId (filter (to_be_deleted F cfg) (map snd (m_peersStatus st)))"
proof -
  have "visit (peerToDelete F cfg) ps ns = ns @ map ps_nodeId (filter (to_be_deleted F cfg) ps)" for ps ns
    by (induction ps arbitrary: ns) (simp_all add: peerToDelete_eq)
  then show ?thesis by (simp add: foreachPeer_def)
qed

lemma map_of_deletePeer: "map_of (m_peersStatus (deletePeer n st)) = (map_of (m_peersStatus st))(np_data n := None)"
  by (auto simp: deletePeer_def fun_eq_iff split: option.split)

lemma map_of_deletePeers:
  "map_of (m_peersStatus (fold deletePeer ns st)) k = (if k \<in> np_data ` set ns then None else map_of (m_peersStatus st) k)"
  by (induction ns arbitrary: st) (auto simp: map_of_deletePeer)

lemma deleted_keys:
  assumes "peers_wf cfg st" "map_of (m_peersStatus st) k = Some p"
  shows "k \<in> np_data ` set (foreachPeer (peerToDelete F cfg) st []) \<longleftrightarrow> to_be_deleted F cfg p"
proof -
  have dist: "distinct (map fst (m_peersStatus st))" by (rule map_sorted_distinct [OF peers_wfD(1) [OF assms(1)]])
  have key: "np_data (ps_nodeId (snd e)) = fst e" if "e \<in> set (m_peersStatus st)" for e
    using peers_wfD(2) [OF assms(1), of "fst e" "snd e"] that dist by (simp add: peer_ok_def)
  have uniq: "snd e = p" if "e \<in> set (m_peersStatus st)" "fst e = k" for e
    using that map_of_is_SomeI [OF dist, of k "snd e"] assms(2) by auto
  let ?del = "{e \<in> set (m_peersStatus st). to_be_deleted F cfg (snd e)}"
  have "np_data ` set (foreachPeer (peerToDelete F cfg) st []) = (\<lambda>e. np_data (ps_nodeId (snd e))) ` ?del"
    unfolding foreachPeer_delete by auto
  also have "\<dots> = fst ` ?del" using key by (intro image_cong) simp_all
  finally have eq: "np_data ` set (foreachPeer (peerToDelete F cfg) st []) = fst ` ?del" .
  show ?thesis
  proof
    assume "k \<in> np_data ` set (foreachPeer (peerToDelete F cfg) st [])"
    then obtain e where "e \<in> ?del" "fst e = k" unfolding eq by blast
    with uniq [of e] show "to_be_deleted F cfg p" by simp
  next
    assume "to_be_deleted F cfg p"
    then have "(k, p) \<in> ?del" using map_of_SomeD [OF assms(2)] by simp
    then have "fst (k, p) \<in> fst ` ?del" by (rule imageI)
    then show "k \<in> np_data ` set (foreachPeer (peerToDelete F cfg) st [])" by (simp only: eq fst_conv)
  qed
qed

section \<open>Announcing the status\<close>

text \<open>A connected node of the group costs one update of the node's own entry and one message.\<close>

lemma updatePeerStatus_frame:
  assumes "updatePeerStatus peer status cfg st = (ok, cfg', st')" "map_sorted (m_peersStatus st)"
  shows "c_sync cfg' = c_sync cfg" "c_blockNumber cfg' = c_blockNumber cfg" "c_hash cfg' = c_hash cfg"
    "c_genesisHash cfg' = c_genesisHash cfg"
    "k \<noteq> np_data peer \<Longrightarrow> map_of (m_peersStatus st') k = map_of (m_peersStatus st) k"
  using assms
  by (auto simp: updatePeerStatus_def updateKnownMaxBlockInfo_def peerStatusOf_def newPeerStatus_def config_defs Let_def
      split: if_splits option.splits prod.splits)

definition receives :: "'sc Framework \<Rightarrow> 'sc \<Rightarrow> NodeIDPtr \<Rightarrow> bool" where
  "receives F sc n \<longleftrightarrow> np_data n \<noteq> np_data (fw_nodeID F sc) \<and> fw_connected F sc n"

lemma connectNode_frame:
  assumes "bs_wf s"
  shows "c_sync (m_config (connectNode F n s)) = c_sync (m_config s)"
    "currentStatus (m_config (connectNode F n s)) = currentStatus (m_config s)"
    "m_downloadingQueue (connectNode F n s) = m_downloadingQueue s"
    "k \<noteq> np_data (fw_nodeID F (cfg_sync s)) \<Longrightarrow>
      map_of (m_peersStatus (m_syncStatus (connectNode F n s))) k = map_of (m_peersStatus (m_syncStatus s)) k"
    "calls (connectNode F n s) = calls s @ (if receives F (cfg_sync s) n
      then [SendMessage n (msg_encode (fw_encodePB F) (currentStatus (m_config s)))] else [])"
proof -
  obtain ok cfg' st' where upd: "updatePeerStatus (fw_nodeID F (cfg_sync s)) (currentStatus (m_config s))
      (m_config s) (m_syncStatus s) = (ok, cfg', st')"
    by (metis prod_cases3)
  have "map_sorted (m_peersStatus (m_syncStatus s))" using assms by (simp add: bs_wf_def peers_wf_def)
  note frame = updatePeerStatus_frame [OF upd this]
  show "c_sync (m_config (connectNode F n s)) = c_sync (m_config s)"
    "currentStatus (m_config (connectNode F n s)) = currentStatus (m_config s)"
    "m_downloadingQueue (connectNode F n s) = m_downloadingQueue s"
    "k \<noteq> np_data (fw_nodeID F (cfg_sync s)) \<Longrightarrow>
      map_of (m_peersStatus (m_syncStatus (connectNode F n s))) k = map_of (m_peersStatus (m_syncStatus s)) k"
    "calls (connectNode F n s) = calls s @ (if receives F (cfg_sync s) n
      then [SendMessage n (msg_encode (fw_encodePB F) (currentStatus (m_config s)))] else [])"
    using upd frame by (simp_all add: connectNode_def receives_def currentStatus_def)
qed

lemma fold_connectNode:
  assumes "bs_wf s"
  shows "m_downloadingQueue (fold (connectNode F) ns s) = m_downloadingQueue s \<and>
    (\<forall>k. k \<noteq> np_data (fw_nodeID F (cfg_sync s)) \<longrightarrow>
      map_of (m_peersStatus (m_syncStatus (fold (connectNode F) ns s))) k = map_of (m_peersStatus (m_syncStatus s)) k) \<and>
    calls (fold (connectNode F) ns s) = calls s @
      map (\<lambda>n. SendMessage n (msg_encode (fw_encodePB F) (currentStatus (m_config s)))) (filter (receives F (cfg_sync s)) ns)"
  using assms
proof (induction ns arbitrary: s)
  case (Cons n ns)
  have "bs_wf (connectNode F n s)" by (rule bs_safe_wf [OF bs_safe_connectNode Cons.prems])
  from Cons.IH [OF this] connectNode_frame [OF Cons.prems, where F = F and n = n] show ?case by simp
qed simp

section \<open>Properties\<close>

text \<open>
  C31: \<^verbatim>\<open>maintainPeersConnection\<close> of a node of the group. Of the other nodes, exactly the
  disconnected ones and the outsiders that are not ahead of this node leave the table, all
  others keep their entry; every connected node of the group but this one is sent the
  node's current status once, in the order of the group's node list, and nobody else is.
\<close>

theorem maintainPeersConnection_correct:
  assumes wf: "bs_wf s" and grp: "fw_selfInGroup F (c_sync (m_config s))" and s': "s' = maintainPeersConnection F s"
  shows "(\<forall>k. k \<noteq> np_data (fw_nodeID F (c_sync (m_config s))) \<longrightarrow>
      map_of (m_peersStatus (m_syncStatus s')) k =
        (case map_of (m_peersStatus (m_syncStatus s)) k of
           None \<Rightarrow> None
         | Some p \<Rightarrow> if \<not> same_ptr (ps_nodeId p) (fw_nodeID F (c_sync (m_config s))) \<and>
               (\<not> fw_connected F (c_sync (m_config s)) (ps_nodeId p) \<or>
                \<not> fw_existsInGroup F (c_sync (m_config s)) (ps_nodeId p) \<and> ps_number p \<le> c_blockNumber (m_config s))
             then None else Some p)) \<and>
    calls s' = calls s @ map (\<lambda>n. SendMessage n (msg_encode (fw_encodePB F) (currentStatus (m_config s))))
      (filter (\<lambda>n. np_data n \<noteq> np_data (fw_nodeID F (c_sync (m_config s))) \<and> fw_connected F (c_sync (m_config s)) n)
        (fw_groupNodeList F (c_sync (m_config s)))) \<and>
    m_downloadingQueue s' = m_downloadingQueue s"
proof -
  let ?st = "m_syncStatus s" and ?del = "foreachPeer (peerToDelete F (m_config s)) (m_syncStatus s) []"
  define s1 where "s1 = s\<lparr>m_syncStatus := fold deletePeer ?del ?st\<rparr>"
  have pw: "peers_wf (m_config s) ?st" using wf by (simp add: bs_wf_def)
  have wf1: "bs_wf s1" using wf by (simp add: s1_def bs_wf_def peers_wf_deletePeers)
  have s'1: "s' = fold (connectNode F) (fw_groupNodeList F (cfg_sync s)) s1"
    using grp s' by (simp add: maintainPeersConnection_def s1_def Let_def)
  have left: "map_of (m_peersStatus (m_syncStatus s1)) k =
      (case map_of (m_peersStatus ?st) k of None \<Rightarrow> None
       | Some p \<Rightarrow> if to_be_deleted F (m_config s) p then None else Some p)" for k
    using deleted_keys [OF pw, of k _ F]
    by (auto simp: s1_def map_of_deletePeers split: option.split)
  have "receives F (cfg_sync s) = (\<lambda>n. np_data n \<noteq> np_data (fw_nodeID F (cfg_sync s)) \<and> fw_connected F (cfg_sync s) n)"
    by (simp add: receives_def fun_eq_iff)
  then show ?thesis
    using fold_connectNode [OF wf1, of F "fw_groupNodeList F (cfg_sync s)"] left
    unfolding s'1 to_be_deleted_def [symmetric] by (simp add: s1_def)
qed

theorem maintainPeersConnection_correct_witness:
  "\<exists>s'. s' = maintainPeersConnection demoFramework demoModule \<and>
    (\<forall>k. k \<noteq> np_data (fw_nodeID demoFramework (c_sync (m_config demoModule))) \<longrightarrow>
      map_of (m_peersStatus (m_syncStatus s')) k =
        (case map_of (m_peersStatus (m_syncStatus demoModule)) k of
           None \<Rightarrow> None
         | Some p \<Rightarrow> if \<not> same_ptr (ps_nodeId p) (fw_nodeID demoFramework (c_sync (m_config demoModule))) \<and>
               (\<not> fw_connected demoFramework (c_sync (m_config demoModule)) (ps_nodeId p) \<or>
                \<not> fw_existsInGroup demoFramework (c_sync (m_config demoModule)) (ps_nodeId p) \<and>
                  ps_number p \<le> c_blockNumber (m_config demoModule))
             then None else Some p)) \<and>
    calls s' = calls demoModule @ map (\<lambda>n. SendMessage n (msg_encode (fw_encodePB demoFramework) (currentStatus (m_config demoModule))))
      (filter (\<lambda>n. np_data n \<noteq> np_data (fw_nodeID demoFramework (c_sync (m_config demoModule))) \<and>
          fw_connected demoFramework (c_sync (m_config demoModule)) n)
        (fw_groupNodeList demoFramework (c_sync (m_config demoModule)))) \<and>
    m_downloadingQueue s' = m_downloadingQueue demoModule"
proof -
  have "fw_selfInGroup demoFramework (c_sync (m_config demoModule))" by code_simp
  from maintainPeersConnection_correct [OF bs_wf_demoModule this refl] show ?thesis by blast
qed



text \<open>
  C29: a new-block notification. One that is not ahead of the node changes nothing. Any other
  sets the node's height and hash to those reported, tells the consensus module and then
  every connected node of the group but this one the new status, drops from both block
  queues what the ledger has passed, and hands the block after the new height to the
  consensus check, the last call made, exactly if such a block waits in the commit queue.
\<close>

theorem asyncNotifyNewBlock_correct:
  assumes wf: "bs_wf s" and lc: "height (lc_blockNumber lc)" and s': "s' = asyncNotifyNewBlock F lc s"
  shows "if lc_blockNumber lc \<le> c_blockNumber (m_config s) then s' = s
    else c_blockNumber (m_config s') = lc_blockNumber lc \<and> c_hash (m_config s') = lc_hash lc \<and>
      c_nextBlock (m_config s') = lc_blockNumber lc + 1 \<and>
      mset (m_blocks (m_downloadingQueue s')) =
        filter_mset (\<lambda>b. lc_blockNumber lc < block_number b) (mset (m_blocks (m_downloadingQueue s))) \<and>
      (\<exists>checks. calls s' = calls s @ ConsensusNewBlock lc #
         map (\<lambda>n. SendMessage n (msg_encode (fw_encodePB F) (currentStatus (m_config s')))) (statusReceivers F (c_sync (m_config s'))) @
         map CheckBlock checks \<and>
         length checks = (if \<exists>b \<in> set (m_commitQueue (m_downloadingQueue s)). block_number b = lc_blockNumber lc + 1 then 1 else 0) \<and>
         (\<forall>b \<in> set checks. block_number b = lc_blockNumber lc + 1) \<and>
         mset checks + mset (m_commitQueue (m_downloadingQueue s')) =
           filter_mset (\<lambda>b. lc_blockNumber lc < block_number b) (mset (m_commitQueue (m_downloadingQueue s))))"
proof (cases "lc_blockNumber lc \<le> c_blockNumber (m_config s)")
  case False
  define w where "w = onNewBlock F lc s"
  have s'w: "s' = tryToCommitBlockToLedger w" using False s' by (simp add: asyncNotifyNewBlock_def w_def)
  have stale: "\<not> staleConfig lc (m_config s)" using False by (simp add: staleConfig_def)
  then have cfg: "c_blockNumber (m_config w) = lc_blockNumber lc" "c_hash (m_config w) = lc_hash lc"
    "c_nextBlock (m_config w) = lc_blockNumber lc + 1"
    using lc by (auto simp: w_def resetConfig_fst resetBlockInfo_def config_defs Let_def)
  have heaps: "blk_heap (m_blocks (m_downloadingQueue s))" "blk_heap (m_commitQueue (m_downloadingQueue s))"
    using wf by (simp_all add: bs_wf_def dq_wf_def)
  have blocks: "mset (m_blocks (m_downloadingQueue w)) =
      filter_mset (\<lambda>b. lc_blockNumber lc < block_number b) (mset (m_blocks (m_downloadingQueue s)))"
    using cfg(1) heaps(1) by (simp add: w_def clearExpiredQueueCache_def clearExpiredCache_def mset_blk_pop_while)
  have commits: "mset (m_commitQueue (m_downloadingQueue w)) =
      filter_mset (\<lambda>b. lc_blockNumber lc < block_number b) (mset (m_commitQueue (m_downloadingQueue s)))"
    "blk_heap (m_commitQueue (m_downloadingQueue w))"
    using cfg(1) heaps(2)
    by (simp_all add: w_def clearExpiredQueueCache_def clearExpiredCache_def mset_blk_pop_while blk.is_heap_pop_while)
  then have live: "live_commits w = mset (m_commitQueue (m_downloadingQueue w))"
    by (simp add: cfg(1) filter_filter_mset)
  have calls: "calls w = calls s @ ConsensusNewBlock lc #
      map (\<lambda>n. SendMessage n (msg_encode (fw_encodePB F) (currentStatus (m_config w)))) (statusReceivers F (c_sync (m_config w)))"
    unfolding w_def onNewBlock_calls by (simp add: resetConfig_snd stale)
  have waits: "(\<exists>b \<in> set (m_commitQueue (m_downloadingQueue s)). block_number b = lc_blockNumber lc + 1) \<longleftrightarrow>
      (\<exists>b \<in> set (m_commitQueue (m_downloadingQueue w)). block_number b = c_blockNumber (m_config w) + 1)"
    using arg_cong [OF commits(1), of set_mset] cfg(1) by auto
  from commits(2) have "\<exists>checks. calls s' = calls w @ map CheckBlock checks \<and>
      length checks = (if \<exists>b \<in> set (m_commitQueue (m_downloadingQueue w)). block_number b = c_blockNumber (m_config w) + 1
        then 1 else 0) \<and>
      (\<forall>b \<in> set checks. block_number b = lc_blockNumber lc + 1) \<and>
      mset checks + mset (m_commitQueue (m_downloadingQueue s')) = mset (m_commitQueue (m_downloadingQueue w))"
  proof (cases rule: tryToCommit_cases)
    case (idle q)
    have "c_nextBlock (m_config w) = c_blockNumber (m_config w) + 1" by (simp add: cfg)
    from idle_no_next [OF idle(3,2,4) this] idle live show ?thesis by (intro exI [of _ "[]"]) (simp add: s'w)
  next
    case (check q b)
    have "b \<in># mset (m_commitQueue (m_downloadingQueue w))" using check(3) live by simp
    then have "\<exists>b \<in> set (m_commitQueue (m_downloadingQueue w)). block_number b = c_blockNumber (m_config w) + 1"
      using check(4) cfg by auto
    then show ?thesis using check live cfg(3) by (intro exI [of _ "[b]"]) (simp add: s'w)
  qed
  with False cfg blocks commits(1) calls show ?thesis unfolding waits by (auto simp: s'w)
qed (use s' in \<open>simp add: asyncNotifyNewBlock_def\<close>)

text \<open>The node of the example with the blocks 8 and 10 executed, when block 9 is reported.\<close>

definition demoWaiting :: "DemoSync BlockSync" where
  "demoWaiting = demoModule\<lparr>m_downloadingQueue := newDownloadingQueue
     \<lparr>m_commitQueue := fold (pq_push BlockCmp) [demoBlock 10 1, demoBlock 8 0] []\<rparr>\<rparr>"

lemma bs_wf_demoWaiting: "bs_wf demoWaiting"
  using bs_wf_demoModule
  by (simp add: bs_wf_def demoWaiting_def dq_wf_def newDownloadingQueue_def blk.is_heap_Nil blk.is_heap_push)

theorem asyncNotifyNewBlock_correct_witness:
  "\<exists>s' check. s' = asyncNotifyNewBlock demoFramework (demoLedgerConfig 9) demoWaiting \<and>
    c_blockNumber (m_config s') = 9 \<and> c_hash (m_config s') = lc_hash (demoLedgerConfig 9) \<and>
    calls s' = calls demoWaiting @ ConsensusNewBlock (demoLedgerConfig 9) #
         map (\<lambda>n. SendMessage n (msg_encode (fw_encodePB demoFramework) (currentStatus (m_config s'))))
           (statusReceivers demoFramework (c_sync (m_config s'))) @ [CheckBlock check] \<and>
    block_number check = 10 \<and> m_commitQueue (m_downloadingQueue s') = []"
proof -
  have demo: "height (lc_blockNumber (demoLedgerConfig 9))" "lc_blockNumber (demoLedgerConfig 9) = 9"
    by (simp_all add: demoLedgerConfig_def height_def)
  have queue: "mset (m_commitQueue (m_downloadingQueue demoWaiting)) = {#demoBlock 10 1, demoBlock 8 0#}"
    by (simp add: demoWaiting_def)
  have at6: "c_blockNumber (m_config demoWaiting) = 6" by (simp add: demoWaiting_def demoModule_heights)
  have num: "block_number (demoBlock i k) = i" for i k by (simp add: demoBlock_def)
  have "\<exists>b \<in> set (m_commitQueue (m_downloadingQueue demoWaiting)). block_number b = 9 + 1"
    using arg_cong [OF queue, of set_mset] num by auto
  with asyncNotifyNewBlock_correct [OF bs_wf_demoWaiting demo(1) refl, of demoFramework]
  show ?thesis unfolding queue by (auto simp: demo(2) at6 num length_Suc_conv)
qed

end
