(* ===== verification/ConfigThreads.thy ===== *)
theory ConfigThreads
  imports BlockSyncConfig Interleaving
begin

text \<open>
  \<^verbatim>\<open>BlockSyncConfig\<close> under concurrent use. The configuration is shared by the threads of the
  scheduler, the consensus module, the front service and the download pool. Its fields
  are atomics, or have a lock of their own; only \<^verbatim>\<open>resetConfig\<close> holds \<^verbatim>\<open>m_mutex\<close>, and only from
  its second test on. Here each load, store, lock and unlock is a step of its own, and the
  steps of any number of threads interleave in any order. \<^verbatim>\<open>resetConfig\<close>, \<^verbatim>\<open>setExecutedBlock\<close> and
  \<^verbatim>\<open>updateKnownMaxBlockInfo\<close> become sequences of program points; the lemmas at the end of the first
  section show that a thread that runs alone computes what the sequential definitions say.
\<close>

section \<open>Threads\<close>

datatype thread =
  ResetTest LedgerConfig
| ResetTestPositive LedgerConfig
| ResetNotify LedgerConfig
| ResetLock LedgerConfig
| Retest LedgerConfig
| RetestPositive LedgerConfig
| WriteNumber LedgerConfig
| WriteHash LedgerConfig
| WriteNext LedgerConfig
| TestKnown LedgerConfig
| WriteKnown LedgerConfig
| WriteKnownHash LedgerConfig
| TestExecuted LedgerConfig
| WriteExecuted LedgerConfig
| WriteConsensusNodes LedgerConfig
| WriteObservers LedgerConfig
| Unlock LedgerConfig
| ExecutedTest BlockNumber
| ExecutedStore BlockNumber
| KnownTest BlockNumber HashType
| KnownStore BlockNumber HashType
| KnownHashStore HashType
| Finished

record 'sc shared =
  sh_config :: "'sc BlockSyncConfig"
  sh_locked :: bool
  sh_calls :: "call list"

abbreviation with_config ::
  "('sc BlockSyncConfig \<Rightarrow> 'sc BlockSyncConfig) \<Rightarrow> 'sc shared \<Rightarrow> 'sc shared" where
  "with_config f sh \<equiv> sh\<lparr>sh_config := f (sh_config sh)\<rparr>"

text \<open>\<^verbatim>\<open>resetConfig\<close> up to the lock.\<close>

fun reset_entry_step :: "thread \<Rightarrow> 'sc shared \<Rightarrow> (thread \<times> 'sc shared) option" where
  "reset_entry_step (ResetTest lc) sh =
     Some (if lc_blockNumber lc \<le> c_blockNumber (sh_config sh) then ResetTestPositive lc else ResetNotify lc, sh)"
| "reset_entry_step (ResetTestPositive lc) sh =
     Some (if 0 < c_blockNumber (sh_config sh) then Finished else ResetNotify lc, sh)"
| "reset_entry_step (ResetNotify lc) sh =
     Some (ResetLock lc, sh\<lparr>sh_calls := sh_calls sh @ [ConsensusNewBlock lc]\<rparr>)"
| "reset_entry_step (ResetLock lc) sh =
     (if sh_locked sh then None else Some (Retest lc, sh\<lparr>sh_locked := True\<rparr>))"
| "reset_entry_step _ _ = None"

text \<open>The second test, under the lock, and \<^verbatim>\<open>resetBlockInfo\<close>.\<close>

fun reset_info_step :: "thread \<Rightarrow> 'sc shared \<Rightarrow> (thread \<times> 'sc shared) option" where
  "reset_info_step (Retest lc) sh =
     Some (if lc_blockNumber lc \<le> c_blockNumber (sh_config sh) then RetestPositive lc else WriteNumber lc, sh)"
| "reset_info_step (RetestPositive lc) sh =
     Some (if 0 < c_blockNumber (sh_config sh) then Unlock lc else WriteNumber lc, sh)"
| "reset_info_step (WriteNumber lc) sh =
     Some (WriteHash lc, with_config (\<lambda>cfg. cfg\<lparr>c_blockNumber := lc_blockNumber lc\<rparr>) sh)"
| "reset_info_step (WriteHash lc) sh = Some (WriteNext lc, with_config (setHash (lc_hash lc)) sh)"
| "reset_info_step (WriteNext lc) sh =
     Some (TestKnown lc, with_config (\<lambda>cfg. cfg\<lparr>c_nextBlock := i64 (c_blockNumber cfg + 1)\<rparr>) sh)"
| "reset_info_step (TestKnown lc) sh =
     Some (if c_knownHighestNumber (sh_config sh) < lc_blockNumber lc then WriteKnown lc else TestExecuted lc, sh)"
| "reset_info_step (WriteKnown lc) sh =
     Some (WriteKnownHash lc, with_config (\<lambda>cfg. cfg\<lparr>c_knownHighestNumber := lc_blockNumber lc\<rparr>) sh)"
| "reset_info_step (WriteKnownHash lc) sh = Some (TestExecuted lc, with_config (setKnownLatestHash (lc_hash lc)) sh)"
| "reset_info_step (TestExecuted lc) sh =
     Some (if c_executedBlock (sh_config sh) < lc_blockNumber lc then WriteExecuted lc else WriteConsensusNodes lc, sh)"
| "reset_info_step (WriteExecuted lc) sh =
     Some (WriteConsensusNodes lc, with_config (\<lambda>cfg. cfg\<lparr>c_executedBlock := lc_blockNumber lc\<rparr>) sh)"
| "reset_info_step _ _ = None"

text \<open>The node lists and the end of the scope of the lock.\<close>

fun reset_exit_step :: "'sc Framework \<Rightarrow> thread \<Rightarrow> 'sc shared \<Rightarrow> (thread \<times> 'sc shared) option" where
  "reset_exit_step F (WriteConsensusNodes lc) sh = Some (WriteObservers lc, with_config
     (\<lambda>cfg. cfg\<lparr>c_sync := fw_setConsensusNodeList F (lc_consensusNodeList lc) (c_sync cfg)\<rparr>) sh)"
| "reset_exit_step F (WriteObservers lc) sh = Some (Unlock lc, with_config
     (\<lambda>cfg. cfg\<lparr>c_sync := fw_setObserverList F (lc_observerNodeList lc) (c_sync cfg)\<rparr>) sh)"
| "reset_exit_step F (Unlock lc) sh = Some (Finished, sh\<lparr>sh_locked := False\<rparr>)"
| "reset_exit_step F _ _ = None"

text \<open>\<^verbatim>\<open>setExecutedBlock\<close>: a test and a store, with no lock.\<close>

fun executed_step :: "thread \<Rightarrow> 'sc shared \<Rightarrow> (thread \<times> 'sc shared) option" where
  "executed_step (ExecutedTest n) sh =
     Some (if c_blockNumber (sh_config sh) \<le> n then ExecutedStore n else Finished, sh)"
| "executed_step (ExecutedStore n) sh = Some (Finished, with_config (\<lambda>cfg. cfg\<lparr>c_executedBlock := n\<rparr>) sh)"
| "executed_step _ _ = None"

text \<open>\<^verbatim>\<open>updateKnownMaxBlockInfo\<close> with the number and hash of a status of the same chain.\<close>

fun known_step :: "thread \<Rightarrow> 'sc shared \<Rightarrow> (thread \<times> 'sc shared) option" where
  "known_step (KnownTest n h) sh =
     Some (if n \<le> c_knownHighestNumber (sh_config sh) then Finished else KnownStore n h, sh)"
| "known_step (KnownStore n h) sh = Some (KnownHashStore h, with_config (setKnownHighestNumber n) sh)"
| "known_step (KnownHashStore h) sh = Some (Finished, with_config (setKnownLatestHash h) sh)"
| "known_step _ _ = None"

definition thread_step :: "'sc Framework \<Rightarrow> thread \<Rightarrow> 'sc shared \<Rightarrow> (thread \<times> 'sc shared) option" where
  "thread_step F t sh =
     (case t of
        ResetTest _ \<Rightarrow> reset_entry_step t sh | ResetTestPositive _ \<Rightarrow> reset_entry_step t sh
      | ResetNotify _ \<Rightarrow> reset_entry_step t sh | ResetLock _ \<Rightarrow> reset_entry_step t sh
      | WriteConsensusNodes _ \<Rightarrow> reset_exit_step F t sh | WriteObservers _ \<Rightarrow> reset_exit_step F t sh
      | Unlock _ \<Rightarrow> reset_exit_step F t sh
      | ExecutedTest _ \<Rightarrow> executed_step t sh | ExecutedStore _ \<Rightarrow> executed_step t sh
      | KnownTest _ _ \<Rightarrow> known_step t sh | KnownStore _ _ \<Rightarrow> known_step t sh | KnownHashStore _ \<Rightarrow> known_step t sh
      | _ \<Rightarrow> reset_info_step t sh)"

lemma thread_step_simps [simp]:
  "thread_step F (ResetTest lc) sh = reset_entry_step (ResetTest lc) sh"
  "thread_step F (ResetTestPositive lc) sh = reset_entry_step (ResetTestPositive lc) sh"
  "thread_step F (ResetNotify lc) sh = reset_entry_step (ResetNotify lc) sh"
  "thread_step F (ResetLock lc) sh = reset_entry_step (ResetLock lc) sh"
  "thread_step F (Retest lc) sh = reset_info_step (Retest lc) sh"
  "thread_step F (RetestPositive lc) sh = reset_info_step (RetestPositive lc) sh"
  "thread_step F (WriteNumber lc) sh = reset_info_step (WriteNumber lc) sh"
  "thread_step F (WriteHash lc) sh = reset_info_step (WriteHash lc) sh"
  "thread_step F (WriteNext lc) sh = reset_info_step (WriteNext lc) sh"
  "thread_step F (TestKnown lc) sh = reset_info_step (TestKnown lc) sh"
  "thread_step F (WriteKnown lc) sh = reset_info_step (WriteKnown lc) sh"
  "thread_step F (WriteKnownHash lc) sh = reset_info_step (WriteKnownHash lc) sh"
  "thread_step F (TestExecuted lc) sh = reset_info_step (TestExecuted lc) sh"
  "thread_step F (WriteExecuted lc) sh = reset_info_step (WriteExecuted lc) sh"
  "thread_step F (WriteConsensusNodes lc) sh = reset_exit_step F (WriteConsensusNodes lc) sh"
  "thread_step F (WriteObservers lc) sh = reset_exit_step F (WriteObservers lc) sh"
  "thread_step F (Unlock lc) sh = reset_exit_step F (Unlock lc) sh"
  "thread_step F (ExecutedTest n) sh = executed_step (ExecutedTest n) sh"
  "thread_step F (ExecutedStore n) sh = executed_step (ExecutedStore n) sh"
  "thread_step F (KnownTest n h) sh = known_step (KnownTest n h) sh"
  "thread_step F (KnownStore n h) sh = known_step (KnownStore n h) sh"
  "thread_step F (KnownHashStore h) sh = known_step (KnownHashStore h) sh"
  "thread_step F Finished sh = None"
  by (simp_all add: thread_step_def)

text \<open>A step of the system is a step of one of its threads, which may be blocked at the lock.\<close>

type_synonym 'sc threads = "thread list \<times> 'sc shared"

definition unlocked :: "'sc BlockSyncConfig \<Rightarrow> 'sc shared" where
  "unlocked cfg = \<lparr>sh_config = cfg, sh_locked = False, sh_calls = []\<rparr>"

lemma ends_alone [simp]: "alone (thread_step F) Finished sh Finished sh' \<longleftrightarrow> sh' = sh"
proof
  assume "alone (thread_step F) Finished sh Finished sh'"
  then obtain n where "run (interleave (thread_step F)) ([Finished], sh) (replicate n 0) ([Finished], sh')"
    by (auto simp: alone_def)
  then show "sh' = sh" by (cases n) (auto elim!: run_NilE run_ConsE interleaveE)
qed (simp add: alone_refl)

lemma reset_alone:
  "alone (thread_step F) (ResetTest lc) (unlocked cfg) Finished
     ((unlocked (fst (resetConfig F lc cfg)))\<lparr>sh_calls := snd (resetConfig F lc cfg)\<rparr>)"
  by (simp add: alone_step unlocked_def resetConfig_fst resetConfig_snd config_defs Let_def)

lemma executed_alone: "alone (thread_step F) (ExecutedTest n) (unlocked cfg) Finished (unlocked (setExecutedBlock n cfg))"
  by (simp add: alone_step unlocked_def setExecutedBlock_def)

section \<open>Termination\<close>

text \<open>The number of steps a thread has left, at most.\<close>

fun rank :: "thread \<Rightarrow> nat" where
  "rank (ResetTest _) = 17" | "rank (ResetTestPositive _) = 16" | "rank (ResetNotify _) = 15"
| "rank (ResetLock _) = 14" | "rank (Retest _) = 13" | "rank (RetestPositive _) = 12"
| "rank (WriteNumber _) = 11" | "rank (WriteHash _) = 10" | "rank (WriteNext _) = 9"
| "rank (TestKnown _) = 8" | "rank (WriteKnown _) = 7" | "rank (WriteKnownHash _) = 6"
| "rank (TestExecuted _) = 5" | "rank (WriteExecuted _) = 4" | "rank (WriteConsensusNodes _) = 3"
| "rank (WriteObservers _) = 2" | "rank (Unlock _) = 1"
| "rank (ExecutedTest _) = 2" | "rank (ExecutedStore _) = 1"
| "rank (KnownTest _ _) = 3" | "rank (KnownStore _ _) = 2" | "rank (KnownHashStore _) = 1"
| "rank Finished = 0"

lemma rank_le: "rank t \<le> 17"
  by (cases t) simp_all

lemma rank_0 [simp]: "rank t = 0 \<longleftrightarrow> t = Finished"
  by (cases t) simp_all

lemma rank_step: "thread_step F t sh = Some (t', sh') \<Longrightarrow> rank t' < rank t"
  by (cases t) (auto split: if_splits)

interpretation ct_rank: ranked_program "thread_step F" "\<lambda>t sh. rank t"
  by unfold_locales (simp_all add: rank_step)

section \<open>The invariant\<close>

fun reports :: "thread \<Rightarrow> LedgerConfig option" where
  "reports (ResetTest lc) = Some lc" | "reports (ResetTestPositive lc) = Some lc" | "reports (ResetNotify lc) = Some lc"
| "reports (ResetLock lc) = Some lc" | "reports (Retest lc) = Some lc" | "reports (RetestPositive lc) = Some lc"
| "reports (WriteNumber lc) = Some lc" | "reports (WriteHash lc) = Some lc" | "reports (WriteNext lc) = Some lc"
| "reports (TestKnown lc) = Some lc" | "reports (WriteKnown lc) = Some lc" | "reports (WriteKnownHash lc) = Some lc"
| "reports (TestExecuted lc) = Some lc" | "reports (WriteExecuted lc) = Some lc"
| "reports (WriteConsensusNodes lc) = Some lc" | "reports (WriteObservers lc) = Some lc" | "reports (Unlock lc) = Some lc"
| "reports _ = None"

text \<open>The program points between lock and unlock.\<close>

definition critical :: "thread \<Rightarrow> bool" where
  "critical t \<longleftrightarrow> reports t \<noteq> None \<and> rank t \<le> 13"

lemma critical_simps [simp]:
  "critical (Retest lc)" "critical (RetestPositive lc)" "critical (WriteNumber lc)" "critical (WriteHash lc)"
  "critical (WriteNext lc)" "critical (TestKnown lc)" "critical (WriteKnown lc)" "critical (WriteKnownHash lc)"
  "critical (TestExecuted lc)" "critical (WriteExecuted lc)" "critical (WriteConsensusNodes lc)"
  "critical (WriteObservers lc)" "critical (Unlock lc)" "\<not> critical Finished"
  "\<not> critical (ResetTest lc)" "\<not> critical (ResetTestPositive lc)" "\<not> critical (ResetNotify lc)"
  "\<not> critical (ResetLock lc)" "\<not> critical (ExecutedTest n)" "\<not> critical (ExecutedStore n)"
  "\<not> critical (KnownTest n h)" "\<not> critical (KnownStore n h)" "\<not> critical (KnownHashStore h)"
  by (simp_all add: critical_def)

text \<open>Number, hash and next block belong together, and come from the set \<open>R\<close> of reports.\<close>

definition settled :: "(BlockNumber \<times> HashType) set \<Rightarrow> 'sc BlockSyncConfig \<Rightarrow> bool" where
  "settled R cfg \<longleftrightarrow> c_nextBlock cfg = i64 (c_blockNumber cfg + 1) \<and> (c_blockNumber cfg, c_hash cfg) \<in> R"

text \<open>What a thread knows of the configuration at each program point of \<^verbatim>\<open>resetConfig\<close>.\<close>

fun stage :: "(BlockNumber \<times> HashType) set \<Rightarrow> thread \<Rightarrow> 'sc BlockSyncConfig \<Rightarrow> bool" where
  "stage R (ResetTest lc) cfg = True"
| "stage R (ResetTestPositive lc) cfg = (lc_blockNumber lc \<le> c_blockNumber cfg)"
| "stage R (ResetNotify lc) cfg = True"
| "stage R (ResetLock lc) cfg = True"
| "stage R (Retest lc) cfg = settled R cfg"
| "stage R (RetestPositive lc) cfg = (settled R cfg \<and> lc_blockNumber lc \<le> c_blockNumber cfg)"
| "stage R (WriteNumber lc) cfg = (c_blockNumber cfg \<le> lc_blockNumber lc)"
| "stage R (WriteHash lc) cfg = (c_blockNumber cfg = lc_blockNumber lc)"
| "stage R (WriteNext lc) cfg = (c_blockNumber cfg = lc_blockNumber lc \<and> c_hash cfg = lc_hash lc)"
| "stage R t cfg = (case reports t of None \<Rightarrow> True | Some lc \<Rightarrow> settled R cfg \<and> lc_blockNumber lc \<le> c_blockNumber cfg)"

definition thread_ok ::
  "(BlockNumber \<times> HashType) set \<Rightarrow> 'sc BlockSyncConfig \<Rightarrow> thread \<Rightarrow> thread \<Rightarrow> bool" where
  "thread_ok R cfg t0 t \<longleftrightarrow>
     (case reports t of
        Some lc \<Rightarrow> reports t0 = Some lc \<and> stage R t cfg
      | None \<Rightarrow> (\<forall>lc. reports t0 = Some lc \<longrightarrow> t = Finished \<and> lc_blockNumber lc \<le> c_blockNumber cfg))"

definition threads_inv :: "(BlockNumber \<times> HashType) set \<Rightarrow> thread list \<Rightarrow> BlockNumber \<Rightarrow> 'sc threads \<Rightarrow> bool" where
  "threads_inv R ts0 n st \<longleftrightarrow>
     list_all2 (thread_ok R (sh_config (snd st))) ts0 (fst st) \<and>
     length (filter critical (fst st)) = of_bool (sh_locked (snd st)) \<and>
     (\<not> sh_locked (snd st) \<longrightarrow> settled R (sh_config (snd st))) \<and>
     n \<le> c_blockNumber (sh_config (snd st)) \<and> 0 \<le> c_blockNumber (sh_config (snd st))"

lemma length_filter_update:
  "i < length xs \<Longrightarrow> length (filter P (xs[i := x])) + of_bool (P (xs ! i)) = length (filter P xs) + of_bool (P x)"
proof (induction xs arbitrary: i)
  case (Cons a xs)
  then show ?case using Cons.IH [of "i - 1"] by (cases i) auto
qed simp

text \<open>A step outside the critical section leaves number, hash, next block and lock alone.\<close>

lemma step_outside:
  assumes "thread_step F t sh = Some (t', sh')" "\<not> critical t"
  shows "c_blockNumber (sh_config sh') = c_blockNumber (sh_config sh) \<and>
    c_hash (sh_config sh') = c_hash (sh_config sh) \<and> c_nextBlock (sh_config sh') = c_nextBlock (sh_config sh) \<and>
    (if critical t' then \<not> sh_locked sh \<and> sh_locked sh' else sh_locked sh' = sh_locked sh)"
  using assms by (cases t) (auto simp: config_defs split: if_splits)

lemma step_inside:
  assumes "thread_step F t sh = Some (t', sh')" "critical t" "reports t = Some lc" "stage R t (sh_config sh)"
    "(lc_blockNumber lc, lc_hash lc) \<in> R" "0 \<le> c_blockNumber (sh_config sh)" "0 \<le> lc_blockNumber lc"
  shows "c_blockNumber (sh_config sh) \<le> c_blockNumber (sh_config sh') \<and>
    (if critical t' then reports t' = Some lc \<and> stage R t' (sh_config sh') \<and> sh_locked sh' = sh_locked sh
     else t' = Finished \<and> \<not> sh_locked sh' \<and> settled R (sh_config sh') \<and>
       lc_blockNumber lc \<le> c_blockNumber (sh_config sh'))"
  using assms
  by (cases t; clarsimp simp: settled_def setHash_def setKnownLatestHash_def split: if_splits)

lemma thread_ok_cong:
  "c_blockNumber cfg' = c_blockNumber cfg \<Longrightarrow> c_hash cfg' = c_hash cfg \<Longrightarrow> c_nextBlock cfg' = c_nextBlock cfg \<Longrightarrow>
   thread_ok R cfg' t0 t = thread_ok R cfg t0 t"
  by (cases t) (simp_all add: thread_ok_def settled_def)

lemma thread_ok_mono:
  "thread_ok R cfg t0 t \<Longrightarrow> \<not> critical t \<Longrightarrow> c_blockNumber cfg \<le> c_blockNumber cfg' \<Longrightarrow> thread_ok R cfg' t0 t"
  by (cases t) (auto simp: thread_ok_def)

lemma thread_ok_outside:
  assumes "thread_step F t sh = Some (t', sh')" "\<not> critical t" "thread_ok R (sh_config sh) t0 t"
    "\<not> sh_locked sh \<Longrightarrow> settled R (sh_config sh)"
  shows "thread_ok R (sh_config sh') t0 t'"
  using assms by (cases t; clarsimp simp: thread_ok_def settled_def split: if_splits)

lemma list_all2_update:
  assumes "list_all2 P xs ys" "i < length ys" "Q (xs ! i) y"
    "\<And>j. j < length ys \<Longrightarrow> j \<noteq> i \<Longrightarrow> P (xs ! j) (ys ! j) \<Longrightarrow> Q (xs ! j) (ys ! j)"
  shows "list_all2 Q xs (ys[i := y])"
  using assms by (auto simp: list_all2_conv_all_nth nth_list_update)

lemma only_one:
  assumes "length (filter P xs) = 1" "i < length xs" "P (xs ! i)" "j < length xs" "P (xs ! j)"
  shows "i = j"
proof -
  have "card {k. k < length xs \<and> P (xs ! k)} = 1" using assms(1) by (simp add: length_filter_conv_card)
  then obtain k where k: "{k. k < length xs \<and> P (xs ! k)} = {k}" by (rule card_1_singletonE)
  have "i \<in> {k. k < length xs \<and> P (xs ! k)}" "j \<in> {k. k < length xs \<and> P (xs ! k)}" using assms(2-5) by simp_all
  then show ?thesis unfolding k by simp
qed

lemma threads_inv_step:
  assumes inv: "threads_inv R ts0 n st" and step: "interleave (thread_step F) st i st'"
    and R: "\<And>t lc. t \<in> set ts0 \<Longrightarrow> reports t = Some lc \<Longrightarrow> (lc_blockNumber lc, lc_hash lc) \<in> R \<and> 0 \<le> lc_blockNumber lc"
  shows "threads_inv R ts0 n st'"
proof -
  obtain ts sh where st: "st = (ts, sh)" by (cases st)
  with step obtain t sh' where i: "i < length ts" "thread_step F (ts ! i) sh = Some (t, sh')" and st': "st' = (ts[i := t], sh')"
    by (auto elim!: interleaveE)
  have ok: "list_all2 (thread_ok R (sh_config sh)) ts0 ts" and cs: "length (filter critical ts) = of_bool (sh_locked sh)"
    and set: "\<not> sh_locked sh \<Longrightarrow> settled R (sh_config sh)"
    and n: "n \<le> c_blockNumber (sh_config sh)" "0 \<le> c_blockNumber (sh_config sh)"
    using inv by (auto simp: threads_inv_def st)
  have len: "length ts0 = length ts" and ok_i: "thread_ok R (sh_config sh) (ts0 ! i) (ts ! i)"
    using ok i(1) by (auto simp: list_all2_conv_all_nth)
  note cs' = length_filter_update [OF i(1), of critical t]
  show ?thesis
  proof (cases "critical (ts ! i)")
    case False
    note out = step_outside [OF i(2) False]
    have "thread_ok R (sh_config sh') = thread_ok R (sh_config sh)"
      using out by (intro ext thread_ok_cong) simp_all
    then have "list_all2 (thread_ok R (sh_config sh')) ts0 (ts[i := t])"
      using thread_ok_outside [OF i(2) False ok_i set] by (intro list_all2_update [OF ok i(1)]) simp_all
    then show ?thesis
      using out cs cs' False set n by (auto simp: threads_inv_def st' settled_def split: if_splits)
  next
    case True
    then obtain lc where lc: "reports (ts ! i) = Some lc" by (auto simp: critical_def)
    with ok_i have stage: "stage R (ts ! i) (sh_config sh)" "reports (ts0 ! i) = Some lc" by (auto simp: thread_ok_def)
    have "(lc_blockNumber lc, lc_hash lc) \<in> R" "0 \<le> lc_blockNumber lc"
      using R [of "ts0 ! i"] stage(2) i(1) len by auto
    note inside = step_inside [OF i(2) True lc stage(1) this(1) n(2) this(2)]
    have "i \<in> {k. k < length ts \<and> critical (ts ! k)}" using i(1) True by simp
    then have lock: "sh_locked sh" using cs by (auto simp: length_filter_conv_card of_bool_def split: if_splits)
    have others: "\<not> critical (ts ! j)" if "j < length ts" "j \<noteq> i" for j
      using only_one [of critical ts i j] cs lock i(1) True that by auto
    have "thread_ok R (sh_config sh') (ts0 ! i) t"
      using inside stage(2) by (auto simp: thread_ok_def critical_def split: if_splits option.splits)
    then have "list_all2 (thread_ok R (sh_config sh')) ts0 (ts[i := t])"
      using ok i(1) inside others by (intro list_all2_update [OF ok]) (auto intro: thread_ok_mono)
    then show ?thesis
      using inside cs cs' True lock n by (auto simp: threads_inv_def st' split: if_splits)
  qed
qed

section \<open>Runs of the threads\<close>

definition reset_reports :: "thread list \<Rightarrow> LedgerConfig list" where
  "reset_reports ts = List.map_filter reports ts"

definition reported :: "thread list \<Rightarrow> 'sc BlockSyncConfig \<Rightarrow> (BlockNumber \<times> HashType) set" where
  "reported ts cfg = insert (c_blockNumber cfg, c_hash cfg) ((\<lambda>lc. (lc_blockNumber lc, lc_hash lc)) ` set (reset_reports ts))"

fun entry :: "thread \<Rightarrow> bool" where
  "entry (ResetTest lc) = (0 \<le> lc_blockNumber lc)"
| "entry (ExecutedTest n) = True"
| "entry (KnownTest n h) = True"
| "entry _ = False"

text \<open>Calls about to begin, on a configuration nobody is writing to.\<close>

definition calls_begin :: "thread list \<Rightarrow> 'sc BlockSyncConfig \<Rightarrow> bool" where
  "calls_begin ts cfg \<longleftrightarrow> list_all entry ts \<and> 0 \<le> c_blockNumber cfg \<and> c_nextBlock cfg = i64 (c_blockNumber cfg + 1)"

lemma set_reset_reports: "set (reset_reports ts) = {lc. \<exists>t \<in> set ts. reports t = Some lc}"
  by (force simp: reset_reports_def List.map_filter_def)

lemma entry_reports: "entry t \<Longrightarrow> reports t = Some lc \<Longrightarrow> t = ResetTest lc \<and> 0 \<le> lc_blockNumber lc"
  by (cases t) auto

lemma entry_simps: "entry t \<Longrightarrow> \<not> critical t \<and> thread_ok R cfg t t"
  by (cases t) (simp_all add: thread_ok_def)

interpretation ct: inductive_invariant "\<lambda>st. calls_begin ts0 cfg \<and> st = (ts0, unlocked cfg)" "interleave (thread_step F)"
  "\<lambda>st. calls_begin ts0 cfg \<and> threads_inv (reported ts0 cfg) ts0 (c_blockNumber cfg) st"
proof
  fix s assume s: "calls_begin ts0 cfg \<and> s = (ts0, unlocked cfg)"
  then have "\<forall>t \<in> set ts0. \<not> critical t \<and> thread_ok (reported ts0 cfg) cfg t t"
    by (auto simp: calls_begin_def list_all_iff entry_simps)
  then have "filter critical ts0 = []" "list_all2 (thread_ok (reported ts0 cfg) cfg) ts0 ts0"
    by (auto simp: filter_empty_conv list_all2_conv_all_nth)
  with s show "calls_begin ts0 cfg \<and> threads_inv (reported ts0 cfg) ts0 (c_blockNumber cfg) s"
    by (simp add: threads_inv_def unlocked_def settled_def reported_def calls_begin_def)
next
  fix s e s'
  assume s: "calls_begin ts0 cfg \<and> threads_inv (reported ts0 cfg) ts0 (c_blockNumber cfg) s" and "interleave (thread_step F) s e s'"
  moreover have "(lc_blockNumber lc, lc_hash lc) \<in> reported ts0 cfg \<and> 0 \<le> lc_blockNumber lc"
    if "t \<in> set ts0" "reports t = Some lc" for t lc
  proof -
    have "entry t" using that(1) s by (simp add: calls_begin_def list_all_iff)
    moreover have "lc \<in> set (reset_reports ts0)" using that by (auto simp: set_reset_reports)
    ultimately show ?thesis using that(2) entry_reports by (simp add: reported_def)
  qed
  ultimately show "calls_begin ts0 cfg \<and> threads_inv (reported ts0 cfg) ts0 (c_blockNumber cfg) s'"
    using threads_inv_step by blast
qed

lemma run_threads_inv:
  assumes "calls_begin ts0 cfg" "run (interleave (thread_step F)) (ts0, unlocked cfg) is st"
  shows "threads_inv (reported ts0 cfg) ts0 (c_blockNumber cfg) st"
proof -
  have "reach (\<lambda>st. calls_begin ts0 cfg \<and> st = (ts0, unlocked cfg)) (interleave (thread_step F)) (ts0, unlocked cfg)"
    using assms(1) by (auto intro: reach_init)
  from ct.reach_inv [OF reach_run [OF assms(2) this]] show ?thesis by simp
qed

lemma critical_steps: "critical t \<Longrightarrow> thread_step F t sh \<noteq> None"
  by (cases t) simp_all

lemma enabled_steps: "t \<noteq> Finished \<Longrightarrow> \<not> sh_locked sh \<Longrightarrow> thread_step F t sh \<noteq> None"
  by (cases t) simp_all

lemma not_stuck:
  assumes "threads_inv R ts0 n (ts, sh)" "t \<in> set ts" "t \<noteq> Finished"
  shows "\<exists>i st. interleave (thread_step F) (ts, sh) i st"
proof -
  obtain t' where "t' \<in> set ts" "thread_step F t' sh \<noteq> None"
  proof (cases "sh_locked sh")
    case True
    then have "filter critical ts \<noteq> []" using assms(1) by (auto simp: threads_inv_def)
    then obtain t' where "t' \<in> set ts" "critical t'" by (auto simp: filter_empty_conv)
    then show ?thesis using critical_steps that by blast
  next
    case False
    then show ?thesis using enabled_steps [OF assms(3) False] assms(2) that by blast
  qed
  then show ?thesis by (auto simp: in_set_conv_nth intro: turn)
qed

lemma final_height:
  assumes "threads_inv (reported ts0 cfg) ts0 (c_blockNumber cfg) (ts, sh)" "set ts \<subseteq> {Finished}"
  shows "c_blockNumber (sh_config sh) = Max (insert (c_blockNumber cfg) (lc_blockNumber ` set (reset_reports ts0)))"
proof (rule Max_eqI [symmetric])
  have "filter critical ts = []" using assms(2) by (auto simp: filter_empty_conv)
  then have "settled (reported ts0 cfg) (sh_config sh)" using assms(1) by (auto simp: threads_inv_def)
  then show "c_blockNumber (sh_config sh) \<in> insert (c_blockNumber cfg) (lc_blockNumber ` set (reset_reports ts0))"
    by (auto simp: settled_def reported_def)
next
  fix m assume "m \<in> insert (c_blockNumber cfg) (lc_blockNumber ` set (reset_reports ts0))"
  moreover have "lc_blockNumber lc \<le> c_blockNumber (sh_config sh)" if "t \<in> set ts0" "reports t = Some lc" for t lc
  proof -
    from \<open>t \<in> set ts0\<close> obtain i where i: "i < length ts0" "ts0 ! i = t" unfolding in_set_conv_nth by blast
    then have "i < length ts" "thread_ok (reported ts0 cfg) (sh_config sh) t (ts ! i)"
      using assms(1) by (auto simp: threads_inv_def list_all2_conv_all_nth)
    moreover have "ts ! i = Finished" using assms(2) nth_mem [OF calculation(1)] by auto
    ultimately show ?thesis using that(2) by (simp add: thread_ok_def)
  qed
  ultimately show "m \<le> c_blockNumber (sh_config sh)"
    using assms(1) by (auto simp: threads_inv_def set_reset_reports)
qed simp

section \<open>Properties\<close>

text \<open>
  C8: any number of concurrent calls of \<^verbatim>\<open>resetConfig\<close>, \<^verbatim>\<open>setExecutedBlock\<close> and
  \<^verbatim>\<open>updateKnownMaxBlockInfo\<close>, interleaved step by step in any order, leave the ledger's view sound: the
  height never falls, whenever the lock is free the next block is the successor of the
  height and number and hash were reported together, and when all calls have returned the
  height is the greatest of the old one and the reported ones.
\<close>

theorem config_threads_safe:
  assumes "calls_begin ts0 cfg" and "run (interleave (thread_step F)) (ts0, unlocked cfg) is (ts, sh)"
  shows "c_blockNumber cfg \<le> c_blockNumber (sh_config sh) \<and>
    (\<not> sh_locked sh \<longrightarrow> c_nextBlock (sh_config sh) = i64 (c_blockNumber (sh_config sh) + 1) \<and>
       (c_blockNumber (sh_config sh), c_hash (sh_config sh)) \<in>
         insert (c_blockNumber cfg, c_hash cfg) ((\<lambda>lc. (lc_blockNumber lc, lc_hash lc)) ` set (reset_reports ts0))) \<and>
    (set ts \<subseteq> {Finished} \<longrightarrow> \<not> sh_locked sh \<and>
       c_blockNumber (sh_config sh) = Max (insert (c_blockNumber cfg) (lc_blockNumber ` set (reset_reports ts0))))"
proof -
  note inv = run_threads_inv [OF assms]
  have "\<not> sh_locked sh" if "set ts \<subseteq> {Finished}"
  proof -
    have "filter critical ts = []" using that by (auto simp: filter_empty_conv)
    with inv show ?thesis by (simp add: threads_inv_def)
  qed
  with inv final_height [OF inv] show ?thesis by (simp add: threads_inv_def settled_def reported_def)
qed

text \<open>
  Three threads on a node at height 6: two reports of blocks 9 and 8, and a failed execution that
  resets the executed block to 6. The schedule lets the failed execution test the height
  first and store last.
\<close>

definition demoSix :: "DemoSync BlockSyncConfig" where
  "demoSix = fst (resetConfig demoFramework (demoLedgerConfig 6)
     (setGenesisHash (replicate 32 9) (newBlockSyncConfig demoSync)))"

definition demoThreads :: "thread list" where
  "demoThreads = [ExecutedTest 6, ResetTest (demoLedgerConfig 9), ResetTest (demoLedgerConfig 8)]"

definition demoTurns :: "nat list" where
  "demoTurns = [0, 1, 2, 1, 2] @ replicate 13 1 @ replicate 4 2 @ [0]"

definition demoRaced :: "DemoSync threads" where
  "demoRaced = the (takeTurns (thread_step demoFramework) demoTurns (demoThreads, unlocked demoSix))"

lemma demoRaced_facts:
  "fst demoRaced = [Finished, Finished, Finished]" "c_blockNumber (sh_config (snd demoRaced)) = 9"
  "c_executedBlock (sh_config (snd demoRaced)) = 6" "\<not> sh_locked (snd demoRaced)"
  by code_simp+

lemma demo_calls_begin: "calls_begin demoThreads demoSix"
  by code_simp

lemma demo_interleaving: "run (interleave (thread_step demoFramework)) (demoThreads, unlocked demoSix) demoTurns (fst demoRaced, snd demoRaced)"
proof (rule takeTurns_run)
  have "takeTurns (thread_step demoFramework) demoTurns (demoThreads, unlocked demoSix) \<noteq> None" by code_simp
  then show "takeTurns (thread_step demoFramework) demoTurns (demoThreads, unlocked demoSix) = Some (fst demoRaced, snd demoRaced)"
    by (auto simp: demoRaced_def)
qed

theorem config_threads_safe_witness:
  "c_blockNumber demoSix = 6 \<and> c_blockNumber (sh_config (snd demoRaced)) = Max {6, 9, 8} \<and>
    c_nextBlock (sh_config (snd demoRaced)) = i64 (9 + 1) \<and>
    (c_blockNumber (sh_config (snd demoRaced)), c_hash (sh_config (snd demoRaced))) \<in>
      {(c_blockNumber demoSix, c_hash demoSix), (9, replicate 32 5), (8, replicate 32 5)}"
proof -
  have "c_blockNumber demoSix = 6" "reset_reports demoThreads = [demoLedgerConfig 9, demoLedgerConfig 8]" by code_simp+
  with config_threads_safe [OF demo_calls_begin demo_interleaving] demoRaced_facts
  show ?thesis by (simp add: demoLedgerConfig_def)
qed

text \<open>
  C9: the concurrent calls always return. Every interleaving of their steps ends: no schedule is
  longer than 17 steps per call, and a state in which no thread can move is one in which all
  have finished, so the lock never blocks them for good.
\<close>

theorem config_threads_terminate:
  assumes "calls_begin ts0 cfg" and "run (interleave (thread_step F)) (ts0, unlocked cfg) is (ts, sh)"
  shows "length is \<le> 17 * length ts0 \<and> ((\<forall>i st. \<not> interleave (thread_step F) (ts, sh) i st) \<longrightarrow> set ts \<subseteq> {Finished})"
proof -
  have "sum_list (map rank ts0) \<le> 17 * length ts0"
    using sum_list_mono [of ts0 rank "\<lambda>_. 17"] rank_le by (simp add: sum_list_triv mult.commute)
  then have "length is \<le> 17 * length ts0" using ct_rank.run_length [OF assms(2)] by simp
  moreover have "t = Finished" if "\<forall>i st. \<not> interleave (thread_step F) (ts, sh) i st" "t \<in> set ts" for t
    using not_stuck [OF run_threads_inv [OF assms] that(2)] that(1) by blast
  ultimately show ?thesis by blast
qed

theorem config_threads_terminate_witness:
  "length demoTurns \<le> 17 * length demoThreads \<and> set (fst demoRaced) \<subseteq> {Finished}"
proof -
  have "\<forall>i st. \<not> interleave (thread_step demoFramework) (fst demoRaced, snd demoRaced) i st"
    by (auto simp: demoRaced_facts less_Suc_eq elim!: interleaveE)
  with config_threads_terminate [OF demo_calls_begin demo_interleaving] show ?thesis by blast
qed

end
