(* ===== verification/StalledExecution.thy ===== *)
theory StalledExecution
  imports SyncSystem ConfigThreads
begin

text \<open>
  What follows when the executed height is below the ledger's, which an unlucky interleaving of
  \<^verbatim>\<open>setExecutedBlock\<close> with \<^verbatim>\<open>resetConfig\<close> leaves behind (\<open>ConfigThreads\<close>): the worker waits for the block
  after the executed one, a block the ledger already has and which is therefore never
  queued again.
\<close>

section \<open>The block queue of events outside the pipeline\<close>

abbreviation queued :: "('sc, 'z) dq_world_scheme \<Rightarrow> Block list" where
  "queued w \<equiv> m_blocks (m_downloadingQueue w)"

lemma queued_fold: "(\<And>x s. queued (f x s) = queued s) \<Longrightarrow> queued (fold f xs s) = queued s"
  by (induction xs arbitrary: s) simp_all

lemma queued_message: "queued (asyncNotifyBlockSyncMessage F err peer data s) = queued s"
  by (auto simp: asyncNotifyBlockSyncMessage_def onPeerStatus_def onPeerBlocks_def onPeerBlocksRequest_def dq_push_def
      Let_def split: option.split prod.split)

lemma queued_executeWorker: "queued (executeWorker F s) = queued s"
proof -
  have "queued (connectNode F n s) = queued s" for n and s :: "'a BlockSync"
    by (auto simp: connectNode_def Let_def split: prod.split)
  then show ?thesis
    by (simp add: executeWorker_def maintainPeersConnection_def Let_def queued_fold)
qed

lemma queued_maintainBlockRequest: "queued (maintainBlockRequest rnd s) = queued s"
proof -
  have "queued (snd (servePeer p s)) = queued s" for p and s :: "'a BlockSync"
    using serveRequests_general [of "ps_downloadRequests p" "ps_nodeId p" "req_store (m_syncStatus s) ! ps_downloadRequests p" s]
    by (auto simp: servePeer_def Let_def)
  then show ?thesis
    unfolding maintainBlockRequest_def by (intro foreachPeerRandom_inv [where P = "\<lambda>s'. queued s' = queued s"]) auto
qed

lemma queued_outside: "outside e \<Longrightarrow> queued (handle F e s) = queued s"
  by (cases e)
    (auto simp: queued_message queued_executeWorker queued_maintainBlockRequest takeSendTask_def asyncNotifyCommittedIndex_def
      notifyConnectedNodes_def onDownloadTimeout_def onNodeIDs_def onBlockData_def Let_def split: sum.split option.split)

section \<open>The executed height behind the ledger\<close>

definition behind :: "'sc BlockSync \<Rightarrow> bool" where
  "behind s \<longleftrightarrow> 0 \<le> c_executedBlock (m_config s) \<and> c_executedBlock (m_config s) < c_blockNumber (m_config s) \<and>
     c_blockNumber (m_config s) < 2 ^ 63 \<and> blk_heap (queued s) \<and>
     (\<forall>b \<in> set (queued s). c_blockNumber (m_config s) < block_number b)"

definition stalls :: "'sc BlockSync \<Rightarrow> 'sc BlockSync \<Rightarrow> bool" where
  "stalls s s' \<longleftrightarrow> behind s' \<and> c_blockNumber (m_config s') = c_blockNumber (m_config s) \<and>
     c_executedBlock (m_config s') = c_executedBlock (m_config s) \<and>
     (\<exists>cs. calls s' = calls s @ cs \<and> (\<forall>b. ExecuteBlock b \<notin> set cs))"

lemma stalls_refl: "behind s \<Longrightarrow> stalls s s"
  by (simp add: stalls_def)

lemma stalls_trans [trans]: "stalls a b \<Longrightarrow> stalls b c \<Longrightarrow> stalls a c"
  by (auto simp: stalls_def)

lemma silent_no_execution:
  "silent s s' \<Longrightarrow> \<exists>cs. calls s' = calls s @ cs \<and> (\<forall>b. ExecuteBlock b \<notin> set cs)"
  by (fastforce simp: silent_def calm_def adds_calls_def)

lemma stalls_silent:
  assumes "behind s" "silent s s'" "blk_heap (queued s')"
    "\<And>b. b \<in> set (queued s') \<Longrightarrow> c_blockNumber (m_config s) < block_number b"
  shows "stalls s s'"
  using assms silent_no_execution [OF assms(2)] by (auto simp: stalls_def behind_def silent_def)

lemma stalls_same:
  assumes "behind s" "silent s s'" "queued s' = queued s"
  shows "stalls s s'"
  by (rule stalls_silent [OF assms(1,2)]) (use assms(1,3) in \<open>auto simp: behind_def\<close>)

lemma stalls_buffer:
  assumes "behind s"
  shows "stalls s (maintainDownloadingBuffer F s)"
proof -
  let ?q = "clearFullQueueIfNotHas (m_config s) (c_nextBlock (m_config s)) (m_downloadingQueue s)"
  have q: "blk_heap (m_blocks ?q)" "m_commitQueue ?q = m_commitQueue (m_downloadingQueue s)"
    "set (m_blocks ?q) \<subseteq> set (queued s)"
    using assms by (auto simp: behind_def clearFullQueueIfNotHas_def clearQueue_def blk.is_heap_Nil Let_def)
  obtain n where n: "mset (m_blocks (flushBuffer F (m_config s) True ?q)) =
      mset (m_blocks ?q) + mset (concat (map (newBlocksOf F (m_config s)) (take n (m_blockBuffer ?q))))"
    "m_commitQueue (flushBuffer F (m_config s) True ?q) = m_commitQueue ?q"
    "blk_heap (m_blocks (flushBuffer F (m_config s) True ?q))"
    using flushBuffer_spec [OF q(1) refl, of F "m_config s"] by auto
  have "c_blockNumber (m_config s) < block_number b" if "b \<in> set (m_blocks (flushBuffer F (m_config s) True ?q))" for b
    using that assms q(3) arg_cong [OF n(1), of set_mset] by (auto simp: behind_def newBlocksOf_def)
  moreover have "silent s (maintainDownloadingBuffer F s)"
    using n(2) q(2) by (intro silent_same)
      (auto simp: maintainDownloadingBuffer_def flushBufferToQueue_def dq_clear_def clearQueue_def Let_def)
  ultimately show ?thesis
    using assms n(3) by (intro stalls_silent)
      (auto simp: maintainDownloadingBuffer_def flushBufferToQueue_def dq_clear_def clearQueue_def blk.is_heap_Nil
        behind_def Let_def split: if_splits)
qed

lemma stalls_queue:
  assumes s: "behind s"
  shows "stalls s (maintainDownloadingQueue s)"
proof (cases "shouldSyncing s")
  case False
  then have eq: "maintainDownloadingQueue s = downloadFinish (s\<lparr>m_downloadingQueue := dq_clear (m_downloadingQueue s)\<rparr>)"
    by (simp add: maintainDownloadingQueue_def)
  show ?thesis
    unfolding eq by (rule stalls_silent [OF s silent_same]) (simp_all add: downloadFinish_def dq_clear_def clearQueue_def blk.is_heap_Nil)
next
  case True
  define s1 where "s1 = tryToCommitBlockToLedger s"
  have s1: "m_config s1 = m_config s" "queued s1 = queued s" "silent s s1"
    unfolding s1_def by auto
  have heap: "blk_heap (queued s)" using s by (simp add: behind_def)
  have "block_number b \<noteq> i64 (c_executedBlock (m_config s) + 1)" if "pq_top (unexpired s1) = Some b" for b
  proof -
    have "b \<in> set (queued s)" using pq_top_SomeD [OF that] set_blk_pop_while [OF heap] s1 by auto
    then show ?thesis using s by (auto simp: behind_def in_i64_def)
  qed
  then have "maintainDownloadingQueue s = with_blocks (unexpired s1) s1"
    using True by (auto simp: maintainDownloadingQueue_eq s1_def [symmetric] Let_def split: option.split)
  moreover have "silent s (with_blocks (unexpired s1) s1)"
    by (rule silent_trans [OF s1(3)], rule silent_same) simp_all
  ultimately show ?thesis
    using s heap s1 by (intro stalls_silent) (auto simp: set_blk_pop_while behind_def blk.is_heap_pop_while)
qed

lemma stalls_request: "behind s \<Longrightarrow> stalls s (tryToRequestBlocks F rnds s)"
proof (rule stalls_same)
  show "queued (tryToRequestBlocks F rnds s) = queued s"
    by (rule tryToRequestBlocks_inv) simp_all
qed auto

lemma stalls_then: "stalls a b \<Longrightarrow> (behind b \<Longrightarrow> stalls b c) \<Longrightarrow> stalls a c"
  using stalls_trans [of a b c] by (simp add: stalls_def)

lemma stalls_downloadTask: "behind s \<Longrightarrow> stalls s (downloadTask F rnds s)"
  unfolding downloadTask_def by (intro stalls_then [OF stalls_then [OF stalls_buffer stalls_queue] stalls_request])

text \<open>All events but the reports of the consensus module and the answers of the pipeline.\<close>

definition no_report :: "event \<Rightarrow> bool" where
  "no_report e \<longleftrightarrow> outside e \<or> (\<exists>rnds. e = DownloadRun rnds)"

lemma stalls_handle:
  assumes "behind s" "no_report e"
  shows "stalls s (handle F e s)"
proof (cases "outside e")
  case True
  then show ?thesis using assms(1) by (intro stalls_same silent_outside queued_outside)
next
  case False
  then obtain rnds where e: "e = DownloadRun rnds" using assms(2) by (auto simp: no_report_def)
  have "stalls s (takeDownloadTask s)"
    by (rule stalls_same [OF assms(1) silent_same]) (simp_all add: takeDownloadTask_def)
  then show ?thesis by (simp add: e stalls_then [OF _ stalls_downloadTask])
qed

section \<open>Properties\<close>

text \<open>
  C17: a node whose executed height has fallen below the ledger's stops syncing. As long as neither
  the consensus module reports a block nor an earlier call of the pipeline is answered,
  whatever messages, blocks, worker rounds and download tasks follow, no block is handed
  to the scheduler and both heights stay, even if the next block is in the queue. The
  example starts from the end of an interleaving of \<^verbatim>\<open>setExecutedBlock\<close> with \<^verbatim>\<open>resetConfig\<close>.
\<close>

theorem executed_behind_stalls:
  assumes "0 \<le> c_executedBlock (m_config s)" and "c_executedBlock (m_config s) < c_blockNumber (m_config s)"
    and "c_blockNumber (m_config s) < 2 ^ 63" and "is_heap BlockCmp (m_blocks (m_downloadingQueue s))"
    and "\<forall>b \<in> set (m_blocks (m_downloadingQueue s)). c_blockNumber (m_config s) < block_number b"
    and "\<forall>e \<in> set es. no_report e" and "s' = fold (handle F) es s"
  shows "c_blockNumber (m_config s') = c_blockNumber (m_config s) \<and>
    c_executedBlock (m_config s') = c_executedBlock (m_config s) \<and>
    (\<exists>cs. calls s' = calls s @ cs \<and> (\<forall>b. ExecuteBlock b \<notin> set cs))"
proof -
  have "behind s" using assms(1-5) by (simp add: behind_def)
  then have "stalls s (fold (handle F) es s)"
    using assms(6)
  proof (induction es arbitrary: s)
    case (Cons e es)
    then show ?case by (auto intro: stalls_then [OF stalls_handle])
  qed (simp add: stalls_refl)
  then show ?thesis by (simp add: stalls_def assms(7))
qed

text \<open>A peer at height 40 shows up and delivers block 10 to the node at height 9 that has executed 6.\<close>

definition demoBehind :: "DemoSync BlockSync" where
  "demoBehind = (createBlockSync demoSync)\<lparr>m_config := sh_config (snd demoRaced)\<rparr>"

definition demoArrivals :: "event list" where
  "demoArrivals =
     [Message None (demoNode 1) (msg_encode demo_encodePB (announce 40)),
      Message None (demoNode 1) (msg_encode demo_encodePB (demoPacket [demoBlock 10 1])), DownloadRun (\<lambda>_ i. i)]"

theorem executed_behind_stalls_witness:
  "\<exists>s'. s' = fold (handle demoFramework) demoArrivals demoBehind \<and> shouldSyncing s' \<and>
    demoBlock 10 1 \<in> set (m_blocks (m_downloadingQueue s')) \<and> c_nextBlock (m_config s') = 10 \<and>
    c_executedBlock (m_config s') = c_executedBlock (m_config demoBehind) \<and>
    (\<exists>cs. calls s' = calls demoBehind @ cs \<and> (\<forall>b. ExecuteBlock b \<notin> set cs))"
proof -
  let ?s = "fold (handle demoFramework) demoArrivals demoBehind"
  have "shouldSyncing ?s" "demoBlock 10 1 \<in> set (m_blocks (m_downloadingQueue ?s))" "c_nextBlock (m_config ?s) = 10"
    by code_simp+
  moreover have "c_executedBlock (m_config demoBehind) = 6" "c_blockNumber (m_config demoBehind) = 9"
    "m_blocks (m_downloadingQueue demoBehind) = []"
    by code_simp+
  moreover have "\<forall>e \<in> set demoArrivals. no_report e" by (simp add: demoArrivals_def no_report_def)
  ultimately show ?thesis
    using executed_behind_stalls [OF _ _ _ _ _ _ refl, of demoBehind demoArrivals demoFramework]
    by (simp add: blk.is_heap_Nil)
qed

end
