(* ===== verification/WorkerLoop.thy ===== *)
theory WorkerLoop
  imports SyncSystem
begin

text \<open>
  The life cycle of the module: \<^verbatim>\<open>start\<close>, \<^verbatim>\<open>stop\<close> and the loop of the worker thread,
  \<^verbatim>\<open>workerProcessLoop\<close>. The base class \<^verbatim>\<open>Worker\<close> of the framework is a parameter: \<open>started\<close> is
  the test \<^verbatim>\<open>workerState() == WorkerState::Started\<close> and \<open>working\<close> is \<^verbatim>\<open>isWorking()\<close>, both as functions
  of the calls the module has made on it so far.
\<close>

section \<open>Calls on the worker\<close>

fun worker_call :: "call \<Rightarrow> bool" where
  "worker_call StartWorking = True"
| "worker_call FinishWorker = True"
| "worker_call StopWorking = True"
| "worker_call TerminateWorker = True"
| "worker_call _ = False"

definition worker_calls :: "('sc, 'z) dq_world_scheme \<Rightarrow> call list" where
  "worker_calls w = filter worker_call (calls w)"

text \<open>
  What the threads of the module's users and services do while the worker waits: the events of the
  transition system, and the two life-cycle calls.
\<close>

datatype activity = Event event | Start | Stop

fun act :: "(call list \<Rightarrow> bool) \<Rightarrow> 'sc Framework \<Rightarrow> activity \<Rightarrow> 'sc BlockSync \<Rightarrow> 'sc BlockSync" where
  "act working F (Event e) s = handle F e s"
| "act working F Start s = start s"
| "act working F Stop s = stop (working (worker_calls s @ [FinishWorker])) s"

text \<open>
  The loop. \<open>others i\<close> is what happens between the tests of the \<open>i\<close>-th round and the next, after
  \<^verbatim>\<open>executeWorker\<close>: the wait is timed, or ended early by the condition variable, and in either case
  the loop goes on to its test, as it does after an exception.
\<close>

partial_function (option) workerProcessLoop ::
  "(call list \<Rightarrow> bool) \<Rightarrow> (call list \<Rightarrow> bool) \<Rightarrow> 'sc Framework \<Rightarrow> (nat \<Rightarrow> activity list) \<Rightarrow> nat \<Rightarrow>
   'sc BlockSync \<Rightarrow> 'sc BlockSync option" where
  "workerProcessLoop started working F others i s =
     (if started (worker_calls s)
      then workerProcessLoop started working F others (i + 1) (fold (act working F) (others i) (executeWorker F s))
      else Some s)"

fun rounds ::
  "(call list \<Rightarrow> bool) \<Rightarrow> 'sc Framework \<Rightarrow> (nat \<Rightarrow> activity list) \<Rightarrow> nat \<Rightarrow> 'sc BlockSync \<Rightarrow> 'sc BlockSync" where
  "rounds working F others 0 s = s"
| "rounds working F others (Suc n) s = fold (act working F) (others n) (executeWorker F (rounds working F others n s))"

section \<open>Events leave the worker alone\<close>

definition steady :: "'sc BlockSync \<Rightarrow> 'sc BlockSync \<Rightarrow> bool" where
  "steady s s' \<longleftrightarrow> m_running s' = m_running s \<and> worker_calls s' = worker_calls s"

lemma steady_refl [simp, intro]: "steady s s"
  by (simp add: steady_def)

lemma steady_trans [trans]: "steady a b \<Longrightarrow> steady b c \<Longrightarrow> steady a c"
  by (simp add: steady_def)

lemma steady_emit [simp]: "\<not> worker_call c \<Longrightarrow> steady s (emit c s') \<longleftrightarrow> steady s s'"
  by (simp add: steady_def worker_calls_def)

lemma steady_calls:
  "calls s' = calls s @ cs \<Longrightarrow> filter worker_call cs = [] \<Longrightarrow> m_running s' = m_running s \<Longrightarrow> steady s s'"
  by (simp add: steady_def worker_calls_def)

lemma steady_fold:
  assumes "\<And>x s. steady s (f x s)"
  shows "steady s (fold f xs s)"
proof (induction xs arbitrary: s)
  case (Cons x xs)
  show ?case using steady_trans [OF assms Cons.IH] by simp
qed simp

lemma running_more: "dq_world.more s' = dq_world.more (s :: 'sc BlockSync) \<Longrightarrow> m_running s' = m_running s"
  by (cases s; cases s') simp

lemma steady_setExecuted [simp]: "steady s (setExecuted n s') \<longleftrightarrow> steady s s'"
  using running_more [of "setExecuted n s'" s'] by (simp add: steady_def worker_calls_def)

lemma steady_queue [simp]: "steady s (s'\<lparr>m_downloadingQueue := q\<rparr>) \<longleftrightarrow> steady s s'"
  by (simp add: steady_def worker_calls_def)

lemma steady_tryToCommit: "steady s (tryToCommitBlockToLedger s)"
proof -
  have "\<exists>cs. calls (tryToCommitBlockToLedger s) = calls s @ cs \<and> filter worker_call cs = []"
    by (auto simp: tryToCommitBlockToLedger_def checkAndCommitBlock_def Let_def split: option.split)
  then show ?thesis using steady_calls running_more [of "tryToCommitBlockToLedger s" s] by fastforce
qed

lemma steady_onNewBlock: "steady s (onNewBlock F lc s)"
proof (rule steady_calls [OF onNewBlock_calls])
  show "m_running (onNewBlock F lc s) = m_running s" by (rule running_more) simp
qed (auto simp: resetConfig_snd filter_map o_def)

lemma steady_newBlock: "steady s (asyncNotifyNewBlock F lc s)"
  using steady_trans [OF steady_onNewBlock steady_tryToCommit, of s F lc] by (simp add: asyncNotifyNewBlock_def)

lemma steady_onCommitted: "steady s (onCommitted (Some (onNewBlock F)) b ans s)"
  using steady_trans [OF steady_onNewBlock steady_tryToCommit]
  by (auto simp: onCommitted_def finalizeBlock_def Let_def split: sum.split)

lemma steady_onExecuted: "steady s (onExecuted b ans s)"
proof -
  have "steady s (updateCommitQueue b (setExecuted n s))" for n
    unfolding updateCommitQueue_def by (rule steady_trans [OF _ steady_tryToCommit]) simp
  then show ?thesis by (auto simp: onExecuted_def split: sum.split)
qed

lemma steady_onChecked: "steady s (onChecked b ans s)"
  by (auto simp: onChecked_def commitBlock_def commitBlockState_def Let_def split: sum.split)

lemma steady_onStored: "steady s (onStored b ans s)"
  by (auto simp: onStored_def commitBlockState_def split: sum.split)

lemma steady_same: "calls s' = calls s \<Longrightarrow> m_running s' = m_running s \<Longrightarrow> steady s s'"
  by (simp add: steady_def worker_calls_def)

lemma steady_message: "steady s (asyncNotifyBlockSyncMessage F err peer data s)"
  by (rule steady_same)
    (auto simp: asyncNotifyBlockSyncMessage_def onPeerStatus_def onPeerBlocks_def onPeerBlocksRequest_def Let_def
      split: option.split prod.split)

lemma steady_executeWorker: "steady s (executeWorker F s)"
proof -
  have "steady s (connectNode F n s)" for n and s :: "'a BlockSync"
    by (auto simp: connectNode_def steady_def worker_calls_def Let_def split: prod.split)
  then have "steady s0 (fold (connectNode F) ns s0)" for ns and s0 :: "'a BlockSync" by (rule steady_fold)
  then show ?thesis
    by (fastforce simp: executeWorker_def maintainPeersConnection_def Let_def steady_def worker_calls_def)
qed

lemma steady_maintainBlockRequest: "steady s (maintainBlockRequest rnd s)"
proof -
  have "steady s (snd (servePeer p s))" for p and s :: "'a BlockSync"
    using serveRequests_general [of "ps_downloadRequests p" "ps_nodeId p" "req_store (m_syncStatus s) ! ps_downloadRequests p" s]
    by (auto simp: servePeer_def Let_def steady_def worker_calls_def filter_map o_def)
  then show ?thesis
    unfolding maintainBlockRequest_def
    by (intro foreachPeerRandom_inv [where P = "steady s"]) (auto intro: steady_trans)
qed

lemma steady_state [simp]: "steady s (s'\<lparr>m_state := x\<rparr>) \<longleftrightarrow> steady s s'"
  by (simp add: steady_def worker_calls_def)

lemma steady_maintainDownloadingQueue: "steady s (maintainDownloadingQueue s)"
  using steady_tryToCommit [of s]
  by (auto simp: maintainDownloadingQueue_eq downloadFinish_def applyBlock_def steady_same Let_def split: option.split)

lemma steady_downloadTask: "steady s (downloadTask F rnds s)"
proof -
  have "steady s (maintainDownloadingBuffer F s)" by (rule steady_same) (simp_all add: maintainDownloadingBuffer_def Let_def)
  also have "steady \<dots> (maintainDownloadingQueue \<dots>)" by (rule steady_maintainDownloadingQueue)
  also have "steady \<dots> (tryToRequestBlocks F rnds \<dots>)"
    by (rule tryToRequestBlocks_inv) (auto simp: steady_def worker_calls_def)
  finally show ?thesis unfolding downloadTask_def .
qed

lemma steady_handle: "steady s (handle F e s)"
proof (cases e)
  case (DownloadRun rnds)
  have "steady s (takeDownloadTask s)" by (rule steady_same) (simp_all add: takeDownloadTask_def)
  also have "steady \<dots> (downloadTask F rnds \<dots>)" by (rule steady_downloadTask)
  finally show ?thesis by (simp add: DownloadRun)
next
  case (SendRun rnd)
  have "steady s (takeSendTask s)" by (rule steady_same) (simp_all add: takeSendTask_def)
  also have "steady \<dots> (maintainBlockRequest rnd \<dots>)" by (rule steady_maintainBlockRequest)
  finally show ?thesis by (simp add: SendRun)
next
  case (BlockData q peer n ans)
  then show ?thesis by (auto simp: onBlockData_def Let_def intro: steady_same split: sum.split)
next
  case (NodeIDs ans)
  then show ?thesis by (auto simp: onNodeIDs_def Let_def intro: steady_same split: sum.split option.split)
qed (auto simp: steady_newBlock steady_message steady_executeWorker steady_onExecuted steady_onChecked steady_onStored
    steady_onCommitted asyncNotifyCommittedIndex_def notifyConnectedNodes_def onDownloadTimeout_def intro: steady_same)

section \<open>The worker ends\<close>

text \<open>
  What the base class promises: a started worker is at work, and \<^verbatim>\<open>stopWorking\<close> ends it until the next
  \<^verbatim>\<open>startWorking\<close>.
\<close>

definition worker_laws :: "(call list \<Rightarrow> bool) \<Rightarrow> (call list \<Rightarrow> bool) \<Rightarrow> bool" where
  "worker_laws started working \<longleftrightarrow>
     (\<forall>cs. started cs \<longrightarrow> working cs) \<and>
     (\<forall>cs. started cs \<longrightarrow> StartWorking \<in> set (takeWhile (\<lambda>c. c \<noteq> StopWorking) (rev cs)))"

definition guarded :: "(call list \<Rightarrow> bool) \<Rightarrow> 'sc BlockSync \<Rightarrow> bool" where
  "guarded started s \<longleftrightarrow> (started (worker_calls s) \<longrightarrow> m_running s)"

lemma guarded_steady: "steady s s' \<Longrightarrow> guarded started s' \<longleftrightarrow> guarded started s"
  by (simp add: steady_def guarded_def)

lemma worker_calls_stop:
  "worker_calls (stop w s) =
     (if \<not> m_running s then worker_calls s
      else worker_calls s @ FinishWorker # (if w then [StopWorking, TerminateWorker] else []))"
  by (simp add: stop_def worker_calls_def Let_def)

lemma stop_ends:
  assumes "worker_laws started working" "guarded started s"
  shows "\<not> started (worker_calls (act working F Stop s))"
proof (cases "m_running s")
  case True
  have "\<not> started (cs @ [FinishWorker, StopWorking, TerminateWorker])" for cs
    using assms(1) unfolding worker_laws_def by (auto dest!: spec [of _ "cs @ [FinishWorker, StopWorking, TerminateWorker]"])
  moreover have "\<not> started (cs @ [FinishWorker])" if "\<not> working (cs @ [FinishWorker])" for cs
    using assms(1) that by (auto simp: worker_laws_def)
  ultimately show ?thesis using True by (simp add: worker_calls_stop)
next
  case False
  then show ?thesis using assms(2) by (simp add: guarded_def worker_calls_stop)
qed

lemma guarded_act:
  assumes "worker_laws started working" "guarded started s"
  shows "guarded started (act working F a s)"
proof (cases a)
  case (Event e)
  then show ?thesis using assms(2) guarded_steady [OF steady_handle [of s F e], of started] by simp
next
  case Start
  then show ?thesis using assms(2) by (simp add: guarded_def start_def)
next
  case Stop
  then show ?thesis using stop_ends [OF assms] by (simp add: guarded_def)
qed

lemma guarded_acts:
  "worker_laws started working \<Longrightarrow> guarded started s \<Longrightarrow> guarded started (fold (act working F) as s)"
  by (induction as arbitrary: s) (simp_all add: guarded_act)

lemma guarded_rounds:
  "worker_laws started working \<Longrightarrow> guarded started s \<Longrightarrow> guarded started (rounds working F others n s)"
  by (induction n) (simp_all add: guarded_acts guarded_steady [OF steady_executeWorker])

text \<open>Once ended, the worker is started again by \<^verbatim>\<open>start\<close> only.\<close>

lemma stays_ended:
  assumes "worker_laws started working" "guarded started s" "\<not> started (worker_calls s)" "Start \<notin> set as"
  shows "\<not> started (worker_calls (fold (act working F) as s))"
  using assms(2-4)
proof (induction as arbitrary: s)
  case (Cons a as)
  have "\<not> started (worker_calls (act working F a s))"
  proof (cases a)
    case (Event e)
    then show ?thesis using Cons.prems(2) steady_handle [of s F e] by (simp add: steady_def)
  qed (use Cons.prems stop_ends [OF assms(1)] in auto)
  then show ?case using Cons by (simp add: guarded_act [OF assms(1)])
qed simp

lemma bs_safe_stop [intro]: "bs_safe s (stop w s)"
  by (simp add: stop_def bs_safe_def bs_wf_def Let_def)

lemma bs_safe_acts:
  "(\<And>e. Event e \<in> set as \<Longrightarrow> event_ok e) \<Longrightarrow> bs_safe s (fold (act working F) as s)"
proof (induction as arbitrary: s)
  case (Cons a as)
  have "bs_safe s (act working F a s)" using Cons.prems by (cases a) (auto intro: bs_safe_handle)
  also have "bs_safe \<dots> (fold (act working F) as \<dots>)" using Cons by simp
  finally show ?case by simp
qed simp

lemma bs_safe_rounds:
  assumes "\<And>i e. Event e \<in> set (others i) \<Longrightarrow> event_ok e"
  shows "bs_safe s (rounds working F others n s)"
proof (induction n)
  case (Suc n)
  note Suc.IH
  also have "bs_safe (rounds working F others n s) (executeWorker F (rounds working F others n s))" by blast
  also have "bs_safe \<dots> (fold (act working F) (others n) \<dots>)" using assms by (rule bs_safe_acts)
  finally show ?case by simp
qed simp

lemma loop_rounds:
  "(\<And>i. i < n \<Longrightarrow> started (worker_calls (rounds working F others i s))) \<Longrightarrow>
   workerProcessLoop started working F others 0 s =
   workerProcessLoop started working F others n (rounds working F others n s)"
  by (induction n) (simp_all add: workerProcessLoop.simps [of started working F others n for n])

section \<open>Properties\<close>

text \<open>
  C18: \<^verbatim>\<open>stop\<close> ends the worker thread. Whatever happens in the rounds before, if \<^verbatim>\<open>stop\<close> is called during
  round \<open>k\<close> and \<^verbatim>\<open>start\<close> is not called after it in that round, \<^verbatim>\<open>workerProcessLoop\<close> returns, after at most
  \<open>k + 1\<close> rounds and exactly when its test of the worker's state fails; the module it leaves is
  well-formed and its height has not fallen.
\<close>

theorem worker_loop_stops:
  assumes "worker_laws started working" and "started (worker_calls s) \<longrightarrow> m_running s" and "bs_wf s"
    and "\<And>i e. Event e \<in> set (others i) \<Longrightarrow> event_ok e" and "others k = as @ Stop # bs" and "Start \<notin> set bs"
  shows "\<exists>n \<le> k + 1. workerProcessLoop started working F others 0 s = Some (rounds working F others n s) \<and>
    (\<forall>i < n. started (worker_calls (rounds working F others i s))) \<and>
    \<not> started (worker_calls (rounds working F others n s)) \<and>
    bs_wf (rounds working F others n s) \<and> c_blockNumber (m_config s) \<le> c_blockNumber (m_config (rounds working F others n s))"
proof -
  let ?r = "\<lambda>n. rounds working F others n s" and ?on = "\<lambda>n. started (worker_calls (rounds working F others n s))"
  have g: "guarded started s" using assms(2) by (simp add: guarded_def)
  let ?s = "fold (act working F) as (executeWorker F (?r k))"
  have gs: "guarded started ?s"
    by (intro guarded_acts [OF assms(1)]) (simp add: guarded_steady [OF steady_executeWorker] guarded_rounds [OF assms(1) g])
  have "\<not> ?on (Suc k)"
    using stays_ended [OF assms(1) guarded_act [OF assms(1) gs] stop_ends [OF assms(1) gs] assms(6), where F = F]
    by (simp add: assms(5))
  with ex_least_nat_le [of "\<lambda>n. \<not> ?on n"] obtain n where n: "n \<le> Suc k" "\<not> ?on n" "\<And>i. i < n \<Longrightarrow> ?on i" by blast
  have "workerProcessLoop started working F others 0 s = Some (?r n)"
    by (subst loop_rounds [of n], rule n(3), assumption, subst workerProcessLoop.simps) (simp add: n(2))
  moreover have "bs_safe s (?r n)" using assms(4) by (rule bs_safe_rounds)
  ultimately show ?thesis using n assms(3) by (intro exI [of _ n]) (simp add: bs_safe_def advances_def del: rounds.simps)
qed

text \<open>A worker that is started until it is stopped; \<^verbatim>\<open>stop\<close> is called in the third round.\<close>

definition demoStarted :: "call list \<Rightarrow> bool" where
  "demoStarted cs \<longleftrightarrow> StartWorking \<in> set (takeWhile (\<lambda>c. c \<noteq> StopWorking) (rev cs))"

definition demoOthers :: "nat \<Rightarrow> activity list" where
  "demoOthers i = (if i = 2 then [Event (CommittedIndex 6), Stop] else [])"

theorem worker_loop_stops_witness:
  "\<exists>s'. workerProcessLoop demoStarted demoStarted demoFramework demoOthers 0 (start demoModule) = Some s' \<and>
    s' = rounds demoStarted demoFramework demoOthers 3 (start demoModule) \<and> \<not> m_running s' \<and> bs_wf s' \<and>
    last (calls s') = TerminateWorker"
proof -
  let ?r = "\<lambda>n. rounds demoStarted demoFramework demoOthers n (start demoModule)"
  have "worker_laws demoStarted demoStarted" by (simp add: worker_laws_def demoStarted_def)
  moreover have "m_running (start demoModule)" by (simp add: start_def)
  moreover have "bs_wf (start demoModule)" using bs_wf_demoModule bs_safe_start [of demoModule] by (simp add: bs_safe_def)
  moreover have "event_ok e" if "Event e \<in> set (demoOthers i)" for i e using that by (auto simp: demoOthers_def split: if_splits)
  moreover have "demoOthers 2 = [Event (CommittedIndex 6)] @ Stop # []" by (simp add: demoOthers_def)
  ultimately obtain n where n: "n \<le> 2 + 1"
    "workerProcessLoop demoStarted demoStarted demoFramework demoOthers 0 (start demoModule) = Some (?r n)"
    "\<not> demoStarted (worker_calls (?r n))" "bs_wf (?r n)"
    using worker_loop_stops [of demoStarted demoStarted "start demoModule" demoOthers 2 "[Event (CommittedIndex 6)]" "[]" demoFramework]
    by auto
  have "demoStarted (worker_calls (?r 0))" "demoStarted (worker_calls (?r 1))" "demoStarted (worker_calls (?r 2))"
    by code_simp+
  with n(3) have "n \<noteq> 0" "n \<noteq> 1" "n \<noteq> 2" by metis+
  with n(1) have "n = 3" by simp
  moreover have "\<not> m_running (?r 3)" "last (calls (?r 3)) = TerminateWorker" by code_simp+
  ultimately show ?thesis using n by blast
qed

end
