(* ===== verification/Spec2Isabelle.thy ===== *)
theory Spec2Isabelle
  imports QueueThreads StatusThreads PeerThreads ModuleServices ModuleLocks MessageInterfaces CatchUp PeerConnections StalledExecution WorkerLoop
begin

text \<open>
  The block synchronisation module of FISCO-BCOS (\<^verbatim>\<open>src/bcos-sync\<close>): a node that lags behind its
  peers learns their heights, requests the missing blocks, executes, verifies and commits
  them in order, and serves the requests of others. This development models its classes,
  message handlers and callbacks and proves what makes them correct, from the arithmetic of a
  single queue to the behaviour of the module in every order of events.

  \<^bold>\<open>The program.\<close> \<^verbatim>\<open>BlockSync\<close> owns three components: \<^verbatim>\<open>BlockSyncConfig\<close> (the heights and hashes the
  node knows of), \<^verbatim>\<open>SyncPeerStatus\<close> (the peers, each with a \<^verbatim>\<open>DownloadRequestQueue\<close> of ranges it has
  asked for) and \<^verbatim>\<open>DownloadingQueue\<close> (downloaded blocks on their way into the ledger). It is entered
  from four sides: the consensus module reports new blocks and committed indices, the
  front service delivers messages and connection lists, the worker thread with its two
  one-thread pools and a timer drives maintenance, and the services it calls (scheduler,
  consensus, ledger, front service) answer through callbacks.

  \<^bold>\<open>The model.\<close> Every class is a record, every method a function on it. The component
  records are nested as the code nests the objects: \<open>dq_world\<close> holds the configuration, the
  downloading queue and the list \<open>calls\<close> of service calls made so far, and the
  record \<open>BlockSync\<close> extends it, so that the methods of the downloading queue, which
  change the shared configuration, apply to the state of the module as they are. A callback
  passed to a service is an operation of its own (\<open>onExecuted\<close>, \<open>onChecked\<close>, \<open>onStored\<close>, \<open>onCommitted\<close>,
  \<open>onBlockData\<close>, \<open>onNodeIDs\<close>) whose arguments are what the closure captures and the answer, an error
  or a value. The code of \<^verbatim>\<open>bcos-framework\<close> (node lists of the base class, codecs) is the
  record \<open>Framework\<close> of parameters; properties that rely on it say so in a hypothesis, and
  \<open>SyncDemo\<close> has the instance on which those hypotheses are shown to hold.
  \<^verbatim>\<open>BlockNumber\<close> is an \<open>int\<close> with explicit 64-bit wrap-around, \<^verbatim>\<open>size_t\<close> a \<open>64 word\<close>.

  \<^bold>\<open>The theories.\<close>
  \<^item> \<open>SyncPrelude\<close>: machine types, conversions and shared lemmas. \<open>StdPriorityQueue\<close>: the heap
    algorithm behind \<^verbatim>\<open>std::priority_queue\<close>; the locale \<open>strict_weak_order\<close> is the contract of a
    comparator, interpreted on \<open>DownloadRequestCmp\<close> and \<open>BlockCmp\<close>.
  \<^item> \<open>SyncMessage\<close> (\<^verbatim>\<open>utilities/Common.h\<close>, \<^verbatim>\<open>protocol/\<close>): packet types, the protobuf message, its wrapper
    classes and their factory with its overloads. Status, request and response packets survive
    encoding and decoding, and an object made of the received bytes is the one made of the
    decoded message.
  \<^item> \<open>MessageInterfaces\<close> (\<^verbatim>\<open>interfaces/\<close>): the abstract message classes and the abstract factory as records
    of operations. What the module relies on are the locales \<open>message_class\<close>, its extensions
    \<open>status_class\<close>, \<open>request_class\<close>, \<open>blocks_class\<close> (the virtual inheritance) and \<open>msg_factory\<close>, interpreted on the
    protobuf classes; delivery of each kind of message is proved once in them.
  \<^item> \<open>SyncFramework\<close>, \<open>SyncDemo\<close>: the parameters, and one instance of them.
  \<^item> \<open>BlockSyncConfig\<close> (\<^verbatim>\<open>BlockSyncConfig.h/.cpp\<close>): the heights; \<open>config_wf\<close> relates them, \<open>advances\<close> is the
    promise that heights never fall.
  \<^item> \<open>DownloadRequestQueue\<close> (\<^verbatim>\<open>state/DownloadRequestQueue.h/.cpp\<close>): bounded queue of ranges and the
    merging of \<open>topAndPop\<close>, which neither loses nor invents a block number.
  \<^item> \<open>SyncPeerStatus\<close> (\<^verbatim>\<open>state/SyncPeerStatus.h/.cpp\<close>): the peer table. Request queues live in a store
    addressed by number, because a pending ledger callback keeps a queue alive after its peer is
    deleted. Status updates, the table's invariant, the ordered and the shuffled visit.
  \<^item> \<open>DownloadingQueue\<close> (\<^verbatim>\<open>state/DownloadingQueue.h/.cpp\<close>): packet buffer, block queue, commit queue, and
    the pipeline execute, verify, check, store, commit, announce. The locale \<open>new_block_handler\<close>
    is the contract of the handler \<^verbatim>\<open>BlockSync\<close> registers, interpreted on \<open>onNewBlock\<close>.
  \<^item> \<open>BlockSync\<close> (\<^verbatim>\<open>BlockSync.h/.cpp\<close>, \<^verbatim>\<open>BlockSyncFactory.h/.cpp\<close>): the module, its life cycle, dispatcher, handlers and
    tasks; every one of them keeps \<open>bs_wf\<close> and lets heights only grow (\<open>bs_safe\<close>).
  \<^item> \<open>BlockRequests\<close>, \<open>BlockExecution\<close>, \<open>BlockResponses\<close>, \<open>PeerConnections\<close>: the functional behaviour of the
    four activities of the module on every branch.
  \<^item> \<open>EventSystem\<close>, \<open>SyncSystem\<close>, \<open>SyncSafety\<close>: the module as a transition system. An event is one
    entry into the module; events come in any order, a callback at most once and only for a
    call that is pending. The locale \<open>simulation\<close>, an extension of \<open>inductive_invariant\<close>, is
    interpreted on it with the abstract ledger view as specification. In every reachable
    state: the components are well-formed, a block handed to the scheduler for commit was
    executed with its own hash, accepted by the consensus module and had its transactions
    stored, execution runs at most the water mark ahead of the ledger, and the ledger view
    only moves forward on reports.
  \<^item> \<open>Interleaving\<close>: threads that share a state, with three contracts of their programs as locales:
    \<open>ranked_program\<close> bounds every interleaving, \<open>asserted_program\<close>, an \<open>inductive_invariant\<close>, carries assertions at
    program points that no other thread destroys, \<open>budgeted_program\<close> extends it by a budget. The next theories interpret them.
  \<^item> \<open>ConfigThreads\<close>: the configuration under concurrent calls. \<^verbatim>\<open>resetConfig\<close>, \<^verbatim>\<open>setExecutedBlock\<close> and
    \<^verbatim>\<open>updateKnownMaxBlockInfo\<close> one load, store, lock and unlock at a time, over any number of threads,
    with \<open>reset_alone\<close> and \<open>executed_alone\<close> tying them to the sequential definitions. The height never
    falls, number and hash stay together, every interleaving ends. The executed height has no
    such protection, and \<open>StalledExecution\<close> shows what a node does whose executed height is left
    below the ledger's.
  \<^item> \<open>StatusThreads\<close>: the hash of the configuration, which \<^verbatim>\<open>hash()\<close> hands out by reference, read byte by
    byte while \<^verbatim>\<open>setHash\<close> writes it. A status holds stored bytes only (\<open>status_from_stored\<close>), but may mix two hashes.
  \<^item> \<open>QueueThreads\<close>: \<^verbatim>\<open>maintainDownloadingQueue\<close>, \<^verbatim>\<open>asyncNotifyNewBlock\<close>, the callback of \<^verbatim>\<open>applyBlock\<close> and incoming
    packets, one call on the queues or the configuration at a time (test and store of \<^verbatim>\<open>setExecutedBlock\<close> apart), over
    any number of threads. The queues stay well-formed, only downloaded blocks are executed, only blocks with a verified
    hash enter the commit queue and are checked, every interleaving ends; a task alone computes what the sequential definition says
    (\<open>maintain_alone\<close>). Two calls of \<^verbatim>\<open>top()\<close> with a notification between them dereference a null pointer.
  \<^item> \<open>PeerThreads\<close>: \<^verbatim>\<open>onPeerBlocksRequest\<close>, \<^verbatim>\<open>onPeerStatus\<close>, the callback of \<^verbatim>\<open>fetchAndSendBlock\<close>, \<^verbatim>\<open>maintainPeersConnection\<close> and
    \<^verbatim>\<open>maintainBlockRequest\<close>, one call on the peer table or a request queue at a time, over any number of threads; the lemmas
    \<open>request_alone\<close>, \<open>status_alone\<close>, \<open>connections_alone\<close> and \<open>serve_alone\<close> tie them to the sequential definitions. A request
    in the queue of a peer at any moment of a run is answered afterwards or stays in the peer's queue until the peer is deleted, which
    does not happen to a connected node of the group; no null request is dereferenced, and every interleaving ends, though requests arrive
    while others are served (the locale \<open>budgeted_program\<close>: who adds to another thread's work pays for it). Two requests of a
    node without a status can leave one of them in a queue that nothing refers to.
  \<^item> \<open>ModuleServices\<close> (\<^verbatim>\<open>BlockSyncFactory.h/.cpp\<close>, the services of \<^verbatim>\<open>BlockSyncConfig.h\<close>, \<^verbatim>\<open>initSendResponseHandler\<close> and the outer
    \<^verbatim>\<open>asyncNotifyBlockSyncMessage\<close>): each service arrives at its own getter, and a response, if one were sent, at the
    front service the factory was given.
  \<^item> \<open>LockOrder\<close>, \<open>ModuleLocks\<close>: shared, upgradable and exclusive guards in general, with the locale
    \<open>lock_discipline\<close> (every call takes locks in the order of a rank), and the lock actions of each call that enters
    the module, on which it is interpreted. No set of concurrent calls deadlocks, provided the services do not
    answer inside the call that asks them; \<open>commit_answered_inside\<close> shows that they must not.
  \<^item> \<open>WorkerLoop\<close>: the life cycle, \<^verbatim>\<open>start\<close>, \<^verbatim>\<open>stop\<close> and \<^verbatim>\<open>workerProcessLoop\<close>, with the \<^verbatim>\<open>Worker\<close> base class as a
    parameter. Once \<^verbatim>\<open>stop\<close> is called the loop returns at its next test.
  \<^item> \<open>SyncProgress\<close>: a lagging node with \<open>n\<close> blocks downloaded commits them all in \<open>n\<close> rounds when the
    services answer with success.
  \<^item> \<open>SyncNetwork\<close>: any number of modules that exchange messages over a network which loses,
    repeats and reorders them. No node believes a peer to be higher than it is, and requests
    name only blocks the receiver has.
  \<^item> \<open>CatchUp\<close>: a lagging module and any number that are ahead, from the requests of the first over the ledgers of the
    others back to the commits, the blocks arriving in any order. One exchange fetches two shards of eight blocks from each node, and repeated
    exchanges bring the lagging node to the highest known number; an attempt whose requests or answers are lost is
    repeated after the download timeout.
  \<^item> This theory: progress of a lagging node by one block with arbitrary answers of the right
    content, and the transfer of a single request and a single block between two nodes.

  \<^bold>\<open>Bounds.\<close> No definition has fuel: the worker loop, which may run for ever, is a partial
  function into \<open>option\<close> that is proved to return; loops over containers are structural, and the others
  (popping a heap, merging ranges, moving an element in a heap) have a measure. Arithmetic wraps
  as in C++, so the functional properties name the ranges in which it does not: \<open>range_ok\<close> for the
  shards of a request, \<open>heights_ok\<close> for execution, \<open>req_ok\<close> for queued ranges. The environment
  of the transition system reports chain heights below \<open>2 ^ 62\<close>; the water mark is the constant
  ten of the constructor.

  \<^bold>\<open>Not modelled.\<close> Log output (\<^verbatim>\<open>printSyncInfo\<close> apart from its locks, \<^verbatim>\<open>printBlockHeader\<close>), which has no effect on the state; the
  length of the wait in \<^verbatim>\<open>workerProcessLoop\<close> and the condition variable that ends it early, since a
  worker round may happen at any time here; the test
  fixtures. Outside \<open>ConfigThreads\<close>, \<open>StatusThreads\<close>, \<open>QueueThreads\<close> and \<open>PeerThreads\<close> each operation runs without interleaving, as if
  its locks covered all of it, and weak pointers to the module are alive. Clocks only decide when a timer fires, which is an event.
  \<^verbatim>\<open>asyncGetSyncInfo\<close> yields a record in place of JSON text.

  \<^bold>\<open>Further work.\<close> Interleavings inside the flush of the packet buffer and the commit attempt, which are
  single steps in \<open>QueueThreads\<close>, as is \<^verbatim>\<open>resetConfig\<close>, whose single stores are those of \<open>ConfigThreads\<close>; the life-cycle calls in the transition system itself; progress when
  only some of the blocks of an exchange arrive.
\<close>

section \<open>Properties of the whole module\<close>

text \<open>
  A lagging node makes progress. If the block after the ledger's height has been
  downloaded and nothing is executed ahead of it, a run of \<^verbatim>\<open>maintainDownloadingQueue\<close> hands it
  to the scheduler; when each service then answers with success (the header has the
  block's hash, the consensus module accepts it, the transactions are stored, the state is
  committed at the block's height), the block goes through check, store and commit in that
  order and the node's height has grown by one.
\<close>

lemma sync_one_block:
  assumes "bs_wf s" and "heights_ok s" and "shouldSyncing s" and "0 < m_waterMark s"
    and "m_commitQueue (m_downloadingQueue s) = []" and "c_executedBlock (m_config s) = c_blockNumber (m_config s)"
    and "\<exists>b \<in> set (m_blocks (m_downloadingQueue s)). block_number b = c_blockNumber (m_config s) + 1"
    and "s1 = maintainDownloadingQueue s"
  shows "\<exists>b \<in> set (m_blocks (m_downloadingQueue s)). block_number b = c_blockNumber (m_config s) + 1 \<and>
    calls s1 = calls s @ [ExecuteBlock b] \<and>
    (\<forall>header lc. bh_hash header = bh_hash (blockHeader b) \<longrightarrow> lc_blockNumber lc = block_number b \<longrightarrow>
      (let s2 = onExecuted b (Inr header) s1; s3 = onChecked b (Inr True) s2; s4 = onStored b (Inr ()) s3;
           s5 = onCommitted (Some (onNewBlock F)) b (Inr lc) s4
       in calls s2 = calls s1 @ [CheckBlock b] \<and>
          last (calls s3) = StoreTransactions (map tx_encoded (transactions b)) (map tx_hash (transactions b)) b \<and>
          last (calls s4) = CommitBlock b \<and>
          c_blockNumber (m_config s5) = c_blockNumber (m_config s) + 1 \<and> c_hash (m_config s5) = lc_hash lc))"
proof -
  obtain b q where b: "b \<in> set (m_blocks (m_downloadingQueue s))" "block_number b = c_blockNumber (m_config s) + 1"
    and s1: "s1 = emit (ExecuteBlock b) ((with_blocks q s)\<lparr>m_state := Downloading\<rparr>)"
    unfolding assms(8) by (rule maintainDownloadingQueue_executes [OF assms(1-7)])
  have next_block: "c_nextBlock (m_config s) = c_blockNumber (m_config s) + 1"
    using assms(1) by (simp add: bs_wf_def config_wf_def)
  { fix header :: BlockHeader and lc :: LedgerConfig
    assume hash: "bh_hash header = bh_hash (blockHeader b)" and lc: "lc_blockNumber lc = block_number b"
    define s2 where "s2 = onExecuted b (Inr header) s1"
    have s2: "s2 = emit (CheckBlock b) (setExecuted (block_number b) s1)"
      using hash b(2) next_block assms(5)
      by (simp add: s2_def onExecuted_def verifyExecutedBlock_def, subst updateCommitQueue_single)
        (simp_all add: s1 setExecutedBlock_def)
    define s3 where "s3 = onChecked b (Inr True) s2"
    define s4 where "s4 = onStored b (Inr ()) s3"
    have s4: "c_blockNumber (m_config s4) = c_blockNumber (m_config s)"
      by (simp add: s4_def s3_def s2 s1 onStored_def onChecked_def commitBlock_def commitBlockState_def Let_def setExecutedBlock_def)
    have "c_blockNumber (m_config (onCommitted (Some (onNewBlock F)) b (Inr lc) s4)) = c_blockNumber (m_config s) + 1 \<and>
        c_hash (m_config (onCommitted (Some (onNewBlock F)) b (Inr lc) s4)) = lc_hash lc"
      using lc b(2) by (simp add: onCommitted_def finalizeBlock_def Let_def resetConfig_fst resetBlockInfo_def config_defs s4)
    moreover have "calls s2 = calls s1 @ [CheckBlock b]" by (simp add: s2)
    moreover have "last (calls s3) = StoreTransactions (map tx_encoded (transactions b)) (map tx_hash (transactions b)) b"
      by (simp add: s3_def onChecked_def commitBlock_def Let_def)
    moreover have "last (calls s4) = CommitBlock b" by (simp add: s4_def onStored_def commitBlockState_def)
    ultimately have "let s2 = onExecuted b (Inr header) s1; s3 = onChecked b (Inr True) s2; s4 = onStored b (Inr ()) s3;
        s5 = onCommitted (Some (onNewBlock F)) b (Inr lc) s4
      in calls s2 = calls s1 @ [CheckBlock b] \<and>
        last (calls s3) = StoreTransactions (map tx_encoded (transactions b)) (map tx_hash (transactions b)) b \<and>
        last (calls s4) = CommitBlock b \<and>
        c_blockNumber (m_config s5) = c_blockNumber (m_config s) + 1 \<and> c_hash (m_config s5) = lc_hash lc"
      unfolding Let_def s4_def s3_def s2_def by blast }
  moreover have "calls s1 = calls s @ [ExecuteBlock b]" by (simp add: s1)
  ultimately show ?thesis using b by blast
qed

text \<open>
  A block travels from ledger to queue. When a node's ledger delivers a block a peer has
  asked for, the node sends that peer one message; a peer that lags behind, is not yet at
  the block and has room takes the message through the dispatcher and the next flush into its
  queue, where the very block then is, provided the serialisers give back what they were
  given.
\<close>

lemma block_transfer:
  assumes pb: "fw_decodePB F (fw_encodePB F (m_syncMessage msg)) = Some (m_syncMessage msg)"
    and msg: "msg = setNumber n (appendBlockData (fw_encodeBlock F b) newBlocksMsg)"
    and block: "fw_createBlock F (fw_encodeBlock F b) = Some b"
    and behind: "shouldSyncing r" "c_blockNumber (m_config r) < block_number b"
    and room: "m_blockBuffer (m_downloadingQueue r) = []"
      "length (m_blocks (m_downloadingQueue r)) < unat (c_maxDownloadingBlockQueueSize (m_config r))"
  shows "\<exists>data. calls (onBlockData F q peer n (Inr b) s) = calls s @ [SendMessage peer data] \<and>
    b \<in> set (m_blocks (m_downloadingQueue (maintainDownloadingBuffer F (asyncNotifyBlockSyncMessage F None sender data r))))"
proof -
  let ?data = "msg_encode (fw_encodePB F) msg"
  let ?r = "r\<lparr>m_downloadingQueue := (m_downloadingQueue r)\<lparr>m_blockBuffer := [msg]\<rparr>\<rparr>"
  have m: "m_syncMessage msg = \<lparr>pb_version = 0, pb_packetType = 2, pb_number = n, pb_hash = [], pb_genesisHash = [],
      pb_size = 0, pb_blocksData = [fw_encodeBlock F b]\<rparr>"
    unfolding msg by (simp add: appendBlockData_snoc message_defs emptyMessage_def)
  then have eq: "blocksOfMsg msg = msg" "newBlockSyncMsg\<lparr>m_syncMessage := m_syncMessage msg\<rparr> = msg"
    by (simp_all add: message_defs)
  have "msg_packetType msg = packetCode BlockResponsePacket" using m by (simp add: msg_packetType_def)
  then have "asyncNotifyBlockSyncMessage F None sender ?data r = ?r"
    using pb room
    by (simp add: eq asyncNotifyBlockSyncMessage_def createBlockSyncMsg_def msg_decode_def msg_encode_def
        onPeerBlocks_def dq_push_def)
  moreover have "b \<in> set (m_blocks (flushBufferToQueue F (m_config r) (m_downloadingQueue ?r)))"
    using room block behind(2) m
    by (simp add: flushBufferToQueue_def flushBuffer.simps flushOneShard_def flushBlock_def blockData_def blocksSize_def)
  moreover have "clearFullQueueIfNotHas (m_config r) k (m_downloadingQueue ?r) = m_downloadingQueue ?r" for k
    using room(2) by (simp add: clearFullQueueIfNotHas_def)
  moreover have "shouldSyncing ?r" using behind(1) shouldSyncing_cong [of ?r r] by simp
  ultimately have "b \<in> set (m_blocks (m_downloadingQueue (maintainDownloadingBuffer F
      (asyncNotifyBlockSyncMessage F None sender ?data r))))"
    by (simp add: maintainDownloadingBuffer_def dq_size_def Let_def)
  moreover have "calls (onBlockData F q peer n (Inr b) s) = calls s @ [SendMessage peer ?data]"
    by (simp add: onBlockData_def msg)
  ultimately show ?thesis by blast
qed

text \<open>
  A request travels from shard to queue. The message for the blocks \<open>f\<close> to \<open>t\<close>, received
  from a node of the group that has no status yet, leaves exactly these block numbers queued
  for that node, provided the serialiser gives back the request it was given.
\<close>

lemma request_transfer:
  assumes wf: "bs_wf s" and range: "height f" "height t" "f \<le> t"
    and pb: "fw_decodePB F (fw_encodePB F (m_syncMessage (shardRequest f t))) = Some (m_syncMessage (shardRequest f t))"
    and grp: "fw_existsInGroup F (c_sync (m_config s)) peer" and new: "peerStatus peer (m_syncStatus s) = None"
    and limit: "0 < unat (c_maxDownloadRequestQueueSize (m_config s))"
  shows "\<exists>p. peerStatus peer (m_syncStatus (asyncNotifyBlockSyncMessage F None peer
      (msg_encode (fw_encodePB F) (shardRequest f t)) s)) = Some p \<and>
    covered (queueOf (m_syncStatus (asyncNotifyBlockSyncMessage F None peer
      (msg_encode (fw_encodePB F) (shardRequest f t)) s)) p) = {f .. t}"
proof -
  let ?n = "to_size (t - f + 1)"
  have n: "in_i64 (t - f + 1)" using range by (simp add: height_def in_i64_def)
  have "uint ?n = t - f + 1" using range by (intro uint_to_size) (simp_all add: height_def)
  then have cov: "covered [\<lparr>fromNumber = f, req_size = ?n\<rparr>] = {f .. t}" by (auto simp: covered_def req_range_def)
  have "asyncNotifyBlockSyncMessage F None peer (msg_encode (fw_encodePB F) (shardRequest f t)) s =
      onPeerBlocksRequest F peer (shardRequest f t) s"
    using pb by (simp add: asyncNotifyBlockSyncMessage_def createBlockSyncMsg_def msg_decode_def msg_encode_def
        shardRequest_def request_setSize_def setNumber_def newBlockRequest_def setPacketType_def newBlockSyncMsg_def
        msg_packetType_def emptyMessage_def)
  moreover have "msg_number (requestOfMsg (shardRequest f t)) = f" "request_size (requestOfMsg (shardRequest f t)) = ?n"
    using n by (simp_all add: shardRequest_def message_defs)
  moreover have "map_sorted (m_peersStatus (m_syncStatus s))" using wf by (simp add: bs_wf_def peers_wf_def)
  ultimately show ?thesis
    using grp new limit cov
    by (simp add: onPeerBlocksRequest_def insertEmptyPeer_def newEmptyPeerStatus_def newPeerStatus_def peerStatus_def
        push_at_def drq_push_def queueOf_def)
qed

end
